(* ===== verification/Sched_Prelude.thy ===== *)
theory Sched_Prelude
  imports Main "HOL-Library.Signed_Division"
begin

text \<open>
  Machine integers and the cyclic comparison of clocks, as the C of the scheduler uses them.

  An integer of the source is an \<^typ>\<open>int\<close> and every place where the C truncates (an assignment to a
  narrower variable, unsigned arithmetic, a cast) applies the conversion of its type: \<open>u32\<close>, \<open>u64\<close>
  (reduction modulo a power of two) or \<open>s32\<close>, \<open>s64\<close> (the two's complement value).  The target is a
  64-bit kernel, so \<open>unsigned long\<close> is \<open>u64\<close> and \<open>long\<close> is \<open>s64\<close>; the kernel is built with
  -fno-strict-overflow, so signed arithmetic wraps too.
\<close>

named_theorems cint_range \<open>range facts of the C integer types\<close>
named_theorems cint_id \<open>a conversion is the identity on values of its type\<close>
named_theorems cint_absorb \<open>conversions absorbed by an outer conversion\<close>

section \<open>Conversions\<close>

definition u32 :: "int \<Rightarrow> int" where
  "u32 x = x mod 2 ^ 32"

definition u64 :: "int \<Rightarrow> int" where
  "u64 x = x mod 2 ^ 64"

definition s32 :: "int \<Rightarrow> int" where
  "s32 x = (x + 2 ^ 31) mod 2 ^ 32 - 2 ^ 31"

definition s64 :: "int \<Rightarrow> int" where
  "s64 x = (x + 2 ^ 63) mod 2 ^ 64 - 2 ^ 63"

definition is_u32 :: "int \<Rightarrow> bool" where
  "is_u32 x \<longleftrightarrow> 0 \<le> x \<and> x < 2 ^ 32"

definition is_u64 :: "int \<Rightarrow> bool" where
  "is_u64 x \<longleftrightarrow> 0 \<le> x \<and> x < 2 ^ 64"

definition is_s64 :: "int \<Rightarrow> bool" where
  "is_s64 x \<longleftrightarrow> - (2 ^ 63) \<le> x \<and> x < 2 ^ 63"

lemma u32_range [simp, cint_range]: "0 \<le> u32 x" "u32 x < 4294967296"
  by (simp_all add: u32_def)

lemma u64_range [simp, cint_range]: "0 \<le> u64 x" "u64 x < 18446744073709551616"
  by (simp_all add: u64_def)

lemma s32_range [simp, cint_range]: "- 2147483648 \<le> s32 x" "s32 x < 2147483648"
  by (simp_all add: s32_def)

lemma s64_range [simp, cint_range]: "- 9223372036854775808 \<le> s64 x" "s64 x < 9223372036854775808"
  by (simp_all add: s64_def)

lemma is_u32_u32 [simp]: "is_u32 (u32 x)"
  by (simp add: is_u32_def)

lemma is_u64_u64 [simp]: "is_u64 (u64 x)"
  by (simp add: is_u64_def)

lemma is_s64_s64 [simp]: "is_s64 (s64 x)"
  by (simp add: is_s64_def)

lemma u32_id [cint_id]: "0 \<le> x \<Longrightarrow> x < 4294967296 \<Longrightarrow> u32 x = x"
  by (simp add: u32_def)

lemma u64_id [cint_id]: "0 \<le> x \<Longrightarrow> x < 18446744073709551616 \<Longrightarrow> u64 x = x"
  by (simp add: u64_def)

lemma s32_id [cint_id]: "- 2147483648 \<le> x \<Longrightarrow> x < 2147483648 \<Longrightarrow> s32 x = x"
  by (simp add: s32_def)

lemma s64_id [cint_id]:
  "- 9223372036854775808 \<le> x \<Longrightarrow> x < 9223372036854775808 \<Longrightarrow> s64 x = x"
  by (simp add: s64_def)

lemma u64_is_u64 [simp]: "is_u64 x \<Longrightarrow> u64 x = x"
  by (simp add: is_u64_def u64_def)

lemma u32_is_u32 [simp]: "is_u32 x \<Longrightarrow> u32 x = x"
  by (simp add: is_u32_def u32_def)

lemma s64_is_s64 [simp]: "is_s64 x \<Longrightarrow> s64 x = x"
  by (simp add: is_s64_def s64_def)

lemma u64_u64 [simp]: "u64 (u64 x) = u64 x"
  by (simp add: u64_def)

lemma u64_absorb [cint_absorb]:
  "u64 (u64 x + y) = u64 (x + y)" "u64 (x + u64 y) = u64 (x + y)"
  "u64 (u64 x - y) = u64 (x - y)" "u64 (x - u64 y) = u64 (x - y)"
  "u64 (u64 x * y) = u64 (x * y)" "u64 (x * u64 y) = u64 (x * y)"
  by (simp_all add: u64_def mod_simps)

lemma s64_mod: "s64 x mod 2 ^ 64 = x mod 2 ^ 64"
  by (simp add: s64_def mod_simps)

lemma u64_s64 [cint_absorb]: "u64 (s64 x) = u64 x"
  using s64_mod [of x] by (simp add: u64_def)

lemma s64_u64 [cint_absorb]: "s64 (u64 x) = s64 x"
  by (simp add: s64_def u64_def mod_simps)

lemma s64_cong: "u64 x = u64 y \<Longrightarrow> s64 x = s64 y"
  by (metis s64_u64)

lemma u64_cong_add: "u64 x = u64 x' \<Longrightarrow> u64 y = u64 y' \<Longrightarrow> u64 (x + y) = u64 (x' + y')"
  by (metis u64_absorb(1,2))

lemma u64_cong_diff: "u64 x = u64 x' \<Longrightarrow> u64 y = u64 y' \<Longrightarrow> u64 (x - y) = u64 (x' - y')"
  by (metis u64_absorb(3,4))

lemma u64_cong_mult: "u64 x = u64 x' \<Longrightarrow> u64 y = u64 y' \<Longrightarrow> u64 (x * y) = u64 (x' * y')"
  by (metis u64_absorb(5,6))

lemma s64_absorb [cint_absorb]:
  "s64 (s64 x + y) = s64 (x + y)" "s64 (x + s64 y) = s64 (x + y)"
  "s64 (s64 x - y) = s64 (x - y)" "s64 (x - s64 y) = s64 (x - y)"
  "s64 (s64 x * y) = s64 (x * y)" "s64 (x * s64 y) = s64 (x * y)"
  "s64 (u64 x + y) = s64 (x + y)" "s64 (x + u64 y) = s64 (x + y)"
  "s64 (u64 x - y) = s64 (x - y)" "s64 (x - u64 y) = s64 (x - y)"
  "s64 (u64 x * y) = s64 (x * y)" "s64 (x * u64 y) = s64 (x * y)"
  by (rule s64_cong, rule u64_cong_add u64_cong_diff u64_cong_mult; simp add: u64_s64)+

lemma s64_absorb_mult [cint_absorb]:
  "s64 (a + s64 x * b) = s64 (a + x * b)" "s64 (a - s64 x * b) = s64 (a - x * b)"
  "s64 (a + u64 x * b) = s64 (a + x * b)" "s64 (a - u64 x * b) = s64 (a - x * b)"
  "s64 (a + b * s64 x) = s64 (a + b * x)" "s64 (a - b * s64 x) = s64 (a - b * x)"
  by (metis s64_absorb)+

lemma s64_wrap: "9223372036854775808 \<le> x \<Longrightarrow> x < 18446744073709551616 \<Longrightarrow> s64 x = x - 18446744073709551616"
proof -
  assume "9223372036854775808 \<le> x" "x < 18446744073709551616"
  moreover have "s64 x = s64 (x - 18446744073709551616)"
    by (rule s64_cong) (simp add: u64_def)
  ultimately show ?thesis by (simp add: s64_id)
qed

section \<open>Clocks that wrap\<close>

text \<open>
  Virtual times, deadlines and clocks are \<open>u64\<close> values that may wrap; the code compares two of them by the
  sign of their difference.  As long as all values in play lie within \<open>2 ^ 62\<close> of some value \<open>w\<close> (a window),
  that is the order of their signed offsets from \<open>w\<close>.
\<close>

definition clock_off :: "int \<Rightarrow> int \<Rightarrow> int" where
  "clock_off w x = s64 (x - w)"

definition in_window :: "int \<Rightarrow> int \<Rightarrow> bool" where
  "in_window w x \<longleftrightarrow> is_u64 x \<and> \<bar>clock_off w x\<bar> < 2 ^ 62"

lemma s64_small: "\<bar>x\<bar> < 2 ^ 63 \<Longrightarrow> s64 x = x"
  by (rule s64_id) auto

lemma window_diff:
  assumes "in_window w a" "in_window w b"
  shows "s64 (a - b) = clock_off w a - clock_off w b"
proof -
  have "s64 (a - b) = s64 ((a - w) - (b - w))" by simp
  also have "\<dots> = s64 (clock_off w a - clock_off w b)" by (simp only: clock_off_def s64_absorb)
  also have "\<dots> = clock_off w a - clock_off w b"
    using assms by (intro s64_small) (auto simp: in_window_def)
  finally show ?thesis .
qed

lemma window_off_inj:
  assumes "is_u64 a" "is_u64 b" "clock_off w a = clock_off w b"
  shows "a = b"
proof -
  have "s64 (a - b) = s64 (clock_off w a - clock_off w b)"
    by (simp only: clock_off_def s64_absorb) simp
  also have "\<dots> = 0" using assms(3) by (simp add: s64_def)
  finally have "u64 (a - b) = 0" using u64_s64 [of "a - b"] by (simp add: u64_def)
  then have "u64 (a - b + b) = u64 (0 + b)" using u64_absorb(1) [of "a - b" b] by simp
  with assms show ?thesis by simp
qed

section \<open>Shifts, division, multiplication helpers\<close>

text \<open>\<open>x >> n\<close> and \<open>x << n\<close>; the right shift of a negative value is arithmetic, as in the kernel.\<close>

definition shr :: "int \<Rightarrow> nat \<Rightarrow> int" where
  "shr x n = x div 2 ^ n"

definition shl :: "int \<Rightarrow> nat \<Rightarrow> int" where
  "shl x n = x * 2 ^ n"

lemma shr_mono: "x \<le> y \<Longrightarrow> shr x n \<le> shr y n"
  by (simp add: shr_def zdiv_mono1)

lemma shr_le: "0 \<le> x \<Longrightarrow> shr x n \<le> x"
proof -
  assume "0 \<le> x"
  then have "x div 2 ^ n \<le> x div 1"
    by (intro zdiv_mono2) auto
  then show ?thesis by (simp add: shr_def)
qed

lemma shr_nonneg [simp]: "0 \<le> x \<Longrightarrow> 0 \<le> shr x n"
  by (simp add: shr_def pos_imp_zdiv_nonneg_iff)

lemma int_div_mult_le: "0 < b \<Longrightarrow> a div b * b \<le> (a :: int)"
  using minus_mod_eq_div_mult [of a b] pos_mod_sign [of b a] by linarith

lemma int_less_div_Suc: "0 < b \<Longrightarrow> (a :: int) < (a div b + 1) * b"
proof -
  assume "0 < b"
  then have "a mod b < b" by simp
  moreover have "a = a div b * b + a mod b" by simp
  ultimately have "a < a div b * b + b" by linarith
  then show ?thesis by (simp add: distrib_right)
qed

lemma int_div_less: "0 < b \<Longrightarrow> a < c * b \<Longrightarrow> (a :: int) div b < c"
  by (smt (verit) int_div_mult_le mult_right_less_imp_less)

text \<open>Signed division of C truncates towards zero (\<open>sdiv\<close> of the library).\<close>

definition c_div :: "int \<Rightarrow> int \<Rightarrow> int" where
  "c_div a b = a sdiv b"

lemma c_div_nonneg: "0 \<le> a \<Longrightarrow> 0 < b \<Longrightarrow> c_div a b = a div b"
  by (simp add: c_div_def signed_divide_int_def sgn_if)

lemma c_div_neg: "a < 0 \<Longrightarrow> 0 < b \<Longrightarrow> c_div a b = - ((- a) div b)"
  by (simp add: c_div_def signed_divide_int_def sgn_if)

text \<open>
  \<open>mul_u64_u32_shr\<close> (linux/math64.h, with 128-bit arithmetic): the product is taken in 128 bits.
\<close>

definition mul_u64_u32_shr :: "int \<Rightarrow> int \<Rightarrow> nat \<Rightarrow> int" where
  "mul_u64_u32_shr a mul shift = u64 (shr (a * mul) shift)"

definition div_u64 :: "int \<Rightarrow> int \<Rightarrow> int" where
  "div_u64 dividend divisor = u64 dividend div u32 divisor"

definition cap_scale :: "int \<Rightarrow> int \<Rightarrow> int" where
  "cap_scale v s = shr (u64 (v * s)) 10"

definition SCHED_CAPACITY_SHIFT :: nat where
  "SCHED_CAPACITY_SHIFT = 10"

definition SCHED_CAPACITY_SCALE :: int where
  "SCHED_CAPACITY_SCALE = 1024"

text \<open>\<open>scale_load_down\<close> of a 64-bit kernel: a non-zero weight never scales below 2.\<close>

definition scale_load_down :: "int \<Rightarrow> int" where
  "scale_load_down w = (if w \<noteq> 0 then max 2 (shr w 10) else 0)"

definition scale_load :: "int \<Rightarrow> int" where
  "scale_load w = u64 (shl w 10)"

lemma scale_load_down_nonneg [simp]: "0 \<le> scale_load_down w"
  by (simp add: scale_load_down_def max_def)

lemma scale_load_down_pos: "0 < w \<Longrightarrow> 2 \<le> scale_load_down w"
  by (simp add: scale_load_down_def)

section \<open>Lists\<close>

fun list_first :: "'a list \<Rightarrow> 'a option" where
  "list_first [] = None"
| "list_first (x # xs) = Some x"

lemma list_first_append: "list_first (xs @ ys) = (if xs = [] then list_first ys else list_first xs)"
  by (cases xs) auto

lemma filter_remove1_key:
  "distinct (map f (xs @ x # ys)) \<Longrightarrow> filter (\<lambda>y. f y \<noteq> f x) (xs @ x # ys) = xs @ ys"
proof -
  assume "distinct (map f (xs @ x # ys))"
  then have "f x \<notin> f ` set xs" "f x \<notin> f ` set ys" by auto
  then have "\<forall>y \<in> set xs. f y \<noteq> f x" "\<forall>y \<in> set ys. f y \<noteq> f x" by (metis image_eqI)+
  then show ?thesis by simp
qed

lemma list_first_map: "list_first (map f xs) = map_option f (list_first xs)"
  by (cases xs) auto

lemma ex_bool [simp]: "\<exists>b. \<not> b" "\<exists>b. b"
  by blast+

lemma sum_list_update_int:
  "i < length xs \<Longrightarrow> (\<Sum>x\<leftarrow>xs[i := y]. f x) = (\<Sum>x\<leftarrow>xs. f x) - f (xs ! i) + (f y :: int)"
  by (induction xs arbitrary: i) (auto split: nat.splits)

lemma sum_list_div_le: "0 < (k :: int) \<Longrightarrow> (\<Sum>x\<leftarrow>xs. f x div k) \<le> (\<Sum>x\<leftarrow>xs. f x) div k"
proof (induction xs)
  case (Cons x xs)
  let ?s = "\<Sum>x\<leftarrow>xs. f x"
  have "(f x div k + ?s div k) * k \<le> f x + ?s"
    using int_div_mult_le [OF Cons.prems, of "f x"] int_div_mult_le [OF Cons.prems, of ?s] by (simp add: distrib_right)
  then have "(f x div k + ?s div k) * k div k \<le> (f x + ?s) div k" by (rule zdiv_mono1) (rule Cons.prems)
  with Cons show ?case by simp
qed simp

lemma sum_list_close:
  "(\<forall>x \<in> set xs. \<bar>f x - g x\<bar> \<le> (h x :: int)) \<Longrightarrow> \<bar>(\<Sum>x\<leftarrow>xs. f x) - (\<Sum>x\<leftarrow>xs. g x)\<bar> \<le> (\<Sum>x\<leftarrow>xs. h x)"
  by (induction xs) auto

lemma sum_list_range:
  "(\<forall>x \<in> set xs. 0 \<le> f x \<and> f x \<le> (B :: int)) \<Longrightarrow> 0 \<le> (\<Sum>x\<leftarrow>xs. f x) \<and> (\<Sum>x\<leftarrow>xs. f x) \<le> int (length xs) * B"
  by (induction xs) (auto simp: distrib_right)

lemma sum_list_member_le: "x \<in> set xs \<Longrightarrow> (\<And>y. 0 \<le> (f y :: int)) \<Longrightarrow> f x \<le> (\<Sum>x\<leftarrow>xs. f x)"
proof (induction xs)
  case (Cons y xs)
  then have "0 \<le> (\<Sum>x\<leftarrow>xs. f x)" by (auto intro!: sum_list_nonneg)
  with Cons show ?case by (auto simp: add_increasing)
qed simp

lemma sum_max_le:
  "(\<And>x. x \<in> set xs \<Longrightarrow> 0 \<le> f x) \<Longrightarrow> (\<Sum>x\<leftarrow>xs. max m (f x)) \<le> (\<Sum>x\<leftarrow>xs. f x) + int (length xs) * max 0 m"
proof (induction xs)
  case (Cons x xs)
  have "max m (f x) \<le> f x + max 0 m" using Cons.prems [of x] by simp
  with Cons show ?case by (fastforce simp: distrib_right)
qed simp

lemma sum_list_remove_nth:
  "i < length xs \<Longrightarrow> (\<Sum>x\<leftarrow>take i xs. f x) + (\<Sum>x\<leftarrow>drop (Suc i) xs. f x) = (\<Sum>x\<leftarrow>xs. f x) - (f (xs ! i) :: int)"
proof -
  assume "i < length xs"
  then have "(\<Sum>x\<leftarrow>xs. f x) = (\<Sum>x\<leftarrow>take i xs @ xs ! i # drop (Suc i) xs. f x)" by (simp add: id_take_nth_drop [symmetric])
  then show ?thesis by simp
qed

end
