(* ===== verification/Rbtree.thy ===== *)
theory Rbtree
  imports Sched_Prelude
begin

text \<open>
  The kernel's red-black trees (lib/rbtree.c, include/linux/rbtree_augmented.h), the timeline of the
  fair class and the deadline class.

  A node of the C code holds its two children, its colour and a pointer to its parent.  Here a tree
  is a value and a position in it is the subtree at the position together with the path to the root,
  nearest ancestor first: following \<open>rb_parent\<close> is taking the head of the path, "is this the left
  child of its parent" is the constructor of that head, and \<open>__rb_change_child\<close> is plugging another
  subtree into the path.  The C code dereferences a sibling or a grandparent that the red-black
  properties promise to exist; where it would be NULL the operation is \<open>None\<close> here, and the theorems
  show that this never happens.

  The augmented data of a node (\<open>min_deadline\<close> of a scheduling entity) is part of the element, and
  is maintained by the callbacks \<open>RB_DECLARE_CALLBACKS\<close> generates: \<open>rb_compute\<close> is RBCOMPUTE, which
  recomputes the data of a node from its children and says whether it was unchanged, and \<open>rb_copy\<close>
  copies the data of one node to another.
\<close>

section \<open>Trees and positions\<close>

datatype rb_color = Red | Black

datatype 'a rbt = E | N rb_color "'a rbt" 'a "'a rbt"

datatype 'a crumb =
    Lc rb_color 'a "'a rbt"  \<comment> \<open>we are the left child; colour, element and right child of the parent\<close>
  | Rc rb_color 'a "'a rbt"  \<comment> \<open>we are the right child; colour, element and left child of the parent\<close>

type_synonym 'a rb_path = "'a crumb list"

record 'a rb_augment_callbacks =
  rb_compute :: "'a \<Rightarrow> 'a option \<Rightarrow> 'a option \<Rightarrow> 'a \<times> bool"
  rb_copy :: "'a \<Rightarrow> 'a \<Rightarrow> 'a"

fun rb_color_of :: "'a rbt \<Rightarrow> rb_color" where
  "rb_color_of E = Black"
| "rb_color_of (N c l x r) = c"

fun rb_elem :: "'a rbt \<Rightarrow> 'a option" where
  "rb_elem E = None"
| "rb_elem (N c l x r) = Some x"

fun paint :: "rb_color \<Rightarrow> 'a rbt \<Rightarrow> 'a rbt" where
  "paint c E = E"
| "paint c (N _ l x r) = N c l x r"

fun crumb_color :: "'a crumb \<Rightarrow> rb_color" where
  "crumb_color (Lc c x r) = c"
| "crumb_color (Rc c x l) = c"

fun crumb_elem :: "'a crumb \<Rightarrow> 'a" where
  "crumb_elem (Lc c x r) = x"
| "crumb_elem (Rc c x l) = x"

fun plug :: "'a rbt \<Rightarrow> 'a crumb \<Rightarrow> 'a rbt" where
  "plug t (Lc c x r) = N c t x r"
| "plug t (Rc c x l) = N c l x t"

fun rb_zip :: "'a rbt \<Rightarrow> 'a rb_path \<Rightarrow> 'a rbt" where
  "rb_zip t [] = t"
| "rb_zip t (p # ps) = rb_zip (plug t p) ps"

fun rb_inorder :: "'a rbt \<Rightarrow> 'a list" where
  "rb_inorder E = []"
| "rb_inorder (N c l x r) = rb_inorder l @ x # rb_inorder r"

section \<open>Augmented callbacks\<close>

text \<open>
  \<open>RBNAME_rotate(old, new)\<close>: the new subtree root takes over the data of the old one, and the old one is
  recomputed from the children it has after the rotation.
\<close>

definition aug_rotate ::
    "'a rb_augment_callbacks \<Rightarrow> 'a \<Rightarrow> 'a \<Rightarrow> 'a rbt \<Rightarrow> 'a rbt \<Rightarrow> 'a \<times> 'a" where
  "aug_rotate cb old new l r =
     (fst (rb_compute cb old (rb_elem l) (rb_elem r)), rb_copy cb old new)"

text \<open>
  \<open>RBNAME_propagate(rb, stop)\<close>: recompute the ancestors on a path, from the nearest one, until one did
  not change.  The first argument is the element of the child the path starts above.
\<close>

fun aug_propagate :: "'a rb_augment_callbacks \<Rightarrow> 'a option \<Rightarrow> 'a rb_path \<Rightarrow> 'a rb_path" where
  "aug_propagate cb ch [] = []"
| "aug_propagate cb ch (Lc c x r # ps) =
     (case rb_compute cb x ch (rb_elem r) of (x', same) \<Rightarrow>
        Lc c x' r # (if same then ps else aug_propagate cb (Some x') ps))"
| "aug_propagate cb ch (Rc c x l # ps) =
     (case rb_compute cb x (rb_elem l) ch of (x', same) \<Rightarrow>
        Rc c x' l # (if same then ps else aug_propagate cb (Some x') ps))"

text \<open>The callbacks of the trees without augmented data.\<close>

definition dummy_callbacks :: "'a rb_augment_callbacks" where
  "dummy_callbacks = \<lparr>rb_compute = (\<lambda>x _ _. (x, True)), rb_copy = (\<lambda>_ x. x)\<rparr>"

section \<open>Insertion\<close>

text \<open>
  Case 3 of \<open>__rb_insert\<close> with the parent a left child: right rotate at gparent.  \<open>n\<close> is the parent's
  left child, \<open>tmp\<close> its right child, \<open>u\<close> the uncle.
\<close>

definition rb_insert_case3_l ::
    "'a rb_augment_callbacks \<Rightarrow> rb_color \<Rightarrow> 'a \<Rightarrow> 'a rbt \<Rightarrow> 'a rbt \<Rightarrow> 'a \<Rightarrow> 'a rbt \<Rightarrow> 'a rbt" where
  "rb_insert_case3_l cb gc gx u n px tmp =
     (case aug_rotate cb gx px (paint Black tmp) u of (gx', px') \<Rightarrow>
        N gc n px' (N Red (paint Black tmp) gx' u))"

definition rb_insert_case3_r ::
    "'a rb_augment_callbacks \<Rightarrow> rb_color \<Rightarrow> 'a \<Rightarrow> 'a rbt \<Rightarrow> 'a rbt \<Rightarrow> 'a \<Rightarrow> 'a rbt \<Rightarrow> 'a rbt" where
  "rb_insert_case3_r cb gc gx u n px tmp =
     (case aug_rotate cb gx px u (paint Black tmp) of (gx', px') \<Rightarrow>
        N gc (N Red u gx' (paint Black tmp)) px' n)"

text \<open>
  The fix-up below gparent when the uncle is not red: Case 2 rotates an inner grandchild outwards
  first, then Case 3.  The arguments are the node and the crumb of its (red) parent.
\<close>

fun rb_insert_rotate_l ::
    "'a rb_augment_callbacks \<Rightarrow> rb_color \<Rightarrow> 'a \<Rightarrow> 'a rbt \<Rightarrow> 'a rbt \<Rightarrow> 'a crumb \<Rightarrow> 'a rbt option" where
  "rb_insert_rotate_l cb gc gx u n (Lc pc px pr) = Some (rb_insert_case3_l cb gc gx u n px pr)"
| "rb_insert_rotate_l cb gc gx u (N nc nl nx nr) (Rc pc px pl) =
     (case aug_rotate cb px nx pl (paint Black nl) of (px', nx') \<Rightarrow>
        Some (rb_insert_case3_l cb gc gx u (N Red pl px' (paint Black nl)) nx' nr))"
| "rb_insert_rotate_l cb gc gx u E (Rc pc px pl) = None"

fun rb_insert_rotate_r ::
    "'a rb_augment_callbacks \<Rightarrow> rb_color \<Rightarrow> 'a \<Rightarrow> 'a rbt \<Rightarrow> 'a rbt \<Rightarrow> 'a crumb \<Rightarrow> 'a rbt option" where
  "rb_insert_rotate_r cb gc gx u n (Rc pc px pl) = Some (rb_insert_case3_r cb gc gx u n px pl)"
| "rb_insert_rotate_r cb gc gx u (N nc nl nx nr) (Lc pc px pr) =
     (case aug_rotate cb px nx (paint Black nr) pr of (px', nx') \<Rightarrow>
        Some (rb_insert_case3_r cb gc gx u (N Red (paint Black nr) px' pr) nx' nl))"
| "rb_insert_rotate_r cb gc gx u E (Lc pc px pr) = None"

text \<open>
  \<open>__rb_insert\<close>: the loop that restores the red-black properties after \<open>node\<close> was linked as a red leaf.
\<close>

fun rb_insert :: "'a rb_augment_callbacks \<Rightarrow> 'a rbt \<Rightarrow> 'a rb_path \<Rightarrow> 'a rbt option" where
  "rb_insert cb n [] = Some (paint Black n)"
| "rb_insert cb n [p] = (if crumb_color p = Black then Some (plug n p) else None)"
| "rb_insert cb n (p # Lc gc gx u # gs) =
     (if crumb_color p = Black then Some (rb_zip n (p # Lc gc gx u # gs))
      else if rb_color_of u = Red
      then rb_insert cb (N Red (paint Black (plug n p)) gx (paint Black u)) gs
      else map_option (\<lambda>t. rb_zip t gs) (rb_insert_rotate_l cb gc gx u n p))"
| "rb_insert cb n (p # Rc gc gx u # gs) =
     (if crumb_color p = Black then Some (rb_zip n (p # Rc gc gx u # gs))
      else if rb_color_of u = Red
      then rb_insert cb (N Red (paint Black u) gx (paint Black (plug n p))) gs
      else map_option (\<lambda>t. rb_zip t gs) (rb_insert_rotate_r cb gc gx u n p))"

text \<open>
  The descent of \<open>rb_add_augmented_cached\<close>: the path to the free link where the node goes, and
  whether no step went right.
\<close>

fun rb_descend :: "('a \<Rightarrow> 'a \<Rightarrow> bool) \<Rightarrow> 'a \<Rightarrow> 'a rbt \<Rightarrow> 'a rb_path \<Rightarrow> bool \<Rightarrow> 'a rb_path \<times> bool" where
  "rb_descend lt x E ps leftmost = (ps, leftmost)"
| "rb_descend lt x (N c l y r) ps leftmost =
     (if lt x y then rb_descend lt x l (Lc c y r # ps) leftmost
      else rb_descend lt x r (Rc c y l # ps) False)"

text \<open>
  \<open>struct rb_root_cached\<close>: the tree and the pointer to its leftmost node; a node pointer is the identity
  of its element (\<open>node_id\<close> in the operations that take the pointer apart).
\<close>

record 'a rb_root_cached =
  rb_root :: "'a rbt"
  rb_leftmost :: "nat option"

definition rb_add_augmented_cached ::
    "'a rb_augment_callbacks \<Rightarrow> ('a \<Rightarrow> nat) \<Rightarrow> ('a \<Rightarrow> 'a \<Rightarrow> bool) \<Rightarrow> 'a \<Rightarrow> 'a rb_root_cached
       \<Rightarrow> 'a rb_root_cached option" where
  "rb_add_augmented_cached cb node_id lt x tree =
     (case rb_descend lt x (rb_root tree) [] True of (ps, leftmost) \<Rightarrow>
        (case rb_insert cb (N Red E x E) (aug_propagate cb (Some x) ps) of
           None \<Rightarrow> None
         | Some t \<Rightarrow> Some \<lparr>rb_root = t,
             rb_leftmost = (if leftmost then Some (node_id x) else rb_leftmost tree)\<rparr>))"

section \<open>Removal\<close>

text \<open>
  One iteration of \<open>____rb_erase_color\<close> once the sibling is known to be black (Cases 2, 3 and 4); the
  result is the rebuilt subtree and whether the loop goes on at it.
\<close>

definition rb_erase_case4_l ::
    "'a rb_augment_callbacks \<Rightarrow> rb_color \<Rightarrow> 'a rbt \<Rightarrow> 'a \<Rightarrow> 'a rbt \<Rightarrow> 'a \<Rightarrow> 'a rbt \<Rightarrow> 'a rbt" where
  "rb_erase_case4_l cb pc n px tmp2 sx tmp1 =
     (case aug_rotate cb px sx n tmp2 of (px', sx') \<Rightarrow>
        N pc (N Black n px' tmp2) sx' (paint Black tmp1))"

definition rb_erase_case4_r ::
    "'a rb_augment_callbacks \<Rightarrow> rb_color \<Rightarrow> 'a rbt \<Rightarrow> 'a \<Rightarrow> 'a rbt \<Rightarrow> 'a \<Rightarrow> 'a rbt \<Rightarrow> 'a rbt" where
  "rb_erase_case4_r cb pc n px tmp2 sx tmp1 =
     (case aug_rotate cb px sx tmp2 n of (px', sx') \<Rightarrow>
        N pc (paint Black tmp1) sx' (N Black tmp2 px' n))"

fun rb_erase_black_l ::
    "'a rb_augment_callbacks \<Rightarrow> rb_color \<Rightarrow> 'a rbt \<Rightarrow> 'a \<Rightarrow> 'a rbt \<Rightarrow> ('a rbt \<times> bool) option" where
  "rb_erase_black_l cb pc n px E = None"
| "rb_erase_black_l cb pc n px (N sc sl sx sr) =
     (if rb_color_of sr = Black then
        (case sl of
           N Red sll slx slr \<Rightarrow>
             (case aug_rotate cb sx slx (paint Black slr) sr of (sx', slx') \<Rightarrow>
                Some (rb_erase_case4_l cb pc n px sll slx' (N sc (paint Black slr) sx' sr), False))
         | _ \<Rightarrow>
             (if pc = Red then Some (N Black n px (N Red sl sx sr), False)
              else Some (N pc n px (N Red sl sx sr), True)))
      else Some (rb_erase_case4_l cb pc n px sl sx sr, False))"

fun rb_erase_black_r ::
    "'a rb_augment_callbacks \<Rightarrow> rb_color \<Rightarrow> 'a rbt \<Rightarrow> 'a \<Rightarrow> 'a rbt \<Rightarrow> ('a rbt \<times> bool) option" where
  "rb_erase_black_r cb pc n px E = None"
| "rb_erase_black_r cb pc n px (N sc sl sx sr) =
     (if rb_color_of sl = Black then
        (case sr of
           N Red srl srx srr \<Rightarrow>
             (case aug_rotate cb sx srx sl (paint Black srl) of (sx', srx') \<Rightarrow>
                Some (rb_erase_case4_r cb pc n px srr srx' (N sc sl sx' (paint Black srl)), False))
         | _ \<Rightarrow>
             (if pc = Red then Some (N Black (N Red sl sx sr) px n, False)
              else Some (N pc (N Red sl sx sr) px n, True)))
      else Some (rb_erase_case4_r cb pc n px sr sx sl, False))"

text \<open>
  \<open>____rb_erase_color\<close>: \<open>n\<close> is the subtree one black node short, the path starts at its parent.  Case 1
  (a red sibling) rotates the sibling above the parent and goes on with its black child.
\<close>

fun rb_erase_color :: "'a rb_augment_callbacks \<Rightarrow> 'a rbt \<Rightarrow> 'a rb_path \<Rightarrow> 'a rbt option" where
  "rb_erase_color cb n [] = None"
| "rb_erase_color cb n (Lc pc px (N Red sl sx sr) # ps) =
     (if sl = E then None
      else (case aug_rotate cb px sx n (paint Black sl) of (px', sx') \<Rightarrow>
        map_option (\<lambda>(t, _). rb_zip t (Lc pc sx' sr # ps))
          (rb_erase_black_l cb Red n px' (paint Black sl))))"
| "rb_erase_color cb n (Rc pc px (N Red sl sx sr) # ps) =
     (if sr = E then None
      else (case aug_rotate cb px sx (paint Black sr) n of (px', sx') \<Rightarrow>
        map_option (\<lambda>(t, _). rb_zip t (Rc pc sx' sl # ps))
          (rb_erase_black_r cb Red n px' (paint Black sr))))"
| "rb_erase_color cb n (Lc pc px s # ps) =
     (case rb_erase_black_l cb pc n px s of
        None \<Rightarrow> None
      | Some (t, cont) \<Rightarrow>
          if cont \<and> ps \<noteq> [] then rb_erase_color cb t ps else Some (rb_zip t ps))"
| "rb_erase_color cb n (Rc pc px s # ps) =
     (case rb_erase_black_r cb pc n px s of
        None \<Rightarrow> None
      | Some (t, cont) \<Rightarrow>
          if cont \<and> ps \<noteq> [] then rb_erase_color cb t ps else Some (rb_zip t ps))"

text \<open>
  Case 3 of \<open>__rb_erase_augmented\<close>: the leftmost node below a non-empty subtree, with the path down to it
  (its colour, its element, its right child).
\<close>

fun rb_leftmost_pos :: "rb_color \<Rightarrow> 'a rbt \<Rightarrow> 'a \<Rightarrow> 'a rbt \<Rightarrow> 'a rb_path
    \<Rightarrow> rb_color \<times> 'a \<times> 'a rbt \<times> 'a rb_path" where
  "rb_leftmost_pos c E x r ps = (c, x, r, ps)"
| "rb_leftmost_pos c (N lc ll lx lr) x r ps = rb_leftmost_pos lc ll lx lr (Lc c x r # ps)"

text \<open>
  \<open>__rb_erase_augmented\<close> at the node \<open>N c l x r\<close> below \<open>ps\<close>: the subtree that takes the freed link, the
  path above it, and whether the link has to be rebalanced (\<open>rebalance\<close> is its parent).
\<close>

fun rb_erase_augmented_node ::
    "'a rb_augment_callbacks \<Rightarrow> rb_color \<Rightarrow> 'a rbt \<Rightarrow> 'a \<Rightarrow> 'a rbt \<Rightarrow> 'a rb_path
       \<Rightarrow> 'a rbt \<times> 'a rb_path \<times> bool" where
  "rb_erase_augmented_node cb c E x r ps =
     (paint c r, aug_propagate cb (rb_elem r) ps, r = E \<and> c = Black \<and> ps \<noteq> [])"
| "rb_erase_augmented_node cb c l x E ps =
     (paint c l, aug_propagate cb (rb_elem l) ps, False)"
| "rb_erase_augmented_node cb c l x (N rc rl rx rr) ps =
     (case rb_leftmost_pos rc rl rx rr [] of (sc, sx, child2, qs) \<Rightarrow>
        (let sx' = rb_copy cb x sx;
             qs' = aug_propagate cb (rb_elem child2) qs;
             ch = (if qs' = [] then rb_elem child2 else Some (crumb_elem (last qs')))
         in (paint Black child2, qs' @ aug_propagate cb ch (Rc c sx' l # ps),
             child2 = E \<and> sc = Black)))"

definition rb_erase_augmented ::
    "'a rb_augment_callbacks \<Rightarrow> rb_color \<Rightarrow> 'a rbt \<Rightarrow> 'a \<Rightarrow> 'a rbt \<Rightarrow> 'a rb_path \<Rightarrow> 'a rbt option" where
  "rb_erase_augmented cb c l x r ps =
     (case rb_erase_augmented_node cb c l x r ps of (t, qs, rebalance) \<Rightarrow>
        if rebalance then rb_erase_color cb t qs else Some (rb_zip t qs))"

text \<open>Following a node pointer: the position of the node with a given identity.\<close>

fun rb_locate :: "('a \<Rightarrow> nat) \<Rightarrow> nat \<Rightarrow> 'a rbt \<Rightarrow> 'a rb_path
    \<Rightarrow> (rb_color \<times> 'a rbt \<times> 'a \<times> 'a rbt \<times> 'a rb_path) option" where
  "rb_locate node_id i E ps = None"
| "rb_locate node_id i (N c l x r) ps =
     (if node_id x = i then Some (c, l, x, r, ps)
      else (case rb_locate node_id i l (Lc c x r # ps) of
              Some pos \<Rightarrow> Some pos
            | None \<Rightarrow> rb_locate node_id i r (Rc c x l # ps)))"

text \<open>\<open>rb_first\<close>, \<open>rb_last\<close> and \<open>rb_next\<close>.\<close>

fun rb_first :: "'a rbt \<Rightarrow> 'a option" where
  "rb_first E = None"
| "rb_first (N c E x r) = Some x"
| "rb_first (N c l x r) = rb_first l"

fun rb_last :: "'a rbt \<Rightarrow> 'a option" where
  "rb_last E = None"
| "rb_last (N c l x E) = Some x"
| "rb_last (N c l x r) = rb_last r"

fun rb_next_up :: "'a rb_path \<Rightarrow> 'a option" where
  "rb_next_up [] = None"
| "rb_next_up (Rc c x l # ps) = rb_next_up ps"
| "rb_next_up (Lc c x r # ps) = Some x"

definition rb_next :: "'a rbt \<Rightarrow> 'a rb_path \<Rightarrow> 'a option" where
  "rb_next r ps = (if r \<noteq> E then rb_first r else rb_next_up ps)"

definition rb_erase_augmented_cached ::
    "'a rb_augment_callbacks \<Rightarrow> ('a \<Rightarrow> nat) \<Rightarrow> nat \<Rightarrow> 'a rb_root_cached
       \<Rightarrow> 'a rb_root_cached option" where
  "rb_erase_augmented_cached cb node_id i tree =
     (case rb_locate node_id i (rb_root tree) [] of
        None \<Rightarrow> None
      | Some (c, l, x, r, ps) \<Rightarrow>
          (case rb_erase_augmented cb c l x r ps of
             None \<Rightarrow> None
           | Some t \<Rightarrow> Some \<lparr>rb_root = t,
               rb_leftmost = (if rb_leftmost tree = Some i
                              then map_option node_id (rb_next r ps) else rb_leftmost tree)\<rparr>))"

text \<open>\<open>rb_first_cached\<close>, dereferenced.\<close>

definition rb_first_cached :: "('a \<Rightarrow> nat) \<Rightarrow> 'a rb_root_cached \<Rightarrow> 'a option" where
  "rb_first_cached node_id tree =
     (case rb_leftmost tree of
        None \<Rightarrow> None
      | Some i \<Rightarrow> map_option (\<lambda>(c, l, x, r, ps). x) (rb_locate node_id i (rb_root tree) []))"

section \<open>The red-black properties\<close>

text \<open>
  Properties 2) to 5) of the comment at the head of rbtree.c, and what they say of a path: \<open>cpath c ps\<close>
  and \<open>hpath n ps\<close> hold when plugging in a subtree with root colour \<open>c\<close> and black height \<open>n\<close> gives a tree
  with the colour and the height property.
\<close>

fun bheight :: "'a rbt \<Rightarrow> nat" where
  "bheight E = 0"
| "bheight (N c l x r) = (if c = Black then Suc (bheight l) else bheight l)"

fun invc :: "'a rbt \<Rightarrow> bool" where
  "invc E \<longleftrightarrow> True"
| "invc (N c l x r) \<longleftrightarrow>
     (c = Red \<longrightarrow> rb_color_of l = Black \<and> rb_color_of r = Black) \<and> invc l \<and> invc r"

fun invh :: "'a rbt \<Rightarrow> bool" where
  "invh E \<longleftrightarrow> True"
| "invh (N c l x r) \<longleftrightarrow> bheight l = bheight r \<and> invh l \<and> invh r"

definition rb_wf :: "'a rbt \<Rightarrow> bool" where
  "rb_wf t \<longleftrightarrow> invc t \<and> invh t \<and> rb_color_of t = Black"

fun cpath :: "rb_color \<Rightarrow> 'a rb_path \<Rightarrow> bool" where
  "cpath c0 [] \<longleftrightarrow> c0 = Black"
| "cpath c0 (Lc c x r # ps) \<longleftrightarrow>
     (c = Red \<longrightarrow> c0 = Black \<and> rb_color_of r = Black) \<and> invc r \<and> cpath c ps"
| "cpath c0 (Rc c x l # ps) \<longleftrightarrow>
     (c = Red \<longrightarrow> c0 = Black \<and> rb_color_of l = Black) \<and> invc l \<and> cpath c ps"

fun hpath :: "nat \<Rightarrow> 'a rb_path \<Rightarrow> bool" where
  "hpath n [] \<longleftrightarrow> True"
| "hpath n (Lc c x r # ps) \<longleftrightarrow>
     invh r \<and> bheight r = n \<and> hpath (if c = Black then Suc n else n) ps"
| "hpath n (Rc c x l # ps) \<longleftrightarrow>
     invh l \<and> bheight l = n \<and> hpath (if c = Black then Suc n else n) ps"

lemma color_neq [simp]: "c \<noteq> Black \<longleftrightarrow> c = Red"
  by (cases c) auto

lemma not_Red: "c \<noteq> Red \<Longrightarrow> c = Black"
  by (cases c) auto

lemma rb_wf_zip:
  "rb_wf (rb_zip t ps) \<longleftrightarrow> invc t \<and> invh t \<and> cpath (rb_color_of t) ps \<and> hpath (bheight t) ps"
proof (induction t ps rule: rb_zip.induct)
  case (1 t)
  then show ?case by (auto simp: rb_wf_def)
next
  case (2 t p ps)
  then show ?case by (cases p) auto
qed

lemma paint_simps [simp]:
  "rb_color_of (paint Black t) = Black"
  "invh (paint c t) = invh t" "rb_elem (paint c t) = rb_elem t" "rb_inorder (paint c t) = rb_inorder t"
  "paint c t = E \<longleftrightarrow> t = E"
  by (cases t; simp)+

lemma paint_Black_invc [simp]: "invc t \<Longrightarrow> invc (paint Black t)"
  by (cases t) auto

lemma paint_Black_id [simp]: "rb_color_of t = Black \<Longrightarrow> paint Black t = t"
  by (cases t) auto

lemma bheight_paint_Black: "bheight (paint Black t) = (if rb_color_of t = Red then Suc (bheight t) else bheight t)"
  by (cases t) auto

lemma rb_insert_wf:
  "invc n \<Longrightarrow> invh n \<Longrightarrow> rb_color_of n = Red \<Longrightarrow> hpath (bheight n) ps \<Longrightarrow> cpath Black ps
     \<Longrightarrow> \<exists>t. rb_insert cb n ps = Some t \<and> rb_wf t"
proof (induction cb n ps rule: rb_insert.induct)
  case (1 cb n)
  then show ?case by (cases n) (auto simp: rb_wf_def)
next
  case (2 cb n p)
  then show ?case by (cases p) (auto simp: rb_wf_def)
next
  case (3 cb n p gc gx u gs)
  show ?case
  proof (cases "crumb_color p = Black")
    case True
    with 3 show ?thesis using rb_wf_zip [of n "p # Lc gc gx u # gs"] by (cases p) auto
  next
    case False
    show ?thesis
    proof (cases "rb_color_of u = Red")
      case True
      with False 3 show ?thesis
       by (cases p; cases u; cases gc) auto
    next
      case u: False
      then have "rb_color_of u = Black" by (rule not_Red)
      with False 3 show ?thesis
        by (cases p; cases n; cases gc) (auto simp: rb_insert_case3_l_def aug_rotate_def rb_wf_zip)
    qed
  qed
next
  case (4 cb n p gc gx u gs)
  show ?case
  proof (cases "crumb_color p = Black")
    case True
    with 4 show ?thesis using rb_wf_zip [of n "p # Rc gc gx u # gs"] by (cases p) auto
  next
    case False
    show ?thesis
    proof (cases "rb_color_of u = Red")
      case True
      with False 4 show ?thesis
       by (cases p; cases u; cases gc) auto
    next
      case u: False
      then have "rb_color_of u = Black" by (rule not_Red)
      with False 4 show ?thesis
        by (cases p; cases n; cases gc) (auto simp: rb_insert_case3_r_def aug_rotate_def rb_wf_zip)
    qed
  qed
qed

lemma rb_erase_black_l_wf:
  assumes n: "invc n" "invh n" "rb_color_of n = Black"
    and s: "invc s" "invh s" "rb_color_of s = Black" "bheight s = Suc (bheight n)"
  shows "\<exists>t cont. rb_erase_black_l cb pc n px s = Some (t, cont) \<and> invc t \<and> invh t \<and>
    (if cont then pc = Black \<and> rb_color_of t = Black \<and> bheight t = bheight s
     else bheight t = (if pc = Black then Suc (bheight s) else bheight s) \<and>
          (pc = Black \<longrightarrow> rb_color_of t = Black))"
proof -
  obtain sl sx sr where S: "s = N Black sl sx sr"
    using s by (cases s) auto
  consider (c4) "rb_color_of sr = Red" | (c3) l x r where "rb_color_of sr = Black" "sl = N Red l x r"
    | (c2) "rb_color_of sr = Black" "rb_color_of sl = Black"
    by (cases sr; cases sl) (auto dest: not_Red)
  then show ?thesis
  proof cases
    case c4
    with S n s show ?thesis
      by (cases sr) (simp_all add: rb_erase_case4_l_def aug_rotate_def)
  next
    case c3
    with S n s show ?thesis
      by (simp add: rb_erase_case4_l_def aug_rotate_def)
  next
    case c2
    with S n s show ?thesis
      by (cases sl; cases pc) simp_all
  qed
qed

lemma rb_erase_black_r_wf:
  assumes n: "invc n" "invh n" "rb_color_of n = Black"
    and s: "invc s" "invh s" "rb_color_of s = Black" "bheight s = Suc (bheight n)"
  shows "\<exists>t cont. rb_erase_black_r cb pc n px s = Some (t, cont) \<and> invc t \<and> invh t \<and>
    (if cont then pc = Black \<and> rb_color_of t = Black \<and> bheight t = bheight s
     else bheight t = (if pc = Black then Suc (bheight s) else bheight s) \<and>
          (pc = Black \<longrightarrow> rb_color_of t = Black))"
proof -
  obtain sl sx sr where S: "s = N Black sl sx sr"
    using s by (cases s) auto
  consider (c4) "rb_color_of sl = Red" | (c3) l x r where "rb_color_of sl = Black" "sr = N Red l x r"
    | (c2) "rb_color_of sl = Black" "rb_color_of sr = Black"
    by (cases sl; cases sr) (auto dest: not_Red)
  then show ?thesis
  proof cases
    case c4
    with S n s show ?thesis
      by (cases sl) (simp_all add: rb_erase_case4_r_def aug_rotate_def)
  next
    case c3
    with S n s show ?thesis
      by (simp add: rb_erase_case4_r_def aug_rotate_def)
  next
    case c2
    with S n s show ?thesis
      by (cases sr; cases pc) simp_all
  qed
qed

declare rb_erase_black_l.simps [simp del] rb_erase_black_r.simps [simp del]

lemma cpath_mono: "cpath Red ps \<Longrightarrow> cpath c ps"
  by (cases "(c, ps)" rule: cpath.cases; cases c) auto

fun crumb_shape :: "'a crumb \<Rightarrow> bool \<times> rb_color \<times> 'a rbt" where
  "crumb_shape (Lc c x r) = (True, c, r)"
| "crumb_shape (Rc c x l) = (False, c, l)"

lemma path_shape_cong:
  "map crumb_shape ps = map crumb_shape qs
     \<Longrightarrow> cpath c ps = cpath c qs \<and> hpath n ps = hpath n qs"
proof (induction ps arbitrary: qs c n)
  case Nil
  then show ?case by simp
next
  case (Cons p ps)
  then obtain q qs' where q: "qs = q # qs'" "map crumb_shape ps = map crumb_shape qs'"
      "crumb_shape p = crumb_shape q"
    by (cases qs) auto
  from Cons.IH [OF q(2)] have "cpath c ps = cpath c qs'" "hpath n ps = hpath n qs'" for c n
    by blast+
  with q(1,3) show ?case by (cases p; cases q) auto
qed

lemma shape_propagate [simp]: "map crumb_shape (aug_propagate cb ch ps) = map crumb_shape ps"
  by (induction cb ch ps rule: aug_propagate.induct) (auto split: prod.splits)

lemma rb_zip_append [simp]: "rb_zip t (ps @ qs) = rb_zip (rb_zip t ps) qs"
  by (induction t ps rule: rb_zip.induct) auto

lemma rb_leftmost_pos_zip:
  "rb_leftmost_pos c l x r ps = (sc, sx, ch, qs) \<Longrightarrow> rb_zip (N sc E sx ch) qs = rb_zip (N c l x r) ps"
  by (induction c l x r ps rule: rb_leftmost_pos.induct) auto

lemmas rb_erase_color_induct =
  rb_erase_color.induct [case_names root left_red right_red left_nil left_black right_nil right_black]

lemma rb_erase_color_wf:
  "ps \<noteq> [] \<Longrightarrow> invc n \<Longrightarrow> invh n \<Longrightarrow> rb_color_of n = Black \<Longrightarrow> hpath (Suc (bheight n)) ps
     \<Longrightarrow> cpath Black ps \<Longrightarrow> \<exists>t. rb_erase_color cb n ps = Some t \<and> rb_wf t"
proof (induction cb n ps rule: rb_erase_color_induct)
  case (root cb n)
  then show ?case by simp
next
  case (left_red cb n pc px sl sx sr ps)
  let ?rot = "aug_rotate cb px sx n sl"
  from left_red have sl: "invc sl" "invh sl" "rb_color_of sl = Black" "bheight sl = Suc (bheight n)"
    "pc = Black" "sl \<noteq> E"
    by (auto dest: not_Red)
  obtain t cont where t: "rb_erase_black_l cb Red n (fst ?rot) sl = Some (t, cont)"
      "invc t" "invh t" "bheight t = bheight sl"
    using rb_erase_black_l_wf [of n sl cb Red "fst ?rot"] left_red.prems sl by (auto split: if_splits)
  have "rb_wf (rb_zip t (Lc pc (snd ?rot) sr # ps))"
    unfolding rb_wf_zip using left_red.prems sl t by auto
  with sl t show ?case
    by (simp add: case_prod_unfold)
next
  case (right_red cb n pc px sl sx sr ps)
  let ?rot = "aug_rotate cb px sx sr n"
  from right_red have sr: "invc sr" "invh sr" "rb_color_of sr = Black" "bheight sr = Suc (bheight n)"
    "pc = Black" "sr \<noteq> E"
    by (auto dest: not_Red)
  obtain t cont where t: "rb_erase_black_r cb Red n (fst ?rot) sr = Some (t, cont)"
      "invc t" "invh t" "bheight t = bheight sr"
    using rb_erase_black_r_wf [of n sr cb Red "fst ?rot"] right_red.prems sr by (auto split: if_splits)
  have "rb_wf (rb_zip t (Rc pc (snd ?rot) sl # ps))"
    unfolding rb_wf_zip using right_red.prems sr t by auto
  with sr t show ?case
    by (simp add: case_prod_unfold)
next
  case (left_nil cb n pc px ps)
  then show ?case by simp
next
  case (left_black cb n pc px sl sx sr ps)
  obtain t cont where t: "rb_erase_black_l cb pc n px (N Black sl sx sr) = Some (t, cont)"
      "invc t" "invh t"
      "if cont then pc = Black \<and> rb_color_of t = Black \<and> bheight t = Suc (bheight n)
       else bheight t = (if pc = Black then Suc (Suc (bheight n)) else Suc (bheight n)) \<and>
         (pc = Black \<longrightarrow> rb_color_of t = Black)"
    using rb_erase_black_l_wf [of n "N Black sl sx sr" cb pc px] left_black.prems by auto
  show ?case
  proof (cases "cont \<and> ps \<noteq> []")
    case True
    with t left_black show ?thesis by simp
  next
    case False
    have "rb_wf (rb_zip t ps)"
      unfolding rb_wf_zip using False t left_black.prems
      by (cases cont; cases pc) (auto intro: cpath_mono)
    with False t show ?thesis by auto
  qed
next
  case (right_nil cb n pc px ps)
  then show ?case by simp
next
  case (right_black cb n pc px sl sx sr ps)
  obtain t cont where t: "rb_erase_black_r cb pc n px (N Black sl sx sr) = Some (t, cont)"
      "invc t" "invh t"
      "if cont then pc = Black \<and> rb_color_of t = Black \<and> bheight t = Suc (bheight n)
       else bheight t = (if pc = Black then Suc (Suc (bheight n)) else Suc (bheight n)) \<and>
         (pc = Black \<longrightarrow> rb_color_of t = Black)"
    using rb_erase_black_r_wf [of n "N Black sl sx sr" cb pc px] right_black.prems by auto
  show ?case
  proof (cases "cont \<and> ps \<noteq> []")
    case True
    with t right_black show ?thesis by simp
  next
    case False
    have "rb_wf (rb_zip t ps)"
      unfolding rb_wf_zip using False t right_black.prems
      by (cases cont; cases pc) (auto intro: cpath_mono)
    with False t show ?thesis by auto
  qed
qed

lemma invh_bheight_0: "invh t \<Longrightarrow> invc t \<Longrightarrow> bheight t = 0 \<Longrightarrow> t \<noteq> E \<Longrightarrow> rb_color_of t = Red"
  by (cases t) (auto split: if_splits)

lemma path_propagate [simp]:
  "cpath k (aug_propagate cb ch ps) = cpath k ps" "hpath m (aug_propagate cb ch ps) = hpath m ps"
  "aug_propagate cb ch ps = [] \<longleftrightarrow> ps = []"
  using path_shape_cong [OF shape_propagate] shape_propagate [of cb ch ps] by (blast, blast, fastforce)

lemma rb_erase_no_left_wf:
  assumes "rb_wf (rb_zip (N c E x r) ps)"
  shows "\<exists>t. rb_erase_augmented cb c E x r ps = Some t \<and> rb_wf t"
proof (cases "r = E \<and> c = Black \<and> ps \<noteq> []")
  case True
  with assms rb_erase_color_wf [of "aug_propagate cb None ps" E cb] show ?thesis
    by (auto simp: rb_erase_augmented_def rb_wf_zip)
next
  case False
  with assms have "rb_wf (rb_zip (paint c r) (aug_propagate cb (rb_elem r) ps))"
    unfolding rb_wf_zip using invh_bheight_0 [of r]
    by (cases r; cases c) (auto intro: cpath_mono)
  with False show ?thesis by (auto simp: rb_erase_augmented_def)
qed

lemma rb_erase_no_right_wf:
  assumes "rb_wf (rb_zip (N c l x E) ps)" and "l \<noteq> E"
  shows "\<exists>t. rb_erase_augmented cb c l x E ps = Some t \<and> rb_wf t"
proof -
  have "rb_wf (rb_zip (paint c l) (aug_propagate cb (rb_elem l) ps))"
    using assms invh_bheight_0 [of l] unfolding rb_wf_zip
    by (cases l; cases c) (auto intro: cpath_mono)
  with assms(2) show ?thesis
    by (cases l) (simp_all add: rb_erase_augmented_def)
qed

lemma rb_erase_two_wf:
  assumes wf: "rb_wf (rb_zip (N c l x r) ps)" and two: "l \<noteq> E" "r \<noteq> E"
  shows "\<exists>t. rb_erase_augmented cb c l x r ps = Some t \<and> rb_wf t"
proof -
  from two obtain rc rl rx rr where r: "r = N rc rl rx rr" by (cases r) auto
  obtain sc sx child2 qs where pos: "rb_leftmost_pos rc rl rx rr [] = (sc, sx, child2, qs)"
    by (cases "rb_leftmost_pos rc rl rx rr []") auto
  let ?old = "qs @ Rc c x l # ps"
  have "rb_wf (rb_zip (N sc E sx child2) ?old)"
    using wf rb_leftmost_pos_zip [OF pos] r by simp
  then have old: "invc (N sc E sx child2)" "invh (N sc E sx child2)" "cpath sc ?old"
      "hpath (bheight (N sc E sx child2)) ?old"
    unfolding rb_wf_zip by simp_all
  define new where "new = fst (snd (rb_erase_augmented_node cb c l x r ps))"
  then have new: "map crumb_shape new = map crumb_shape ?old"
      "rb_erase_augmented_node cb c l x r ps = (paint Black child2, new, child2 = E \<and> sc = Black)"
    using two r pos by (cases l; simp add: Let_def del: aug_propagate.simps)+
  note shape = path_shape_cong [OF new(1)]
  show ?thesis
  proof (cases "child2 = E \<and> sc = Black")
    case True
    have "new \<noteq> []" using new(1) by auto
    then show ?thesis
      using rb_erase_color_wf [of new E cb] True old new(2)
      by (simp add: rb_erase_augmented_def shape)
  next
    case False
    have "rb_wf (rb_zip (paint Black child2) new)"
      unfolding rb_wf_zip using False old invh_bheight_0 [of child2]
      by (cases child2; cases sc) (auto simp: shape intro: cpath_mono)
    with False new(2) show ?thesis by (auto simp: rb_erase_augmented_def)
  qed
qed

lemma rb_erase_augmented_wf:
  "rb_wf (rb_zip (N c l x r) ps) \<Longrightarrow> \<exists>t. rb_erase_augmented cb c l x r ps = Some t \<and> rb_wf t"
  by (cases "l = E"; cases "r = E")
    (auto intro: rb_erase_no_left_wf rb_erase_no_right_wf rb_erase_two_wf)

end
