(* ===== verification/Rbtree_Timeline.thy ===== *)
theory Rbtree_Timeline
  imports Rbtree
begin

text \<open>
  What the augmented red-black tree promises to its users: a sequence sorted by the caller's order, in
  which \<open>rb_add_augmented_cached\<close> inserts after the elements that are not greater, from which
  \<open>rb_erase_augmented_cached\<close> removes one node, whose first element is cached, and whose augmented data
  is the data its callback computes.

  The locale \<open>rb_augmented\<close> states what a set of callbacks has to satisfy: recomputing a node changes
  its augmented data only, and the data of a subtree does not depend on its shape (\<open>calc_rotate\<close>).  Since
  the kernel compares times cyclically, the laws are asked for \<open>valid\<close> elements only.  \<open>rb_ordered\<close> adds
  the order of the insertion.  The fair class interprets both on its \<open>min_deadline\<close> callbacks, the
  trees without augmented data on \<open>dummy_callbacks\<close>.
\<close>

section \<open>Contents and augmented data of trees and paths\<close>

fun raug :: "('a \<Rightarrow> 'v) \<Rightarrow> 'a rbt \<Rightarrow> 'v option" where
  "raug aug E = None"
| "raug aug (N c l x r) = Some (aug x)"

fun rb_aug_ok ::
    "('a \<Rightarrow> 'k) \<Rightarrow> ('a \<Rightarrow> 'v) \<Rightarrow> ('k \<Rightarrow> 'v option \<Rightarrow> 'v option \<Rightarrow> 'v) \<Rightarrow> 'a rbt \<Rightarrow> bool" where
  "rb_aug_ok strip aug calc E \<longleftrightarrow> True"
| "rb_aug_ok strip aug calc (N c l x r) \<longleftrightarrow>
     aug x = calc (strip x) (raug aug l) (raug aug r) \<and>
     rb_aug_ok strip aug calc l \<and> rb_aug_ok strip aug calc r"

fun aug_path ::
    "('a \<Rightarrow> 'k) \<Rightarrow> ('a \<Rightarrow> 'v) \<Rightarrow> ('k \<Rightarrow> 'v option \<Rightarrow> 'v option \<Rightarrow> 'v) \<Rightarrow> 'v option \<Rightarrow> 'a rb_path \<Rightarrow> bool"
where
  "aug_path strip aug calc v [] \<longleftrightarrow> True"
| "aug_path strip aug calc v (Lc c x r # ps) \<longleftrightarrow>
     aug x = calc (strip x) v (raug aug r) \<and> rb_aug_ok strip aug calc r \<and>
     aug_path strip aug calc (Some (aug x)) ps"
| "aug_path strip aug calc v (Rc c x l # ps) \<longleftrightarrow>
     aug x = calc (strip x) (raug aug l) v \<and> rb_aug_ok strip aug calc l \<and>
     aug_path strip aug calc (Some (aug x)) ps"

fun ctx_left :: "'a rb_path \<Rightarrow> 'a list" where
  "ctx_left [] = []"
| "ctx_left (Lc c x r # ps) = ctx_left ps"
| "ctx_left (Rc c x l # ps) = ctx_left ps @ rb_inorder l @ [x]"

fun ctx_right :: "'a rb_path \<Rightarrow> 'a list" where
  "ctx_right [] = []"
| "ctx_right (Lc c x r # ps) = x # rb_inorder r @ ctx_right ps"
| "ctx_right (Rc c x l # ps) = ctx_right ps"

lemma rb_inorder_zip: "rb_inorder (rb_zip t ps) = ctx_left ps @ rb_inorder t @ ctx_right ps"
proof (induction t ps rule: rb_zip.induct)
  case (1 t)
  then show ?case by simp
next
  case (2 t p ps)
  then show ?case by (cases p) auto
qed

lemma ctx_append [simp]:
  "ctx_left (ps @ qs) = ctx_left qs @ ctx_left ps" "ctx_right (ps @ qs) = ctx_right ps @ ctx_right qs"
  by (induction ps rule: ctx_left.induct; simp)+

lemma ctx_left_leftmost:
  "rb_leftmost_pos c l x r ps = (sc, sx, ch, qs) \<Longrightarrow> ctx_left qs = ctx_left ps"
  by (induction c l x r ps rule: rb_leftmost_pos.induct) auto

definition path_end :: "'v option \<Rightarrow> ('a \<Rightarrow> 'v) \<Rightarrow> 'a rb_path \<Rightarrow> 'v option" where
  "path_end v aug ps = (if ps = [] then v else Some (aug (crumb_elem (last ps))))"

lemma aug_path_append:
  "aug_path strip aug calc v (ps @ qs) \<longleftrightarrow>
     aug_path strip aug calc v ps \<and> aug_path strip aug calc (path_end v aug ps) qs"
proof (induction ps arbitrary: v)
  case Nil
  then show ?case by (simp add: path_end_def)
next
  case (Cons p ps)
  then show ?case by (cases p) (auto simp: path_end_def)
qed

lemma raug_rb_elem: "map_option aug (rb_elem t) = raug aug t"
  by (cases t) auto

lemma raug_paint [simp]: "raug aug (paint c t) = raug aug t"
  by (cases t) auto

lemma aug_ok_paint [simp]: "rb_aug_ok strip aug calc (paint c t) = rb_aug_ok strip aug calc t"
  by (cases t) auto

lemma rb_aug_ok_zip:
  "rb_aug_ok strip aug calc (rb_zip t ps) \<longleftrightarrow>
     rb_aug_ok strip aug calc t \<and> aug_path strip aug calc (raug aug t) ps"
proof (induction t ps rule: rb_zip.induct)
  case (1 t)
  then show ?case by simp
next
  case (2 t p ps)
  then show ?case by (cases p) auto
qed

locale rb_augmented =
  fixes cb :: "'a rb_augment_callbacks"
    and strip :: "'a \<Rightarrow> 'k"
    and aug :: "'a \<Rightarrow> 'v"
    and calc :: "'k \<Rightarrow> 'v option \<Rightarrow> 'v option \<Rightarrow> 'v"
    and valid :: "'k \<Rightarrow> bool"
    and valid_aug :: "'v \<Rightarrow> bool"
  assumes compute_strip [simp]: "strip (fst (rb_compute cb x a b)) = strip x"
    and compute_aug [simp]:
      "aug (fst (rb_compute cb x a b)) = calc (strip x) (map_option aug a) (map_option aug b)"
    and compute_same: "snd (rb_compute cb x a b) \<Longrightarrow> aug (fst (rb_compute cb x a b)) = aug x"
    and copy_strip [simp]: "strip (rb_copy cb x y) = strip y"
    and copy_aug [simp]: "aug (rb_copy cb x y) = aug x"
    and calc_closed:
      "valid k \<Longrightarrow> pred_option valid_aug u \<Longrightarrow> pred_option valid_aug v \<Longrightarrow> valid_aug (calc k u v)"
    and calc_rotate:
      "valid j \<Longrightarrow> valid k \<Longrightarrow> pred_option valid_aug u \<Longrightarrow> pred_option valid_aug v
         \<Longrightarrow> pred_option valid_aug w \<Longrightarrow>
       calc j u (Some (calc k v w)) = calc k (Some (calc j u v)) w"
begin

abbreviation ok :: "'a rbt \<Rightarrow> bool" where
  "ok \<equiv> rb_aug_ok strip aug calc"

abbreviation path_ok :: "'v option \<Rightarrow> 'a rb_path \<Rightarrow> bool" where
  "path_ok \<equiv> aug_path strip aug calc"

abbreviation keys :: "'a list \<Rightarrow> 'k list" where
  "keys xs \<equiv> map strip xs"

definition valid_tree :: "'a rbt \<Rightarrow> bool" where
  "valid_tree t \<longleftrightarrow> list_all valid (keys (rb_inorder t))"

lemma valid_tree_simps [simp]:
  "valid_tree E"
  "valid_tree (N c l x r) \<longleftrightarrow> valid_tree l \<and> valid (strip x) \<and> valid_tree r"
  by (auto simp: valid_tree_def)

lemma valid_tree_paint [simp]: "valid_tree (paint c t) = valid_tree t"
  by (cases t) auto

lemma valid_tree_cong: "keys (rb_inorder t) = keys (rb_inorder t') \<Longrightarrow> valid_tree t = valid_tree t'"
  by (simp only: valid_tree_def)

lemma raug_valid: "ok t \<Longrightarrow> valid_tree t \<Longrightarrow> pred_option valid_aug (raug aug t)"
  by (induction t) (auto intro: calc_closed)

lemma ctx_propagate:
  "keys (ctx_left (aug_propagate cb ch ps)) = keys (ctx_left ps) \<and>
   keys (ctx_right (aug_propagate cb ch ps)) = keys (ctx_right ps)"
proof (induction ps arbitrary: ch)
  case Nil
  then show ?case by simp
next
  case (Cons p ps)
  then show ?case by (cases p) (simp_all add: case_prod_unfold)
qed

text \<open>
  What propagation needs of a path: everything but the data of the nearest ancestor agrees with its
  children.
\<close>

fun path_pre :: "'a rb_path \<Rightarrow> bool" where
  "path_pre [] \<longleftrightarrow> True"
| "path_pre (Lc c x r # ps) \<longleftrightarrow> ok r \<and> path_ok (Some (aug x)) ps"
| "path_pre (Rc c x l # ps) \<longleftrightarrow> ok l \<and> path_ok (Some (aug x)) ps"

lemma path_ok_pre: "path_ok v ps \<Longrightarrow> path_pre ps"
  by (cases ps rule: path_pre.cases) auto

lemma path_ok_propagate: "path_pre ps \<Longrightarrow> path_ok (map_option aug ch) (aug_propagate cb ch ps)"
proof (induction ps arbitrary: ch)
  case Nil
  then show ?case by simp
next
  case (Cons p ps)
  show ?case
  proof (cases p)
    case (Lc c x r)
    with Cons.prems compute_same [of x ch "rb_elem r"]
      Cons.IH [OF path_ok_pre, of _ "Some (fst (rb_compute cb x ch (rb_elem r)))"] show ?thesis
      by (auto simp: case_prod_unfold raug_rb_elem)
  next
    case (Rc c x l)
    with Cons.prems compute_same [of x "rb_elem l" ch]
      Cons.IH [OF path_ok_pre, of _ "Some (fst (rb_compute cb x (rb_elem l) ch))"] show ?thesis
      by (auto simp: case_prod_unfold raug_rb_elem)
  qed
qed

text \<open>A rotation keeps the sequence of elements and the augmented data.\<close>

text \<open>
  \<open>same t t'\<close>: \<open>t\<close> holds the elements of \<open>t'\<close> in the same order, and its augmented data is right and the
  same at the root when that of \<open>t'\<close> is.
\<close>

definition same :: "'a rbt \<Rightarrow> 'a rbt \<Rightarrow> bool" where
  "same t t' \<longleftrightarrow> keys (rb_inorder t) = keys (rb_inorder t') \<and>
     (ok t' \<and> valid_tree t' \<longrightarrow> ok t \<and> raug aug t = raug aug t')"

lemma same_refl [simp]: "same t t"
  by (simp add: same_def)

lemma same_trans: "same t u \<Longrightarrow> same u v \<Longrightarrow> same t v"
  using valid_tree_cong [of u v] by (auto simp: same_def)

lemma same_paint [simp]: "same (paint c t) t' = same t t'" "same t (paint c t') = same t t'"
  by (simp_all add: same_def)

lemma same_plug: "same t t' \<Longrightarrow> same (plug t p) (plug t' p)"
  by (cases p) (auto simp: same_def)

lemma same_zip: "same t t' \<Longrightarrow> same (rb_zip t ps) (rb_zip t' ps)"
  by (induction ps arbitrary: t t') (auto intro: same_plug)

lemmas same_rotate =
  same_def aug_rotate_def raug_rb_elem calc_rotate [symmetric] calc_closed raug_valid

lemma same_insert_rotate_l:
  "rb_insert_rotate_l cb gc gx u n p = Some t \<Longrightarrow> same t (N gc (plug n p) gx u)"
  by (cases "(cb, gc, gx, u, n, p)" rule: rb_insert_rotate_l.cases)
    (auto simp: same_rotate rb_insert_case3_l_def)

lemma same_insert_rotate_r:
  "rb_insert_rotate_r cb gc gx u n p = Some t \<Longrightarrow> same t (N gc u gx (plug n p))"
  by (cases "(cb, gc, gx, u, n, p)" rule: rb_insert_rotate_r.cases)
    (auto simp: same_rotate rb_insert_case3_r_def)

lemma same_N: "same l l' \<Longrightarrow> same r r' \<Longrightarrow> same (N c l x r) (N c' l' x r')"
  by (auto simp: same_def)

lemma same_insert: "rb_insert cb n ps = Some t \<Longrightarrow> same t (rb_zip n ps)"
proof (induction cb0\<equiv>cb n ps arbitrary: t rule: rb_insert.induct)
  case (1 n)
  then show ?case by auto
next
  case (2 n p)
  then show ?case by (auto split: if_splits)
next
  case (3 n p gc gx u gs)
  have "same (rb_zip (N Red (paint Black (plug n p)) gx (paint Black u)) gs)
      (rb_zip (N gc (plug n p) gx u) gs)"
    by (intro same_zip same_N) simp_all
  with 3 show ?case
    by (auto split: if_splits intro: same_trans intro!: same_zip dest: same_insert_rotate_l)
next
  case (4 n p gc gx u gs)
  have "same (rb_zip (N Red (paint Black u) gx (paint Black (plug n p))) gs)
      (rb_zip (N gc u gx (plug n p)) gs)"
    by (intro same_zip same_N) simp_all
  with 4 show ?case
    by (auto split: if_splits intro: same_trans intro!: same_zip dest: same_insert_rotate_r)
qed

lemma same_erase_black_l:
  "rb_erase_black_l cb pc n px s = Some (t, cont) \<Longrightarrow> same t (N pc n px s)"
  by (cases "(cb, pc, n, px, s)" rule: rb_erase_black_l.cases)
    (auto simp: rb_erase_black_l.simps same_rotate rb_erase_case4_l_def
      split: if_splits rbt.splits rb_color.splits)

lemma same_erase_black_r:
  "rb_erase_black_r cb pc n px s = Some (t, cont) \<Longrightarrow> same t (N pc s px n)"
  by (cases "(cb, pc, n, px, s)" rule: rb_erase_black_r.cases)
    (auto simp: rb_erase_black_r.simps same_rotate rb_erase_case4_r_def
      split: if_splits rbt.splits rb_color.splits)

lemma same_erase_color: "rb_erase_color cb n ps = Some t \<Longrightarrow> same t (rb_zip n ps)"
proof (induction cb0\<equiv>cb n ps arbitrary: t rule: rb_erase_color_induct)
  case (root n)
  then show ?case by simp
next
  case (left_red n pc px sl sx sr ps)
  let ?rot = "aug_rotate cb px sx n (paint Black sl)"
  from left_red obtain t' cont where t': "rb_erase_black_l cb Red n (fst ?rot) (paint Black sl) = Some (t', cont)"
      "t = rb_zip t' (Lc pc (snd ?rot) sr # ps)"
    by (auto simp: case_prod_unfold split: if_splits)
  have "same (N pc t' (snd ?rot) sr) (N pc (N Red n (fst ?rot) (paint Black sl)) (snd ?rot) sr)"
    using same_erase_black_l [OF t'(1)] by (intro same_N) simp_all
  moreover have "same (N pc (N Red n (fst ?rot) (paint Black sl)) (snd ?rot) sr) (N pc n px (N Red sl sx sr))"
    by (auto simp: same_rotate)
  ultimately show ?case
    using t'(2) by (auto intro: same_zip same_trans)
next
  case (right_red n pc px sl sx sr ps)
  let ?rot = "aug_rotate cb px sx (paint Black sr) n"
  from right_red obtain t' cont where t': "rb_erase_black_r cb Red n (fst ?rot) (paint Black sr) = Some (t', cont)"
      "t = rb_zip t' (Rc pc (snd ?rot) sl # ps)"
    by (auto simp: case_prod_unfold split: if_splits)
  have "same (N pc sl (snd ?rot) t') (N pc sl (snd ?rot) (N Red (paint Black sr) (fst ?rot) n))"
    using same_erase_black_r [OF t'(1)] by (intro same_N) simp_all
  moreover have "same (N pc sl (snd ?rot) (N Red (paint Black sr) (fst ?rot) n)) (N pc (N Red sl sx sr) px n)"
    by (auto simp: same_rotate)
  ultimately show ?case
    using t'(2) by (auto intro: same_zip same_trans)
next
  case (left_nil n pc px ps)
  then show ?case by (simp add: rb_erase_black_l.simps)
next
  case (left_black n pc px sl sx sr ps)
  then obtain t' cont where t': "rb_erase_black_l cb pc n px (N Black sl sx sr) = Some (t', cont)"
    by (auto split: option.splits)
  note s = same_zip [OF same_erase_black_l [OF t'], of ps]
  show ?case
  proof (cases "cont \<and> ps \<noteq> []")
    case True
    with left_black t' have "same t (rb_zip t' ps)" by simp
    with s show ?thesis by (auto intro: same_trans)
  next
    case False
    with left_black.prems t' s show ?thesis by (auto split: if_splits)
  qed
next
  case (right_nil n pc px ps)
  then show ?case by (simp add: rb_erase_black_r.simps)
next
  case (right_black n pc px sl sx sr ps)
  then obtain t' cont where t': "rb_erase_black_r cb pc n px (N Black sl sx sr) = Some (t', cont)"
    by (auto split: option.splits)
  note s = same_zip [OF same_erase_black_r [OF t'], of ps]
  show ?case
  proof (cases "cont \<and> ps \<noteq> []")
    case True
    with right_black t' have "same t (rb_zip t' ps)" by simp
    with s show ?thesis by (auto intro: same_trans)
  next
    case False
    with right_black.prems t' s show ?thesis by (auto split: if_splits)
  qed
qed

lemma erase_node_one:
  assumes one: "l = E \<or> r = E" and res: "rb_erase_augmented_node cb c l x r ps = (t, qs, reb)"
  shows "keys (rb_inorder (rb_zip t qs)) = keys (ctx_left ps @ rb_inorder l @ rb_inorder r @ ctx_right ps) \<and>
    (ok (rb_zip (N c l x r) ps) \<longrightarrow> ok (rb_zip t qs))"
proof -
  let ?ch = "if l = E then r else l"
  have tq: "t = paint c ?ch" "qs = aug_propagate cb (rb_elem ?ch) ps"
    using one res by (cases l; cases r; simp)+
  have "ok (rb_zip t qs)" if "ok (rb_zip (N c l x r) ps)"
  proof -
    have "path_ok (Some (aug x)) ps" "ok ?ch"
      using that unfolding rb_aug_ok_zip rb_aug_ok.simps raug.simps by auto
    then show ?thesis
      unfolding tq rb_aug_ok_zip using path_ok_propagate [OF path_ok_pre, of _ ps "rb_elem ?ch"]
      by (simp add: raug_rb_elem)
  qed
  then show ?thesis
    using one by (auto simp: tq rb_inorder_zip ctx_propagate)
qed

lemma erase_node_two:
  assumes two: "l \<noteq> E" "r \<noteq> E" and res: "rb_erase_augmented_node cb c l x r ps = (t, new, reb)"
  shows "keys (rb_inorder (rb_zip t new)) = keys (ctx_left ps @ rb_inorder l @ rb_inorder r @ ctx_right ps) \<and>
    (ok (rb_zip (N c l x r) ps) \<longrightarrow> ok (rb_zip t new))"
proof -
  from two obtain rc rl rx rr where r: "r = N rc rl rx rr" by (cases r) auto
  obtain sc sx child2 qs where pos: "rb_leftmost_pos rc rl rx rr [] = (sc, sx, child2, qs)"
    by (cases "rb_leftmost_pos rc rl rx rr []") auto
  let ?qs = "aug_propagate cb (rb_elem child2) qs"
  let ?ch = "if ?qs = [] then rb_elem child2 else Some (crumb_elem (last ?qs))"
  let ?up = "Rc c (rb_copy cb x sx) l # ps"
  have new: "t = paint Black child2" "new = ?qs @ aug_propagate cb ?ch ?up"
    using res two r pos by (cases l; simp add: Let_def del: aug_propagate.simps)+
  have zip_r: "rb_zip (N sc E sx child2) qs = r"
    using rb_leftmost_pos_zip [OF pos] r by simp
  have "rb_inorder r = sx # rb_inorder child2 @ ctx_right qs" "ctx_left qs = []"
    using ctx_left_leftmost [OF pos] by (simp_all flip: zip_r add: rb_inorder_zip)
  then have "keys (rb_inorder (rb_zip t new)) = keys (ctx_left ps @ rb_inorder l @ rb_inorder r @ ctx_right ps)"
    by (simp add: rb_inorder_zip new ctx_propagate del: aug_propagate.simps rb_zip_append)
  moreover have "ok (rb_zip t new)" if "ok (rb_zip (N c l x r) ps)"
  proof -
    from that have "ok r" "ok l" "path_ok (Some (aug x)) ps"
      unfolding rb_aug_ok_zip rb_aug_ok.simps raug.simps by blast+
    then have "ok child2" "path_pre qs" "path_pre ?up"
      using path_ok_pre by (auto simp flip: zip_r simp: rb_aug_ok_zip)
    then have "path_ok (raug aug child2) ?qs" "path_ok (map_option aug ?ch) (aug_propagate cb ?ch ?up)"
      using path_ok_propagate [of qs "rb_elem child2"] path_ok_propagate [of ?up ?ch]
      by (simp_all add: raug_rb_elem del: aug_propagate.simps)
    moreover have "map_option aug ?ch = path_end (raug aug child2) aug ?qs"
      by (simp add: path_end_def raug_rb_elem)
    ultimately show ?thesis
      using \<open>ok child2\<close> by (simp add: new rb_aug_ok_zip aug_path_append del: rb_zip_append aug_propagate.simps)
  qed
  ultimately show ?thesis by blast
qed

lemma erase_node:
  assumes "rb_erase_augmented_node cb c l x r ps = (t, qs, reb)"
  shows "keys (rb_inorder (rb_zip t qs)) = keys (ctx_left ps @ rb_inorder l @ rb_inorder r @ ctx_right ps)"
    and "ok (rb_zip (N c l x r) ps) \<Longrightarrow> ok (rb_zip t qs)"
  using erase_node_one [OF _ assms] erase_node_two [OF _ _ assms] by (cases "l = E \<or> r = E"; simp)+

lemma erase_augmented:
  assumes res: "rb_erase_augmented cb c l x r ps = Some t"
  shows "keys (rb_inorder t) = keys (ctx_left ps @ rb_inorder l @ rb_inorder r @ ctx_right ps)"
    and "ok (rb_zip (N c l x r) ps) \<Longrightarrow> valid_tree (rb_zip (N c l x r) ps) \<Longrightarrow> ok t"
proof -
  obtain u qs reb where u: "rb_erase_augmented_node cb c l x r ps = (u, qs, reb)"
    by (cases "rb_erase_augmented_node cb c l x r ps") auto
  have same: "same t (rb_zip u qs)"
    using res u by (auto simp: rb_erase_augmented_def dest: same_erase_color split: if_splits)
  then show "keys (rb_inorder t) = keys (ctx_left ps @ rb_inorder l @ rb_inorder r @ ctx_right ps)"
    using erase_node(1) [OF u] by (simp add: same_def)
  assume "ok (rb_zip (N c l x r) ps)" and valid: "valid_tree (rb_zip (N c l x r) ps)"
  moreover have "valid_tree (rb_zip u qs)"
    using valid erase_node(1) [OF u] by (simp add: valid_tree_def rb_inorder_zip)
  ultimately show "ok t"
    using same erase_node(2) [OF u] by (simp add: same_def)
qed

end

section \<open>Positions\<close>

lemma rb_descend_zip:
  "rb_descend lt x t ps lm = (qs, b) \<Longrightarrow> rb_zip E qs = rb_zip t ps"
  by (induction lt x t ps lm rule: rb_descend.induct) (auto split: if_splits)

lemma rb_locate_Some:
  "rb_locate node_id i t ps = Some (c, l, x, r, qs) \<Longrightarrow> rb_zip (N c l x r) qs = rb_zip t ps \<and> node_id x = i"
  by (induction node_id i t ps rule: rb_locate.induct) (auto split: if_splits option.splits)

lemma rb_locate_None:
  "rb_locate node_id i t ps = None \<longleftrightarrow> i \<notin> node_id ` set (rb_inorder t)"
  by (induction node_id i t ps rule: rb_locate.induct) (auto split: option.splits)

lemma rb_inorder_Nil [simp]: "rb_inorder t = [] \<longleftrightarrow> t = E"
  by (cases t) auto

lemma rb_first_inorder: "rb_first t = list_first (rb_inorder t)"
  by (induction t rule: rb_first.induct) (auto simp: list_first_append)

lemma rb_next_up_ctx: "rb_next_up ps = list_first (ctx_right ps)"
  by (induction ps rule: rb_next_up.induct) auto

lemma rb_next_inorder: "rb_next r ps = list_first (rb_inorder r @ ctx_right ps)"
  by (simp add: rb_next_def rb_first_inorder rb_next_up_ctx list_first_append)

section \<open>The interface of the users\<close>

text \<open>The state of a cached tree that all operations keep.\<close>

definition rb_cached_ok ::
    "('a \<Rightarrow> 'k) \<Rightarrow> ('a \<Rightarrow> 'v) \<Rightarrow> ('k \<Rightarrow> 'v option \<Rightarrow> 'v option \<Rightarrow> 'v) \<Rightarrow> ('k \<Rightarrow> bool) \<Rightarrow> ('k \<Rightarrow> int)
       \<Rightarrow> ('k \<Rightarrow> nat) \<Rightarrow> 'a rb_root_cached \<Rightarrow> bool" where
  "rb_cached_ok strip aug calc valid okey ident tree \<longleftrightarrow>
     (let ks = map strip (rb_inorder (rb_root tree)) in
        rb_wf (rb_root tree) \<and> rb_aug_ok strip aug calc (rb_root tree) \<and>
        list_all valid ks \<and> sorted (map okey ks) \<and> distinct (map ident ks) \<and>
        rb_leftmost tree = list_first (map ident ks))"

definition ins_after :: "('k \<Rightarrow> int) \<Rightarrow> 'k \<Rightarrow> 'k list \<Rightarrow> 'k list" where
  "ins_after okey k ks =
     takeWhile (\<lambda>j. okey j \<le> okey k) ks @ k # dropWhile (\<lambda>j. okey j \<le> okey k) ks"

lemma ins_after_eq:
  "\<forall>j \<in> set as. okey j \<le> okey k \<Longrightarrow> \<forall>j \<in> set bs. okey k < okey j \<Longrightarrow>
     ins_after okey k (as @ bs) = as @ k # bs"
  by (cases bs) (auto simp: ins_after_def takeWhile_append dropWhile_append)

locale rb_ordered = rb_augmented cb strip aug calc valid valid_aug
  for cb :: "'a rb_augment_callbacks" and strip :: "'a \<Rightarrow> 'k" and aug :: "'a \<Rightarrow> 'v"
    and calc valid valid_aug +
  fixes lt :: "'a \<Rightarrow> 'a \<Rightarrow> bool"
    and node_id :: "'a \<Rightarrow> nat"
    and okey :: "'k \<Rightarrow> int"
    and ident :: "'k \<Rightarrow> nat"
  assumes lt_okey: "valid (strip x) \<Longrightarrow> valid (strip y) \<Longrightarrow> lt x y \<longleftrightarrow> okey (strip x) < okey (strip y)"
    and node_ident: "node_id x = ident (strip x)"
begin

abbreviation cached_ok :: "'a rb_root_cached \<Rightarrow> bool" where
  "cached_ok \<equiv> rb_cached_ok strip aug calc valid okey ident"

abbreviation tkeys :: "'a rb_root_cached \<Rightarrow> 'k list" where
  "tkeys tree \<equiv> keys (rb_inorder (rb_root tree))"

lemma cached_okI:
  assumes "keys (rb_inorder t) = ks" "rb_wf t" "ok t" "list_all valid ks" "sorted (map okey ks)"
    "distinct (map ident ks)" "lm = list_first (map ident ks)"
  shows "cached_ok \<lparr>rb_root = t, rb_leftmost = lm\<rparr>"
  using assms unfolding rb_cached_ok_def Let_def by simp

lemma cached_okD:
  assumes "cached_ok tree"
  shows "rb_wf (rb_root tree)" "ok (rb_root tree)" "valid_tree (rb_root tree)" "list_all valid (tkeys tree)"
    "sorted (map okey (tkeys tree))" "distinct (map ident (tkeys tree))"
    "rb_leftmost tree = list_first (map ident (tkeys tree))"
  using assms unfolding rb_cached_ok_def Let_def valid_tree_def by blast+

lemma descend_split:
  assumes "rb_descend lt x t ps lm = (qs, b)" "valid (strip x)" "valid_tree t"
    and "sorted (map okey (keys (rb_inorder t)))"
  shows "\<exists>as bs. rb_inorder t = as @ bs \<and> ctx_left qs = ctx_left ps @ as \<and> ctx_right qs = bs @ ctx_right ps \<and>
    (\<forall>y \<in> set as. okey (strip y) \<le> okey (strip x)) \<and> (\<forall>y \<in> set bs. okey (strip x) < okey (strip y)) \<and>
    (b \<longleftrightarrow> lm \<and> as = [])"
  using assms
proof (induction t arbitrary: ps lm)
  case E
  then show ?case by simp
next
  case (N c l y r)
  show ?case
  proof (cases "lt x y")
    case True
    then have xy: "okey (strip x) < okey (strip y)"
      using N.prems lt_okey by simp
    from N.IH(1) [of "Lc c y r # ps" lm] N.prems True obtain as bs where ab:
      "rb_inorder l = as @ bs" "ctx_left qs = ctx_left ps @ as" "ctx_right qs = bs @ y # rb_inorder r @ ctx_right ps"
      "\<forall>y \<in> set as. okey (strip y) \<le> okey (strip x)" "\<forall>y \<in> set bs. okey (strip x) < okey (strip y)"
      "b \<longleftrightarrow> lm \<and> as = []"
      by (auto simp: sorted_append)
    have "\<forall>z \<in> set (bs @ y # rb_inorder r). okey (strip x) < okey (strip z)"
      using ab(5) xy N.prems(4) by (auto simp: sorted_append)
    with ab show ?thesis
      by (intro exI [of _ as] exI [of _ "bs @ y # rb_inorder r"]) simp
  next
    case False
    then have xy: "okey (strip y) \<le> okey (strip x)"
      using N.prems lt_okey [of x y] by simp
    from N.IH(2) [of "Rc c y l # ps" False] N.prems False obtain as bs where ab:
      "rb_inorder r = as @ bs" "ctx_left qs = ctx_left ps @ rb_inorder l @ y # as" "ctx_right qs = bs @ ctx_right ps"
      "\<forall>y \<in> set as. okey (strip y) \<le> okey (strip x)" "\<forall>y \<in> set bs. okey (strip x) < okey (strip y)" "\<not> b"
      by (auto simp: sorted_append)
    have "\<forall>z \<in> set (rb_inorder l @ y # as). okey (strip z) \<le> okey (strip x)"
      using ab(4) xy N.prems(4) by (force simp: sorted_append)
    with ab show ?thesis
      by (intro exI [of _ "rb_inorder l @ y # as"] exI [of _ bs]) simp
  qed
qed

lemma add_cached:
  assumes inv: "cached_ok tree" and x: "valid (strip x)" "aug x = calc (strip x) None None"
    and fresh: "ident (strip x) \<notin> set (map ident (tkeys tree))"
  shows "\<exists>tree'. rb_add_augmented_cached cb node_id lt x tree = Some tree' \<and> cached_ok tree' \<and>
    tkeys tree' = ins_after okey (strip x) (tkeys tree)"
proof -
  let ?t = "rb_root tree"
  obtain qs lm where d: "rb_descend lt x ?t [] True = (qs, lm)"
    by (cases "rb_descend lt x ?t [] True") auto
  note t = cached_okD [OF inv]
  from descend_split [OF d x(1) t(3) t(5)] obtain as bs where ab: "rb_inorder ?t = as @ bs"
      "ctx_left qs = as" "ctx_right qs = bs"
      "\<forall>y \<in> set as. okey (strip y) \<le> okey (strip x)" "\<forall>y \<in> set bs. okey (strip x) < okey (strip y)"
      "lm \<longleftrightarrow> as = []"
    by auto
  let ?qs = "aug_propagate cb (Some x) qs" and ?ks = "keys as @ strip x # keys bs"
  have old: "tkeys tree = keys as @ keys bs" by (simp add: ab)
  have "rb_zip E qs = ?t" using rb_descend_zip [OF d] by simp
  then have "rb_wf (rb_zip E qs)" "path_ok None qs"
    using t(1,2) rb_aug_ok_zip [of strip aug calc E qs] by simp_all
  then obtain t' where t': "rb_insert cb (N Red E x E) ?qs = Some t'" "rb_wf t'"
    using rb_insert_wf [of "N Red E x E" ?qs cb] by (auto simp: rb_wf_zip)
  have up: "path_ok (Some (aug x)) ?qs"
    using path_ok_propagate [OF path_ok_pre, OF \<open>path_ok None qs\<close>, of "Some x"] by simp
  have ks: "keys (rb_inorder (rb_zip (N Red E x E) ?qs)) = ?ks"
    by (simp add: rb_inorder_zip ctx_propagate ab)
  then have ks': "keys (rb_inorder t') = ?ks"
    using same_insert [OF t'(1)] by (simp add: same_def)
  have valid: "list_all valid ?ks"
    using t(4) x(1) unfolding old by simp
  then have "ok t'"
    using same_insert [OF t'(1)] up x(2) unfolding same_def rb_aug_ok_zip valid_tree_def ks by simp
  have "cached_ok \<lparr>rb_root = t', rb_leftmost = (if lm then Some (node_id x) else rb_leftmost tree)\<rparr>"
  proof (rule cached_okI [OF ks' t'(2) \<open>ok t'\<close> valid])
    show "sorted (map okey ?ks)" using t(5) ab unfolding old by (fastforce simp: sorted_append)
    show "distinct (map ident ?ks)" using t(6) fresh unfolding old by auto
    show "(if lm then Some (node_id x) else rb_leftmost tree) = list_first (map ident ?ks)"
      using t(7) ab(6) unfolding old by (auto simp: list_first_append node_ident)
  qed
  moreover have "ins_after okey (strip x) (tkeys tree) = ?ks"
    unfolding old using ab by (intro ins_after_eq) auto
  ultimately show ?thesis
    using d t'(1) ks' by (simp add: rb_add_augmented_cached_def)
qed

lemma erase_cached:
  assumes inv: "cached_ok tree" and i: "i \<in> set (map ident (tkeys tree))"
  shows "\<exists>tree'. rb_erase_augmented_cached cb node_id i tree = Some tree' \<and> cached_ok tree' \<and>
    tkeys tree' = filter (\<lambda>k. ident k \<noteq> i) (tkeys tree)"
proof -
  note t = cached_okD [OF inv]
  obtain c l x r ps where loc: "rb_locate node_id i (rb_root tree) [] = Some (c, l, x, r, ps)"
    using i rb_locate_None [of node_id i "rb_root tree" "[]"]
    by (cases "rb_locate node_id i (rb_root tree) []") (auto simp: node_ident image_image)
  then have zip: "rb_zip (N c l x r) ps = rb_root tree" and xi: "ident (strip x) = i"
    using rb_locate_Some [OF loc] by (simp_all add: node_ident)
  obtain t' where t': "rb_erase_augmented cb c l x r ps = Some t'" "rb_wf t'"
    using rb_erase_augmented_wf [of c l x r ps cb] t(1) zip by auto
  let ?a = "keys (ctx_left ps @ rb_inorder l)" and ?b = "keys (rb_inorder r @ ctx_right ps)"
  have old: "tkeys tree = ?a @ strip x # ?b"
    by (simp add: rb_inorder_zip flip: zip)
  have ks: "keys (rb_inorder t') = ?a @ ?b"
    using erase_augmented(1) [OF t'(1)] by simp
  have "ok t'"
    using erase_augmented(2) [OF t'(1)] t(2,3) zip by simp
  have flt: "filter (\<lambda>k. ident k \<noteq> i) (tkeys tree) = ?a @ ?b"
    using t(6) unfolding old xi [symmetric] by (rule filter_remove1_key)
  let ?lm = "if rb_leftmost tree = Some i then map_option node_id (rb_next r ps) else rb_leftmost tree"
  have "cached_ok \<lparr>rb_root = t', rb_leftmost = ?lm\<rparr>"
  proof (rule cached_okI [OF ks t'(2) \<open>ok t'\<close>])
    show "list_all valid (?a @ ?b)" using t(4) unfolding old by simp
    show "sorted (map okey (?a @ ?b))" using t(5) unfolding old by (auto simp: sorted_append)
    show "distinct (map ident (?a @ ?b))" using t(6) unfolding old by auto
    show "?lm = list_first (map ident (?a @ ?b))"
    proof (cases ?a)
      case Nil
      then have "?lm = map_option (\<lambda>x. ident (strip x)) (rb_next r ps)"
        using t(7) xi unfolding old by (simp add: node_ident [abs_def])
      with Nil show ?thesis by (simp add: rb_next_inorder comp_def flip: list_first_map)
    next
      case (Cons k ks)
      then have "rb_leftmost tree = Some (ident k)" "ident k \<noteq> i"
        using t(6,7) xi unfolding old by auto
      with Cons show ?thesis by simp
    qed
  qed
  with loc t'(1) ks flt show ?thesis
    by (simp add: rb_erase_augmented_cached_def)
qed

lemma first_cached:
  assumes inv: "cached_ok tree"
  shows "rb_first_cached node_id tree = list_first (rb_inorder (rb_root tree))"
proof (cases "rb_inorder (rb_root tree)")
  case Nil
  then show ?thesis using cached_okD(7) [OF inv] by (simp add: rb_first_cached_def)
next
  case (Cons x xs)
  let ?i = "ident (strip x)"
  have lm: "rb_leftmost tree = Some ?i"
    using cached_okD(7) [OF inv] Cons by simp
  obtain c l y r ps where loc: "rb_locate node_id ?i (rb_root tree) [] = Some (c, l, y, r, ps)"
    using Cons rb_locate_None [of node_id ?i "rb_root tree" "[]"]
    by (cases "rb_locate node_id ?i (rb_root tree) []") (auto simp: node_ident)
  from rb_locate_Some [OF loc] have y: "y \<in> set (rb_inorder (rb_root tree))" "ident (strip y) = ?i"
    by (auto simp: node_ident rb_inorder_zip dest!: sym [of _ "rb_root tree"])
  have "y = x"
    using y cached_okD(6) [OF inv] Cons by (auto simp: image_iff) 
  with lm loc Cons show ?thesis by (simp add: rb_first_cached_def)
qed

end

text \<open>The trees without augmented data (\<open>rb_add_cached\<close>, \<open>rb_erase_cached\<close>) satisfy the interface.\<close>

interpretation rb_plain: rb_augmented dummy_callbacks "\<lambda>x. x" "\<lambda>_. ()" "\<lambda>_ _ _. ()" "\<lambda>_. True" "\<lambda>_. True"
  by unfold_locales (simp_all add: dummy_callbacks_def)

declare rb_plain.compute_aug [simp del] rb_plain.copy_aug [simp del]

end
