(* ===== verification/Rbtree_Update.thy ===== *)
theory Rbtree_Update
  imports Rbtree_Timeline
begin

text \<open>
  Changing a node where it stands.  A user of the tree writes to the object of a node it points to; when the write
  concerns the augmented data, \<open>RBNAME_propagate\<close> (include/linux/rbtree_augmented.h) is called on the node afterwards.
\<close>

definition rb_write_node :: "('a \<Rightarrow> nat) \<Rightarrow> nat \<Rightarrow> ('a \<Rightarrow> 'a) \<Rightarrow> 'a rb_root_cached \<Rightarrow> 'a rb_root_cached" where
  "rb_write_node node_id i f tree =
     (case rb_locate node_id i (rb_root tree) [] of
        None \<Rightarrow> tree
      | Some (c, l, x, r, ps) \<Rightarrow> tree\<lparr>rb_root := rb_zip (N c l (f x) r) ps\<rparr>)"

text \<open>The write \<open>f\<close> followed by \<open>RBNAME_propagate(rb, NULL)\<close>, whose loop starts at the node itself.\<close>

definition rb_update_node ::
    "'a rb_augment_callbacks \<Rightarrow> ('a \<Rightarrow> nat) \<Rightarrow> nat \<Rightarrow> ('a \<Rightarrow> 'a) \<Rightarrow> 'a rb_root_cached \<Rightarrow> 'a rb_root_cached" where
  "rb_update_node cb node_id i f tree =
     (case rb_locate node_id i (rb_root tree) [] of
        None \<Rightarrow> tree
      | Some (c, l, x, r, ps) \<Rightarrow>
          (case rb_compute cb (f x) (rb_elem l) (rb_elem r) of
             (y, unchanged) \<Rightarrow>
               tree\<lparr>rb_root := rb_zip (N c l y r) (if unchanged then ps else aug_propagate cb (Some y) ps)\<rparr>))"

lemma cpath_hpath_propagate [simp]:
  "cpath c0 (aug_propagate cb ch ps) = cpath c0 ps" "hpath n (aug_propagate cb ch ps) = hpath n ps"
proof (induction ps arbitrary: c0 n ch)
  case (Cons p ps)
  { case 1 show ?case by (cases p) (auto simp: split_def Cons.IH) }
  { case 2 show ?case by (cases p) (auto simp: split_def Cons.IH) }
qed simp_all

context rb_ordered
begin

lemma cached_replace:
  assumes inv: "cached_ok tree" and old: "tkeys tree = as @ k # bs"
    and new: "keys (rb_inorder t) = as @ k' # bs" "rb_wf t" "ok t"
    and k': "ident k' = ident k" "okey k' = okey k" "valid k'"
  shows "cached_ok (tree\<lparr>rb_root := t\<rparr>)"
proof -
  note t = cached_okD [OF inv, unfolded old]
  have "cached_ok \<lparr>rb_root = t, rb_leftmost = rb_leftmost tree\<rparr>"
    using t k' by (intro cached_okI [OF new(1) new(2,3)]) (auto simp: list_first_append)
  then show ?thesis by (cases tree) simp
qed

lemma locate_cached:
  assumes "i \<in> set (map ident (tkeys tree))"
  obtains c l x r ps where "rb_locate node_id i (rb_root tree) [] = Some (c, l, x, r, ps)"
    "rb_zip (N c l x r) ps = rb_root tree" "ident (strip x) = i" "x \<in> set (rb_inorder (rb_root tree))"
proof -
  obtain c l x r ps where loc: "rb_locate node_id i (rb_root tree) [] = Some (c, l, x, r, ps)"
    using assms rb_locate_None [of node_id i "rb_root tree" "[]"]
    by (cases "rb_locate node_id i (rb_root tree) []") (auto simp: node_ident image_image)
  have zip: "rb_zip (N c l x r) ps = rb_root tree" and "ident (strip x) = i"
    using rb_locate_Some [OF loc] by (simp_all add: node_ident)
  moreover have "x \<in> set (rb_inorder (rb_root tree))" unfolding zip [symmetric] rb_inorder_zip by simp
  ultimately show thesis by (rule that [OF loc])
qed

lemma update_cached:
  assumes inv: "cached_ok tree" and i: "i \<in> set (map ident (tkeys tree))"
    and f: "\<And>x. x \<in> set (rb_inorder (rb_root tree)) \<Longrightarrow> ident (strip x) = i \<Longrightarrow>
      ident (strip (f x)) = i \<and> okey (strip (f x)) = okey (strip x) \<and> valid (strip (f x)) \<and> aug (f x) = aug x"
  shows "\<exists>as x bs. x \<in> set (rb_inorder (rb_root tree)) \<and> tkeys tree = as @ strip x # bs \<and> ident (strip x) = i \<and>
    cached_ok (rb_update_node cb node_id i f tree) \<and> tkeys (rb_update_node cb node_id i f tree) = as @ strip (f x) # bs"
proof -
  note t = cached_okD [OF inv]
  obtain c l x r ps where loc: "rb_locate node_id i (rb_root tree) [] = Some (c, l, x, r, ps)"
    and zip: "rb_zip (N c l x r) ps = rb_root tree" and x: "ident (strip x) = i" "x \<in> set (rb_inorder (rb_root tree))"
    using locate_cached [OF i] .
  note fx = f [OF x(2,1)]
  let ?as = "keys (ctx_left ps @ rb_inorder l)" and ?bs = "keys (rb_inorder r @ ctx_right ps)"
  obtain y u where y: "rb_compute cb (f x) (rb_elem l) (rb_elem r) = (y, u)" by fastforce
  have ys: "strip y = strip (f x)" "aug y = calc (strip (f x)) (raug aug l) (raug aug r)" "u \<Longrightarrow> aug y = aug x"
    using compute_strip [of "f x" "rb_elem l" "rb_elem r"] compute_aug [of "f x" "rb_elem l" "rb_elem r"]
      compute_same [of "f x" "rb_elem l" "rb_elem r"] fx by (simp_all add: y raug_rb_elem)
  let ?ps = "if u then ps else aug_propagate cb (Some y) ps"
  have old: "tkeys tree = ?as @ strip x # ?bs" by (simp add: rb_inorder_zip flip: zip)
  have new: "keys (rb_inorder (rb_zip (N c l y r) ?ps)) = ?as @ strip (f x) # ?bs"
    using ys by (simp add: rb_inorder_zip ctx_propagate)
  have wf: "rb_wf (rb_zip (N c l y r) ?ps)" using t(1) by (simp add: rb_wf_zip flip: zip)
  have o: "ok l" "ok r" "path_ok (Some (aug x)) ps"
    using t(2) unfolding zip [symmetric] rb_aug_ok_zip rb_aug_ok.simps raug.simps by blast+
  have "path_ok (Some (aug y)) ?ps"
    using o(3) ys(3) path_ok_propagate [OF path_ok_pre [OF o(3)], of "Some y"] by auto
  then have ok: "ok (rb_zip (N c l y r) ?ps)" using o ys by (simp add: rb_aug_ok_zip)
  have upd: "rb_update_node cb node_id i f tree = tree\<lparr>rb_root := rb_zip (N c l y r) ?ps\<rparr>"
    by (simp add: rb_update_node_def loc y)
  have "cached_ok (tree\<lparr>rb_root := rb_zip (N c l y r) ?ps\<rparr>)"
    using fx x(1) by (intro cached_replace [OF inv old new wf ok]) simp_all
  then show ?thesis using x old new unfolding upd by (intro exI [of _ ?as] exI [of _ x] exI [of _ ?bs]) simp
qed

text \<open>A write that leaves alone what the augmented data is computed from needs no propagation.\<close>

lemma write_cached:
  assumes inv: "cached_ok tree" and i: "i \<in> set (map ident (tkeys tree))"
    and f: "\<And>x. x \<in> set (rb_inorder (rb_root tree)) \<Longrightarrow> ident (strip x) = i \<Longrightarrow>
      ident (strip (f x)) = i \<and> okey (strip (f x)) = okey (strip x) \<and> valid (strip (f x)) \<and> aug (f x) = aug x \<and>
      (\<forall>u v. calc (strip (f x)) u v = calc (strip x) u v)"
  shows "\<exists>as x bs. x \<in> set (rb_inorder (rb_root tree)) \<and> tkeys tree = as @ strip x # bs \<and> ident (strip x) = i \<and>
    cached_ok (rb_write_node node_id i f tree) \<and> tkeys (rb_write_node node_id i f tree) = as @ strip (f x) # bs"
proof -
  note t = cached_okD [OF inv]
  obtain c l x r ps where loc: "rb_locate node_id i (rb_root tree) [] = Some (c, l, x, r, ps)"
    and zip: "rb_zip (N c l x r) ps = rb_root tree" and x: "ident (strip x) = i" "x \<in> set (rb_inorder (rb_root tree))"
    using locate_cached [OF i] .
  note fx = f [OF x(2,1)]
  let ?as = "keys (ctx_left ps @ rb_inorder l)" and ?bs = "keys (rb_inorder r @ ctx_right ps)"
  have old: "tkeys tree = ?as @ strip x # ?bs" by (simp add: rb_inorder_zip flip: zip)
  have new: "keys (rb_inorder (rb_zip (N c l (f x) r) ps)) = ?as @ strip (f x) # ?bs" by (simp add: rb_inorder_zip)
  have wf: "rb_wf (rb_zip (N c l (f x) r) ps)" using t(1) by (simp add: rb_wf_zip flip: zip)
  have o: "aug x = calc (strip x) (raug aug l) (raug aug r)" "ok l" "ok r" "path_ok (Some (aug x)) ps"
    using t(2) unfolding zip [symmetric] rb_aug_ok_zip rb_aug_ok.simps raug.simps by blast+
  have ok: "ok (rb_zip (N c l (f x) r) ps)" unfolding rb_aug_ok_zip using o fx by auto
  have upd: "rb_write_node node_id i f tree = tree\<lparr>rb_root := rb_zip (N c l (f x) r) ps\<rparr>"
    by (simp add: rb_write_node_def loc)
  have "cached_ok (tree\<lparr>rb_root := rb_zip (N c l (f x) r) ps\<rparr>)"
    using fx x(1) by (intro cached_replace [OF inv old new wf ok]) simp_all
  then show ?thesis using x old new unfolding upd by (intro exI [of _ ?as] exI [of _ x] exI [of _ ?bs]) simp
qed

end

end
