(* ===== verification/Sched_Types.thy ===== *)
theory Sched_Types
  imports Rbtree_Update
begin

text \<open>
  The data the fair class and the load tracking share (include/linux/sched.h, kernel/sched/sched.h).

  A scheduling entity is a value with an identity (\<open>se_id\<close>, its address).  The current entity of a
  \<open>cfs_rq\<close> is not kept in the tree (set_next_entity takes it out, put_prev_entity puts it back), so the
  entities of a \<open>cfs_rq\<close> are those of \<open>tasks_timeline\<close> and \<open>cfs_curr\<close>, and no entity is held twice.  Flags
  that the C code stores in an integer and only tests for zero are \<^typ>\<open>bool\<close>.
\<close>

record load_weight =
  weight :: int
  inv_weight :: int

record util_est =
  ue_enqueued :: int
  ue_ewma :: int

record sched_avg =
  last_update_time :: int
  load_sum :: int
  runnable_sum :: int
  util_sum :: int
  period_contrib :: int
  load_avg :: int
  runnable_avg :: int
  util_avg :: int
  util_est :: util_est

record sched_entity =
  se_id :: nat
  se_load :: load_weight
  se_deadline :: int
  se_min_deadline :: int
  se_on_rq :: bool
  se_exec_start :: int
  se_sum_exec_runtime :: int
  se_prev_sum_exec_runtime :: int
  se_vruntime :: int
  se_vlag :: int
  se_slice :: int
  se_is_task :: bool            \<comment> \<open>\<open>entity_is_task\<close>: \<open>my_q\<close> is NULL\<close>
  se_is_idle :: bool            \<comment> \<open>the task has SCHED_IDLE policy, or the group is idle\<close>
  se_runnable_weight :: int
  se_avg :: sched_avg

record cfs_rq =
  cfs_load :: load_weight
  cfs_nr_running :: int
  cfs_h_nr_running :: int
  cfs_idle_nr_running :: int
  cfs_idle_h_nr_running :: int
  cfs_avg_vruntime :: int
  cfs_avg_load :: int
  cfs_min_vruntime :: int
  tasks_timeline :: "sched_entity rb_root_cached"
  cfs_curr :: "sched_entity option"
  cfs_next :: "nat option"
  cfs_avg :: sched_avg
  removed_nr :: int             \<comment> \<open>the fields of \<open>removed\<close>\<close>
  removed_load_avg :: int
  removed_util_avg :: int
  removed_runnable_avg :: int
  tg_load_avg_contrib :: int
  propagate :: bool
  prop_runnable_sum :: int
  runtime_enabled :: bool
  runtime_remaining :: int
  throttled_pelt_idle :: int
  throttled_clock :: int
  throttled_clock_pelt :: int
  throttled_clock_pelt_time :: int
  throttled_clock_self :: int
  throttled_clock_self_time :: int
  cfs_throttled :: bool
  throttle_count :: int

definition se_weight :: "sched_entity \<Rightarrow> int" where
  "se_weight se = scale_load_down (weight (se_load se))"

definition se_runnable :: "sched_entity \<Rightarrow> int" where
  "se_runnable se =
     (if se_is_task se then (if se_on_rq se then 1 else 0) else se_runnable_weight se)"

definition NICE_0_LOAD :: int where
  "NICE_0_LOAD = 2 ^ 20"

lemma se_weight_nonneg [simp]: "0 \<le> se_weight se"
  by (simp add: se_weight_def)

end
