(* ===== verification/Pelt.thy ===== *)
theory Pelt
  imports Sched_Types
begin

text \<open>
  Per-entity load tracking (kernel/sched/pelt.c, pelt.h): the geometric series of the time an entity
  was runnable or running, kept in fixed point, and the clock it runs on.
\<close>

section \<open>The series\<close>

definition runnable_avg_yN_inv :: "int list" where
  "runnable_avg_yN_inv =
    [0xffffffff, 0xfa83b2da, 0xf5257d14, 0xefe4b99a, 0xeac0c6e6, 0xe5b906e6,
     0xe0ccdeeb, 0xdbfbb796, 0xd744fcc9, 0xd2a81d91, 0xce248c14, 0xc9b9bd85,
     0xc5672a10, 0xc12c4cc9, 0xbd08a39e, 0xb8fbaf46, 0xb504f333, 0xb123f581,
     0xad583ee9, 0xa9a15ab4, 0xa5fed6a9, 0xa2704302, 0x9ef5325f, 0x9b8d39b9,
     0x9837f050, 0x94f4efa8, 0x91c3d373, 0x8ea4398a, 0x8b95c1e3, 0x88980e80,
     0x85aac367, 0x82cd8698]"

definition LOAD_AVG_PERIOD :: int where
  "LOAD_AVG_PERIOD = 32"

definition LOAD_AVG_MAX :: int where
  "LOAD_AVG_MAX = 47742"

definition PELT_MIN_DIVIDER :: int where
  "PELT_MIN_DIVIDER = LOAD_AVG_MAX - 1024"

definition decay_load :: "int \<Rightarrow> int \<Rightarrow> int" where
  "decay_load val n =
     (if n > LOAD_AVG_PERIOD * 63 then 0
      else
        let local_n = u32 n;
            val' = (if local_n \<ge> LOAD_AVG_PERIOD then shr val (nat (local_n div LOAD_AVG_PERIOD)) else val);
            local_n' = (if local_n \<ge> LOAD_AVG_PERIOD then local_n mod LOAD_AVG_PERIOD else local_n)
        in mul_u64_u32_shr val' (runnable_avg_yN_inv ! nat local_n') 32)"

definition accumulate_pelt_segments :: "int \<Rightarrow> int \<Rightarrow> int \<Rightarrow> int" where
  "accumulate_pelt_segments periods d1 d3 =
     (let c1 = u32 (decay_load d1 periods);
          c2 = u32 (u64 (LOAD_AVG_MAX - decay_load LOAD_AVG_MAX periods - 1024));
          c3 = d3
      in u32 (c1 + c2 + c3))"

text \<open>The result is the number of periods crossed, as a \<open>u32\<close>, and the updated sums.\<close>

definition accumulate_sum ::
    "int \<Rightarrow> sched_avg \<Rightarrow> int \<Rightarrow> int \<Rightarrow> int \<Rightarrow> int \<times> sched_avg" where
  "accumulate_sum delta sa load runnable running =
     (let contrib = u32 delta;
          delta = u64 (delta + period_contrib sa);
          periods = delta div 1024;
          sa1 = (if periods \<noteq> 0 then
                   sa\<lparr>load_sum := decay_load (load_sum sa) periods,
                      runnable_sum := decay_load (runnable_sum sa) periods,
                      util_sum := u32 (decay_load (util_sum sa) periods)\<rparr>
                 else sa);
          delta1 = (if periods \<noteq> 0 then delta mod 1024 else delta);
          contrib1 = (if periods \<noteq> 0 \<and> load \<noteq> 0
                      then accumulate_pelt_segments periods (u32 (1024 - period_contrib sa)) (u32 delta1)
                      else contrib);
          sa2 = sa1\<lparr>period_contrib := u32 delta1\<rparr>;
          sa3 = (if load \<noteq> 0
                 then sa2\<lparr>load_sum := u64 (load_sum sa2 + u64 (load * contrib1))\<rparr> else sa2);
          sa4 = (if runnable \<noteq> 0
                 then sa3\<lparr>runnable_sum :=
                   u64 (runnable_sum sa3 + u64 (shl (u64 (runnable * contrib1)) SCHED_CAPACITY_SHIFT))\<rparr>
                 else sa3);
          sa5 = (if running \<noteq> 0
                 then sa4\<lparr>util_sum := u32 (util_sum sa4 + u32 (shl contrib1 SCHED_CAPACITY_SHIFT))\<rparr>
                 else sa4)
      in (u32 periods, sa5))"

text \<open>\<open>___update_load_sum\<close>.\<close>

definition update_load_sum ::
    "int \<Rightarrow> sched_avg \<Rightarrow> int \<Rightarrow> int \<Rightarrow> int \<Rightarrow> bool \<times> sched_avg" where
  "update_load_sum now sa load runnable running =
     (let delta = u64 (now - last_update_time sa) in
      if s64 delta < 0 then (False, sa\<lparr>last_update_time := now\<rparr>)
      else
        let delta = shr delta 10 in
        if delta = 0 then (False, sa)
        else
          let sa1 = sa\<lparr>last_update_time := u64 (last_update_time sa + u64 (shl delta 10))\<rparr>;
              runnable' = (if load = 0 then 0 else runnable);
              running' = (if load = 0 then 0 else running)
          in (case accumulate_sum delta sa1 load runnable' running' of
                (periods, sa2) \<Rightarrow> (periods \<noteq> 0, sa2)))"

definition get_pelt_divider :: "sched_avg \<Rightarrow> int" where
  "get_pelt_divider avg = u32 (PELT_MIN_DIVIDER + period_contrib avg)"

text \<open>\<open>___update_load_avg\<close>.\<close>

definition update_load_avg3 :: "sched_avg \<Rightarrow> int \<Rightarrow> sched_avg" where
  "update_load_avg3 sa load =
     (let divider = get_pelt_divider sa in
        sa\<lparr>load_avg := div_u64 (load * load_sum sa) divider,
           runnable_avg := div_u64 (runnable_sum sa) divider,
           util_avg := util_sum sa div divider\<rparr>)"

section \<open>Entities and runqueues\<close>

definition UTIL_AVG_UNCHANGED :: int where
  "UTIL_AVG_UNCHANGED = 0x80000000"

text \<open>The flag is bit 31 of \<open>util_est.enqueued\<close>; \<open>feat\<close> is \<open>sched_feat(UTIL_EST)\<close>.\<close>

definition cfs_se_util_change :: "bool \<Rightarrow> sched_avg \<Rightarrow> sched_avg" where
  "cfs_se_util_change feat avg =
     (if \<not> feat then avg
      else
        let enqueued = ue_enqueued (util_est avg) in
        if enqueued < UTIL_AVG_UNCHANGED then avg
        else avg\<lparr>util_est := (util_est avg)\<lparr>ue_enqueued := enqueued - UTIL_AVG_UNCHANGED\<rparr>\<rparr>)"

definition update_load_avg_blocked_se :: "int \<Rightarrow> sched_entity \<Rightarrow> bool \<times> sched_entity" where
  "update_load_avg_blocked_se now se =
     (case update_load_sum now (se_avg se) 0 0 0 of (crossed, sa) \<Rightarrow>
        if crossed then (True, se\<lparr>se_avg := update_load_avg3 sa (se_weight se)\<rparr>)
        else (False, se\<lparr>se_avg := sa\<rparr>))"

definition update_load_avg_se :: "bool \<Rightarrow> int \<Rightarrow> cfs_rq \<Rightarrow> sched_entity \<Rightarrow> bool \<times> sched_entity" where
  "update_load_avg_se feat now cfs se =
     (case update_load_sum now (se_avg se) (if se_on_rq se then 1 else 0) (se_runnable se)
             (if map_option se_id (cfs_curr cfs) = Some (se_id se) then 1 else 0) of (crossed, sa) \<Rightarrow>
        if crossed
        then (True, se\<lparr>se_avg := cfs_se_util_change feat (update_load_avg3 sa (se_weight se))\<rparr>)
        else (False, se\<lparr>se_avg := sa\<rparr>))"

definition update_load_avg_cfs_rq :: "int \<Rightarrow> cfs_rq \<Rightarrow> bool \<times> cfs_rq" where
  "update_load_avg_cfs_rq now cfs =
     (case update_load_sum now (cfs_avg cfs) (scale_load_down (weight (cfs_load cfs)))
             (cfs_h_nr_running cfs) (if cfs_curr cfs \<noteq> None then 1 else 0) of (crossed, sa) \<Rightarrow>
        if crossed then (True, cfs\<lparr>cfs_avg := update_load_avg3 sa 1\<rparr>)
        else (False, cfs\<lparr>cfs_avg := sa\<rparr>))"

section \<open>The signals and the clock of a runqueue\<close>

text \<open>The fields of \<open>struct rq\<close> that pelt.c and pelt.h use.\<close>

record pelt_rq =
  prq_clock :: int
  prq_clock_task :: int
  clock_pelt :: int
  lost_idle_time :: int
  clock_pelt_idle :: int
  clock_idle :: int
  avg_rt :: sched_avg
  avg_dl :: sched_avg
  avg_thermal :: sched_avg
  avg_irq :: sched_avg
  prq_cfs_util_sum :: int       \<comment> \<open>\<open>rq->cfs.avg.util_sum\<close>\<close>
  prq_curr_idle :: bool         \<comment> \<open>\<open>is_idle_task(rq->curr)\<close>\<close>
  freq_capacity :: int          \<comment> \<open>\<open>arch_scale_freq_capacity(cpu_of(rq))\<close>\<close>
  cpu_capacity :: int           \<comment> \<open>\<open>arch_scale_cpu_capacity(cpu_of(rq))\<close>\<close>

definition update_rt_rq_load_avg :: "int \<Rightarrow> pelt_rq \<Rightarrow> int \<Rightarrow> bool \<times> pelt_rq" where
  "update_rt_rq_load_avg now rq running =
     (case update_load_sum now (avg_rt rq) (u64 running) (u64 running) running of (crossed, sa) \<Rightarrow>
        if crossed then (True, rq\<lparr>avg_rt := update_load_avg3 sa 1\<rparr>) else (False, rq\<lparr>avg_rt := sa\<rparr>))"

definition update_dl_rq_load_avg :: "int \<Rightarrow> pelt_rq \<Rightarrow> int \<Rightarrow> bool \<times> pelt_rq" where
  "update_dl_rq_load_avg now rq running =
     (case update_load_sum now (avg_dl rq) (u64 running) (u64 running) running of (crossed, sa) \<Rightarrow>
        if crossed then (True, rq\<lparr>avg_dl := update_load_avg3 sa 1\<rparr>) else (False, rq\<lparr>avg_dl := sa\<rparr>))"

definition update_thermal_load_avg :: "int \<Rightarrow> pelt_rq \<Rightarrow> int \<Rightarrow> bool \<times> pelt_rq" where
  "update_thermal_load_avg now rq capacity =
     (case update_load_sum now (avg_thermal rq) capacity capacity (s32 capacity) of (crossed, sa) \<Rightarrow>
        if crossed then (True, rq\<lparr>avg_thermal := update_load_avg3 sa 1\<rparr>)
        else (False, rq\<lparr>avg_thermal := sa\<rparr>))"

definition update_irq_load_avg :: "pelt_rq \<Rightarrow> int \<Rightarrow> int \<times> pelt_rq" where
  "update_irq_load_avg rq running0 =
     (let running1 = cap_scale running0 (freq_capacity rq);
          running = cap_scale running1 (cpu_capacity rq);
          (r1, sa1) = update_load_sum (u64 (prq_clock rq - running)) (avg_irq rq) 0 0 0;
          (r2, sa2) = update_load_sum (prq_clock rq) sa1 1 1 1;
          ret = (if r1 then 1 else 0) + (if r2 then 1 else 0)
      in (ret, rq\<lparr>avg_irq := (if ret \<noteq> 0 then update_load_avg3 sa2 1 else sa2)\<rparr>))"

definition rq_clock_pelt :: "pelt_rq \<Rightarrow> int" where
  "rq_clock_pelt rq = u64 (clock_pelt rq - lost_idle_time rq)"

text \<open>\<open>_update_idle_rq_clock_pelt\<close>: the last store reads the \<open>clock_pelt\<close> just written.\<close>

definition sync_idle_rq_clock_pelt :: "pelt_rq \<Rightarrow> pelt_rq" where
  "sync_idle_rq_clock_pelt rq =
     (let rq1 = rq\<lparr>clock_pelt := prq_clock_task rq\<rparr>;
          rq2 = rq1\<lparr>clock_idle := prq_clock rq1\<rparr>
      in rq2\<lparr>clock_pelt_idle := rq_clock_pelt rq2\<rparr>)"

definition update_rq_clock_pelt :: "pelt_rq \<Rightarrow> int \<Rightarrow> pelt_rq" where
  "update_rq_clock_pelt rq delta =
     (if prq_curr_idle rq then sync_idle_rq_clock_pelt rq
      else
        let delta1 = s64 (cap_scale delta (cpu_capacity rq));
            delta2 = s64 (cap_scale delta1 (freq_capacity rq))
        in rq\<lparr>clock_pelt := u64 (clock_pelt rq + delta2)\<rparr>)"

definition update_idle_rq_clock_pelt :: "pelt_rq \<Rightarrow> pelt_rq" where
  "update_idle_rq_clock_pelt rq =
     (let divider = u32 (shl (LOAD_AVG_MAX - 1024) SCHED_CAPACITY_SHIFT - LOAD_AVG_MAX);
          sum = u32 (u32 (prq_cfs_util_sum rq + util_sum (avg_rt rq)) + util_sum (avg_dl rq));
          rq1 = (if sum \<ge> divider
                 then rq\<lparr>lost_idle_time := u64 (lost_idle_time rq + u64 (prq_clock_task rq - clock_pelt rq))\<rparr>
                 else rq)
      in sync_idle_rq_clock_pelt rq1)"

definition update_idle_cfs_rq_clock_pelt :: "cfs_rq \<Rightarrow> cfs_rq" where
  "update_idle_cfs_rq_clock_pelt cfs =
     cfs\<lparr>throttled_pelt_idle :=
       (if throttle_count cfs \<noteq> 0 then 2 ^ 64 - 1 else throttled_clock_pelt_time cfs)\<rparr>"

definition cfs_rq_clock_pelt :: "pelt_rq \<Rightarrow> cfs_rq \<Rightarrow> int" where
  "cfs_rq_clock_pelt rq cfs =
     (if throttle_count cfs \<noteq> 0 then u64 (throttled_clock_pelt cfs - throttled_clock_pelt_time cfs)
      else u64 (rq_clock_pelt rq - throttled_clock_pelt_time cfs))"

section \<open>Decay\<close>

lemma yN_inv_range: "n < 32 \<Longrightarrow> 0 < runnable_avg_yN_inv ! n \<and> runnable_avg_yN_inv ! n < 4294967296"
proof -
  have "\<forall>v \<in> set runnable_avg_yN_inv. 0 < v \<and> v < 4294967296"
    by (simp add: runnable_avg_yN_inv_def)
  moreover have "length runnable_avg_yN_inv = 32" by (simp add: runnable_avg_yN_inv_def)
  ultimately show "n < 32 \<Longrightarrow> ?thesis" by (metis nth_mem)
qed

definition pelt_k :: "int \<Rightarrow> nat" where "pelt_k n = nat (n div 32)"
definition pelt_y :: "int \<Rightarrow> int" where "pelt_y n = runnable_avg_yN_inv ! nat (n mod 32)"

lemma pelt_y_range: "0 < pelt_y n" "pelt_y n < 4294967296"
  using yN_inv_range [of "nat (n mod 32)"] by (simp_all add: pelt_y_def)

lemma decay_load_eq:
  assumes "0 \<le> n" "is_u64 val"
  shows "decay_load val n = (if n > 2016 then 0 else val div 2 ^ pelt_k n * pelt_y n div 2 ^ 32)"
proof (cases "n > 2016")
  case True
  then show ?thesis by (simp add: decay_load_def LOAD_AVG_PERIOD_def)
next
  case False
  have v: "0 \<le> val div 2 ^ pelt_k n" "val div 2 ^ pelt_k n < 2 ^ 64"
    using assms(2) zdiv_mono2 [of val 1 "2 ^ pelt_k n"]
    by (auto simp: is_u64_def pos_imp_zdiv_nonneg_iff)
  have "val div 2 ^ pelt_k n * pelt_y n \<le> val div 2 ^ pelt_k n * 2 ^ 32"
    using pelt_y_range [of n] v by (intro mult_left_mono) auto
  then have "val div 2 ^ pelt_k n * pelt_y n div 2 ^ 32 \<le> val div 2 ^ pelt_k n"
    using zdiv_mono1 [of _ "val div 2 ^ pelt_k n * 2 ^ 32" "2 ^ 32"] by fastforce
  moreover have "0 \<le> val div 2 ^ pelt_k n * pelt_y n div 2 ^ 32"
    using pelt_y_range [of n] v by (simp add: pos_imp_zdiv_nonneg_iff)
  ultimately have "u64 (val div 2 ^ pelt_k n * pelt_y n div 2 ^ 32) = val div 2 ^ pelt_k n * pelt_y n div 2 ^ 32"
    using v by (intro u64_id) auto
  moreover have "n < 32 \<Longrightarrow> n mod 32 = n \<and> n div 32 = 0" using assms by simp
  ultimately show ?thesis
    using False assms(1)
    by (cases "n < 32") (auto simp: decay_load_def LOAD_AVG_PERIOD_def u32_id Let_def mul_u64_u32_shr_def shr_def
        pelt_k_def pelt_y_def)
qed

lemma decay_load_upper:
  assumes "0 \<le> n" "is_u64 val" "n \<le> 2016"
  shows "decay_load val n * (2 ^ 32 * 2 ^ pelt_k n) \<le> val * pelt_y n"
proof -
  let ?q = "val div 2 ^ pelt_k n"
  have "?q * pelt_y n div 2 ^ 32 * 2 ^ 32 \<le> ?q * pelt_y n"
    by (rule int_div_mult_le) simp
  then have "?q * pelt_y n div 2 ^ 32 * 2 ^ 32 * 2 ^ pelt_k n \<le> ?q * pelt_y n * 2 ^ pelt_k n"
    by (intro mult_right_mono) auto
  also have "\<dots> \<le> val * pelt_y n"
    using mult_right_mono [of "?q * 2 ^ pelt_k n" val "pelt_y n"] pelt_y_range [of n]
      int_div_mult_le [of "2 ^ pelt_k n" val] by (simp add: mult_ac)
  finally show ?thesis
    using assms by (simp add: decay_load_eq mult_ac)
qed

lemma decay_load_lower:
  assumes "0 \<le> n" "is_u64 val" "n \<le> 2016"
  shows "val * pelt_y n \<le> (decay_load val n + 2) * (2 ^ 32 * 2 ^ pelt_k n)"
proof -
  let ?q = "val div 2 ^ pelt_k n" and ?y = "pelt_y n" and ?K = "2 ^ pelt_k n :: int"
  have q: "val \<le> (?q + 1) * ?K"
    using int_less_div_Suc [of ?K val] by simp
  have d: "?q * ?y \<le> (?q * ?y div 2 ^ 32 + 1) * 2 ^ 32"
    using int_less_div_Suc [of "2 ^ 32" "?q * ?y"] by simp
  have "val * ?y \<le> (?q + 1) * ?K * ?y"
    using q pelt_y_range [of n] by (intro mult_right_mono) auto
  also have "\<dots> = (?q * ?y + ?y) * ?K" by (simp add: algebra_simps)
  also have "\<dots> \<le> ((?q * ?y div 2 ^ 32 + 1) * 2 ^ 32 + 2 ^ 32) * ?K"
    using d pelt_y_range [of n] by (intro mult_right_mono add_mono) auto
  also have "\<dots> = (?q * ?y div 2 ^ 32 + 2) * (2 ^ 32 * ?K)" by (simp add: algebra_simps)
  finally show ?thesis
    using assms by (simp add: decay_load_eq)
qed

lemma pelt_step_short_check:
  "\<forall>p \<in> set [1..31]. (1024 * 47742 + 47185) * pelt_y p \<le> 2 ^ 32 * (1024 * decay_load 47742 p + 47185) \<and>
     decay_load 47742 p \<le> 46718"
  by code_simp

lemma pelt_step_linear:
  fixes y D X :: int
  assumes "47185 * y \<le> 45137 * D" "47742 * y \<le> X + 2 * D"
  shows "48934993 * y \<le> 1024 * X + 47185 * D"
  using assms by linarith

lemma pelt_step_long:
  fixes y d D :: int
  assumes "2 * y \<le> D" "0 \<le> D" "47742 * y \<le> (d + 2) * D"
  shows "(1024 * 47742 + 47185) * y \<le> (1024 * d + 47185) * D"
proof -
  have "47742 * y \<le> d * D + 2 * D" using assms(3) by (simp add: distrib_right)
  moreover have "47185 * y \<le> 45137 * D" using assms(1,2) by linarith
  ultimately show ?thesis
    using pelt_step_linear [of y D "d * D"] by (simp add: distrib_right mult.assoc)
qed

lemma pelt_step:
  assumes p: "1 \<le> p" and pc: "0 \<le> pc" "pc \<le> 1024" and u: "0 \<le> u" "u \<le> 1024 * (46718 + pc) + 47185"
  shows "decay_load u p + 1024 * decay_load (1024 - pc) p \<le> 1024 * decay_load 47742 p + 47185"
proof (cases "p \<le> 2016")
  case False
  with p u pc show ?thesis by (simp add: decay_load_eq is_u64_def)
next
  case True
  let ?D = "2 ^ 32 * 2 ^ pelt_k p :: int" and ?S = "decay_load u p + 1024 * decay_load (1024 - pc) p"
  have "?S * ?D \<le> u * pelt_y p + 1024 * ((1024 - pc) * pelt_y p)"
    using decay_load_upper [of p u] decay_load_upper [of p "1024 - pc"] True p pc u
    by (simp add: is_u64_def algebra_simps)
  also have "\<dots> = (u + 1024 * (1024 - pc)) * pelt_y p" by (simp add: algebra_simps)
  also have "\<dots> \<le> (1024 * 47742 + 47185) * pelt_y p"
    using u pelt_y_range [of p] by (intro mult_right_mono) auto
  also have "\<dots> \<le> (1024 * decay_load 47742 p + 47185) * ?D"
  proof (cases "p \<le> 31")
    case True
    with p have "p \<in> set [1..31]" "pelt_k p = 0" by (simp_all add: pelt_k_def)
    with pelt_step_short_check show ?thesis by (simp add: mult.commute)
  next
    case False
    then have "1 \<le> pelt_k p" by (simp add: pelt_k_def)
    then have "2 ^ 1 \<le> (2 ^ pelt_k p :: int)" by (intro power_increasing) auto
    then have y: "2 * pelt_y p \<le> ?D" using pelt_y_range [of p] by simp
    have "47742 * pelt_y p \<le> (decay_load 47742 p + 2) * ?D"
      using decay_load_lower [of p 47742] \<open>p \<le> 2016\<close> p by (simp add: is_u64_def)
    with y show ?thesis by (intro pelt_step_long) auto
  qed
  finally show ?thesis by (simp add: mult_le_cancel_right)
qed

lemma decay_load_range: "0 \<le> n \<Longrightarrow> is_u64 val \<Longrightarrow> 0 \<le> decay_load val n \<and> decay_load val n \<le> val"
proof (cases "n \<le> 2016")
  case True
  assume n: "0 \<le> n" and v: "is_u64 val"
  have "0 \<le> decay_load val n"
    using n v True pelt_y_range [of n] by (simp add: decay_load_eq is_u64_def pos_imp_zdiv_nonneg_iff)
  moreover have "decay_load val n * (2 ^ 32 * 1) \<le> decay_load val n * (2 ^ 32 * 2 ^ pelt_k n)"
    using calculation by (intro mult_left_mono) auto
  moreover have "val * pelt_y n \<le> val * 2 ^ 32"
    using pelt_y_range [of n] v by (intro mult_left_mono) (auto simp: is_u64_def)
  ultimately show ?thesis
    using decay_load_upper [OF n v True] by simp
next
  case False
  then show "0 \<le> n \<Longrightarrow> is_u64 val \<Longrightarrow> ?thesis" by (simp add: decay_load_eq is_u64_def)
qed

lemma decay_load_mono:
  assumes "0 \<le> n" "is_u64 v" "is_u64 w" "v \<le> w"
  shows "decay_load v n \<le> decay_load w n"
  using assms pelt_y_range [of n]
  by (auto simp: decay_load_eq intro!: zdiv_mono1 mult_right_mono)

lemma decay_load_max: "1 \<le> p \<Longrightarrow> decay_load 47742 p \<le> 46718"
proof (cases "p \<le> 31")
  case True
  assume "1 \<le> p"
  with True have "p \<in> set [1..31]" by simp
  with pelt_step_short_check show ?thesis by blast
next
  case False
  assume p: "1 \<le> p"
  show ?thesis
  proof (cases "p \<le> 2016")
    case True
    from False have "1 \<le> pelt_k p" by (simp add: pelt_k_def)
    then have "2 ^ 1 \<le> (2 ^ pelt_k p :: int)" by (intro power_increasing) auto
    then have "47742 div 2 ^ pelt_k p \<le> (47742 :: int) div 2" by (intro zdiv_mono2) auto
    then have "47742 div 2 ^ pelt_k p * pelt_y p \<le> 23871 * 2 ^ 32"
      using pelt_y_range [of p] by (intro mult_mono) auto
    then have "47742 div 2 ^ pelt_k p * pelt_y p div 2 ^ 32 \<le> 23871 * 2 ^ 32 div 2 ^ 32"
      by (rule zdiv_mono1) simp
    with True p show ?thesis by (simp add: decay_load_eq is_u64_def)
  next
    case False
    with p show ?thesis by (simp add: decay_load_eq is_u64_def)
  qed
qed

definition pelt_util_max :: "int \<Rightarrow> int" where
  "pelt_util_max pc = 1024 * (PELT_MIN_DIVIDER + pc) + 47185"

definition pelt_inv :: "sched_avg \<Rightarrow> bool" where
  "pelt_inv sa \<longleftrightarrow> is_u64 (last_update_time sa) \<and> is_u64 (load_sum sa) \<and> is_u64 (runnable_sum sa) \<and>
     0 \<le> period_contrib sa \<and> period_contrib sa < 1024 \<and>
     0 \<le> util_sum sa \<and> util_sum sa \<le> pelt_util_max (period_contrib sa)"

lemmas pelt_consts = LOAD_AVG_MAX_def PELT_MIN_DIVIDER_def LOAD_AVG_PERIOD_def SCHED_CAPACITY_SHIFT_def

lemma accumulate_pelt_segments_eq:
  assumes p: "1 \<le> p" and d1: "0 \<le> d1" "d1 \<le> 1024" and d3: "0 \<le> d3" "d3 < 1024"
  shows "accumulate_pelt_segments p d1 d3 = decay_load d1 p + (46718 - decay_load 47742 p) + d3"
    and "0 \<le> accumulate_pelt_segments p d1 d3" "accumulate_pelt_segments p d1 d3 \<le> 48766"
proof -
  have 1: "0 \<le> decay_load d1 p" "decay_load d1 p \<le> 1024" 
    using decay_load_range [of p d1] p d1 by (auto simp: is_u64_def)
  have 2: "0 \<le> decay_load 47742 p" "decay_load 47742 p \<le> 46718"
    using decay_load_range [of p 47742] decay_load_max [OF p] p by (auto simp: is_u64_def)
  show eq: "accumulate_pelt_segments p d1 d3 = decay_load d1 p + (46718 - decay_load 47742 p) + d3"
    using 1 2 d3 by (simp add: accumulate_pelt_segments_def pelt_consts u32_id u64_id Let_def)
  show "0 \<le> accumulate_pelt_segments p d1 d3" "accumulate_pelt_segments p d1 d3 \<le> 48766"
    unfolding eq using 1 2 d3 by linarith+
qed

text \<open>The position in the period and the running sum after \<open>accumulate_sum\<close>.\<close>

lemma accumulate_sum_pos:
  assumes "0 \<le> delta" "delta < 2 ^ 53" "0 \<le> period_contrib sa" "period_contrib sa < 1024"
  shows "period_contrib (snd (accumulate_sum delta sa load runnable running)) = (delta + period_contrib sa) mod 1024"
    and "fst (accumulate_sum delta sa load runnable running) = u32 ((delta + period_contrib sa) div 1024)"
    and "last_update_time (snd (accumulate_sum delta sa load runnable running)) = last_update_time sa"
proof -
  have d: "u64 (delta + period_contrib sa) = delta + period_contrib sa"
    using assms by (intro u64_id) auto
  have "u32 ((delta + period_contrib sa) mod 1024) = (delta + period_contrib sa) mod 1024"
    by (rule u32_id) (auto intro: order_less_trans [OF pos_mod_bound])
  moreover have "(delta + period_contrib sa) div 1024 = 0 \<Longrightarrow> (delta + period_contrib sa) mod 1024 = delta + period_contrib sa"
    using assms by (simp add: div_eq_0_iff) 
  ultimately show "period_contrib (snd (accumulate_sum delta sa load runnable running)) = (delta + period_contrib sa) mod 1024"
    by (auto simp: accumulate_sum_def d Let_def)
  show "fst (accumulate_sum delta sa load runnable running) = u32 ((delta + period_contrib sa) div 1024)"
    by (auto simp: accumulate_sum_def d Let_def)
  show "last_update_time (snd (accumulate_sum delta sa load runnable running)) = last_update_time sa"
    by (auto simp: accumulate_sum_def Let_def)
qed

text \<open>The running sum after \<open>accumulate_sum\<close>, by the number of periods crossed.\<close>

lemma accumulate_sum_util:
  assumes sa: "pelt_inv sa" and d: "0 \<le> delta" "delta < 2 ^ 53" and l: "load = 0 \<longrightarrow> running = 0"
  defines "p \<equiv> (delta + period_contrib sa) div 1024" and "d3 \<equiv> (delta + period_contrib sa) mod 1024"
  shows "util_sum (snd (accumulate_sum delta sa load runnable running)) =
     (if p = 0 then util_sum sa + (if running = 0 then 0 else 1024 * delta)
      else decay_load (util_sum sa) p +
        (if running = 0 then 0
         else 1024 * (decay_load (1024 - period_contrib sa) p + (46718 - decay_load 47742 p) + d3)))"
proof -
  have pc: "0 \<le> period_contrib sa" "period_contrib sa < 1024" and us: "0 \<le> util_sum sa" "util_sum sa \<le> 48934993"
    using sa by (auto simp: pelt_inv_def pelt_util_max_def pelt_consts)
  have d64: "u64 (delta + period_contrib sa) = delta + period_contrib sa"
    using pc d by (intro u64_id) auto
  have d3: "u32 d3 = d3" "0 \<le> d3" "d3 < 1024"
    unfolding d3_def by (auto intro!: u32_id order_less_trans [OF pos_mod_bound])
  show ?thesis
  proof (cases "p = 0")
    case True
    then have "delta < 1024" using pc d by (simp add: p_def div_eq_0_iff)
    with True d us show ?thesis
      by (simp add: accumulate_sum_def Let_def d64 p_def [symmetric] u32_id shl_def SCHED_CAPACITY_SHIFT_def)
  next
    case False
    then have p: "1 \<le> p" using pc d pos_imp_zdiv_nonneg_iff [of 1024 "delta + period_contrib sa"] by (simp add: p_def)
    have u: "0 \<le> decay_load (util_sum sa) p" "decay_load (util_sum sa) p \<le> util_sum sa"
      using decay_load_range [of p "util_sum sa"] p us by (auto simp: is_u64_def)
    note seg = accumulate_pelt_segments_eq [OF p, of "1024 - period_contrib sa" d3]
    from seg(1) [symmetric] seg(2,3) False d3 pc us u l show ?thesis
      by (simp add: accumulate_sum_def Let_def d64 p_def [symmetric] d3_def [symmetric] u32_id shl_def SCHED_CAPACITY_SHIFT_def)
  qed
qed

lemma accumulate_sum_is_u64:
  assumes sa: "pelt_inv sa" and d: "0 \<le> delta" "delta < 2 ^ 53"
  shows "is_u64 (load_sum (snd (accumulate_sum delta sa load runnable running)))"
    and "is_u64 (runnable_sum (snd (accumulate_sum delta sa load runnable running)))"
proof -
  have p: "0 \<le> u64 (delta + period_contrib sa) div 1024"
    by (simp add: pos_imp_zdiv_nonneg_iff)
  have dec: "is_u64 (decay_load v (u64 (delta + period_contrib sa) div 1024))" if "is_u64 v" for v
    using decay_load_range [OF p that] that by (auto simp: is_u64_def)
  show "is_u64 (load_sum (snd (accumulate_sum delta sa load runnable running)))"
    using sa dec by (simp add: accumulate_sum_def Let_def pelt_inv_def)
  show "is_u64 (runnable_sum (snd (accumulate_sum delta sa load runnable running)))"
    using sa dec by (simp add: accumulate_sum_def Let_def pelt_inv_def)
qed

lemma accumulate_sum_inv:
  assumes sa: "pelt_inv sa" and d: "0 \<le> delta" "delta < 2 ^ 53" and l: "load = 0 \<longrightarrow> running = 0"
  shows "pelt_inv (snd (accumulate_sum delta sa load runnable running))"
proof -
  let ?p = "(delta + period_contrib sa) div 1024" and ?d3 = "(delta + period_contrib sa) mod 1024"
  let ?sa = "snd (accumulate_sum delta sa load runnable running)"
  have pc: "0 \<le> period_contrib sa" "period_contrib sa < 1024"
    and us: "0 \<le> util_sum sa" "util_sum sa \<le> 1024 * (46718 + period_contrib sa) + 47185"
    using sa by (auto simp: pelt_inv_def pelt_util_max_def pelt_consts)
  note pos = accumulate_sum_pos [OF d pc, of load runnable running]
  note util = accumulate_sum_util [OF sa d l, of runnable]
  have "0 \<le> util_sum ?sa \<and> util_sum ?sa \<le> 1024 * (46718 + ?d3) + 47185"
  proof (cases "?p = 0")
    case True
    then have "?d3 = delta + period_contrib sa" using pc d by (simp add: div_eq_0_iff)
    with True us d show ?thesis unfolding util by (auto simp: algebra_simps)
  next
    case False
    then have p: "1 \<le> ?p" using pc d pos_imp_zdiv_nonneg_iff [of 1024 "delta + period_contrib sa"] by simp
    have "0 \<le> decay_load (util_sum sa) ?p" "0 \<le> decay_load (1024 - period_contrib sa) ?p"
      using p pc us decay_load_range [of ?p] by (auto simp: is_u64_def)
    moreover have "0 \<le> ?d3" by simp
    ultimately show ?thesis
      unfolding util using False decay_load_max [OF p] pelt_step [OF p _ _ us] pc by (simp del: pos_mod_sign) 
  qed
  then show ?thesis
    using sa accumulate_sum_is_u64 [OF sa d, of load runnable running]
    by (simp add: pelt_inv_def pelt_util_max_def pelt_consts pos)
qed

section \<open>Updates of the sums\<close>

lemma update_load_sum_delta:
  assumes "\<not> s64 (u64 (now - last_update_time sa)) < 0"
  shows "0 \<le> shr (u64 (now - last_update_time sa)) 10" "shr (u64 (now - last_update_time sa)) 10 < 2 ^ 53"
proof -
  have "u64 (now - last_update_time sa) < 2 ^ 63"
    using assms u64_range [of "now - last_update_time sa"] by (cases "u64 (now - last_update_time sa) < 2 ^ 63") (auto simp: s64_wrap)
  then show "shr (u64 (now - last_update_time sa)) 10 < 2 ^ 53"
    by (simp add: shr_def) 
qed simp

lemma pelt_inv_lut: "pelt_inv sa \<Longrightarrow> is_u64 t \<Longrightarrow> pelt_inv (sa\<lparr>last_update_time := t\<rparr>)"
  by (simp add: pelt_inv_def)

lemma update_load_sum_forward:
  assumes "pelt_inv sa" "last_update_time sa \<le> now" "now < 2 ^ 63" "now - last_update_time sa \<ge> 1024"
  shows "update_load_sum now sa load runnable running =
     map_prod (\<lambda>p. p \<noteq> 0) id
       (accumulate_sum ((now - last_update_time sa) div 1024)
          (sa\<lparr>last_update_time := now - (now - last_update_time sa) mod 1024\<rparr>) load
          (if load = 0 then 0 else runnable) (if load = 0 then 0 else running))"
proof -
  let ?d = "now - last_update_time sa"
  have l: "0 \<le> last_update_time sa" using assms(1) by (simp add: pelt_inv_def is_u64_def)
  then have d: "u64 ?d = ?d" "s64 ?d = ?d" "\<not> ?d < 0"
    using assms by (auto intro!: u64_id s64_id)
  have m: "0 \<le> ?d mod 1024" "?d mod 1024 \<le> ?d" using assms by (auto simp: zmod_le_nonneg_dividend)
  have "?d div 1024 * 1024 = ?d - ?d mod 1024" by (simp add: minus_mod_eq_div_mult)
  then have e: "last_update_time sa + ?d div 1024 * 1024 = now - ?d mod 1024" by linarith
  have "u64 (now - ?d mod 1024) = now - ?d mod 1024"
    using m l assms(3) by (intro u64_id) (linarith, simp)
  then have "u64 (last_update_time sa + u64 (shl (shr ?d 10) 10)) = now - ?d mod 1024"
    by (simp only: u64_absorb shl_def shr_def) (simp add: e)
  moreover have "shr ?d 10 = ?d div 1024" by (simp add: shr_def)
  moreover have "?d div 1024 \<noteq> 0" using assms(4) by (simp add: div_eq_0_iff)
  ultimately show ?thesis
    by (simp only: update_load_sum_def Let_def d if_False map_prod_def id_def split)
qed

lemma update_load_sum_inv:
  assumes "pelt_inv sa" "is_u64 now"
  shows "pelt_inv (snd (update_load_sum now sa load runnable running))"
proof -
  let ?d = "u64 (now - last_update_time sa)"
  have "\<not> s64 ?d < 0 \<Longrightarrow> shr ?d 10 \<noteq> 0 \<Longrightarrow>
    pelt_inv (snd (accumulate_sum (shr ?d 10) (sa\<lparr>last_update_time := u64 (last_update_time sa + u64 (shl (shr ?d 10) 10))\<rparr>)
      load (if load = 0 then 0 else runnable) (if load = 0 then 0 else running)))"
    using update_load_sum_delta [of now sa] by (intro accumulate_sum_inv pelt_inv_lut assms) auto
  then show ?thesis
    using pelt_inv_lut [OF assms] assms(1) by (simp add: update_load_sum_def Let_def split_def)
qed

lemma update_load_avg3_inv [simp]: "pelt_inv (update_load_avg3 sa load) = pelt_inv sa"
  by (simp add: update_load_avg3_def pelt_inv_def Let_def)

lemma update_load_sum_util_avg: "util_avg (snd (update_load_sum now sa load runnable running)) = util_avg sa"
  by (simp add: update_load_sum_def accumulate_sum_def Let_def)

lemma update_load_avg3_util:
  assumes "pelt_inv sa"
  shows "0 \<le> util_avg (update_load_avg3 sa load) \<and> util_avg (update_load_avg3 sa load) \<le> 1025"
proof -
  let ?dv = "46718 + period_contrib sa"
  have pc: "0 \<le> period_contrib sa" "period_contrib sa < 1024"
    and us: "0 \<le> util_sum sa" "util_sum sa \<le> 1024 * ?dv + 47185"
    using assms by (auto simp: pelt_inv_def pelt_util_max_def pelt_consts)
  from us pc have "util_sum sa < 1026 * ?dv" by simp
  then have "util_sum sa div ?dv < 1026" using pc by (intro int_div_less) auto
  with pc us show ?thesis
    by (simp add: update_load_avg3_def get_pelt_divider_def pelt_consts u32_id Let_def pos_imp_zdiv_nonneg_iff)
qed

text \<open>
  A run of a signal: calls \<open>(now, load, runnable, running)\<close> of \<open>___update_load_sum\<close>, each followed by
  \<open>___update_load_avg\<close> when a period was crossed, from the zeroed state.
\<close>

primrec pelt_run :: "sched_avg \<Rightarrow> (int \<times> int \<times> int \<times> int) list \<Rightarrow> sched_avg" where
  "pelt_run sa [] = sa"
| "pelt_run sa (c # cs) =
     (case c of (now, load, runnable, running) \<Rightarrow>
        pelt_run (case update_load_sum now sa load runnable running of (crossed, sa') \<Rightarrow>
                    if crossed then update_load_avg3 sa' 1 else sa') cs)"

definition sched_avg0 :: sched_avg where
  "sched_avg0 = \<lparr>last_update_time = 0, load_sum = 0, runnable_sum = 0, util_sum = 0, period_contrib = 0,
     load_avg = 0, runnable_avg = 0, util_avg = 0, util_est = \<lparr>ue_enqueued = 0, ue_ewma = 0\<rparr>\<rparr>"

lemma sched_avg0_inv: "pelt_inv sched_avg0" "util_avg sched_avg0 = 0"
  by code_simp+

lemma pelt_run_util:
  assumes "pelt_inv sa" "0 \<le> util_avg sa" "util_avg sa \<le> 1025" "list_all (\<lambda>(now, _). is_u64 now) calls"
  shows "pelt_inv (pelt_run sa calls) \<and> 0 \<le> util_avg (pelt_run sa calls) \<and> util_avg (pelt_run sa calls) \<le> 1025"
  using assms
proof (induction calls arbitrary: sa)
  case (Cons c cs)
  obtain now load runnable running where c: "c = (now, load, runnable, running)" by (cases c)
  obtain b sa' where u: "update_load_sum now sa load runnable running = (b, sa')" by fastforce
  have "pelt_inv sa'" "util_avg sa' = util_avg sa"
    using update_load_sum_inv [OF Cons.prems(1), of now load runnable running] Cons.prems(4)
      update_load_sum_util_avg [of now sa load runnable running] u c by auto
  with Cons.prems Cons.IH [of "if b then update_load_avg3 sa' 1 else sa'"] update_load_avg3_util [of sa' 1] u c
  show ?case by auto
qed simp

section \<open>A signal that is always running\<close>

definition always_step :: "int \<Rightarrow> int" where
  "always_step u = u * 4202935002 div 4294967296 + 1045504"

definition always_calls :: "int \<Rightarrow> nat \<Rightarrow> (int \<times> int \<times> int \<times> int) list" where
  "always_calls t n = map (\<lambda>k. (t + 1048576 * int k, 1, 1, 1)) [1..<Suc n]"

lemma always_calls_Suc: "always_calls t (Suc n) = (t + 1048576, 1, 1, 1) # always_calls (t + 1048576) n"
  unfolding always_calls_def by (subst upt_conv_Cons) (auto simp: map_Suc_upt [symmetric] simp del: upt_Suc)

lemma decay1: "decay_load 140 1 = 137" "decay_load 47742 1 = 46718" "pelt_y 1 = 4202935002" "pelt_k 1 = 0"
  by code_simp+

lemma always_update:
  assumes "pelt_inv sa" "period_contrib sa = 884" "last_update_time sa + 1048576 < 2 ^ 63"
  defines "r \<equiv> update_load_sum (last_update_time sa + 1048576) sa 1 1 1"
  shows "fst r" "pelt_inv (snd r)" "period_contrib (snd r) = 884" "last_update_time (snd r) = last_update_time sa + 1048576"
    "util_sum (snd r) = always_step (util_sum sa)"
proof -
  let ?sa = "sa\<lparr>last_update_time := last_update_time sa + 1048576\<rparr>"
  have u: "is_u64 (util_sum sa)" using assms(1,2) by (simp add: pelt_inv_def pelt_util_max_def pelt_consts is_u64_def)
  have t: "is_u64 (last_update_time sa + 1048576)" using assms(1,3) by (simp add: pelt_inv_def is_u64_def)
  have r: "r = map_prod (\<lambda>p. p \<noteq> 0) id (accumulate_sum 1024 ?sa 1 1 1)"
    unfolding r_def using update_load_sum_forward [OF assms(1), of "last_update_time sa + 1048576" 1 1 1] assms(3) by simp
  have i: "pelt_inv ?sa" by (rule pelt_inv_lut [OF assms(1) t])
  show "fst r" "period_contrib (snd r) = 884" "last_update_time (snd r) = last_update_time sa + 1048576"
    using accumulate_sum_pos [of 1024 ?sa 1 1 1] assms(2) by (simp_all add: r u32_def)
  show "pelt_inv (snd r)" using accumulate_sum_inv [OF i, of 1024 1 1 1] by (simp add: r)
  show "util_sum (snd r) = always_step (util_sum sa)"
    using accumulate_sum_util [OF i, of 1024 1 1 1] assms(2)
    by (simp add: r decay1 always_step_def decay_load_eq [OF _ u])
qed

lemma always_run:
  assumes "pelt_inv sa" "period_contrib sa = 884" "last_update_time sa + 1048576 * int n < 2 ^ 63"
  defines "s \<equiv> pelt_run sa (always_calls (last_update_time sa) n)"
  shows "pelt_inv s \<and> period_contrib s = 884 \<and> last_update_time s = last_update_time sa + 1048576 * int n
    \<and> util_sum s = (always_step ^^ n) (util_sum sa)"
  using assms(1-3) unfolding s_def
proof (induction n arbitrary: sa)
  case 0
  then show ?case by (simp add: always_calls_def)
next
  case (Suc n)
  obtain b sa' where u: "update_load_sum (last_update_time sa + 1048576) sa 1 1 1 = (b, sa')" by fastforce
  have "last_update_time sa + 1048576 < 2 ^ 63" using Suc.prems(3) by simp
  from always_update [OF Suc.prems(1,2) this] have f: "b" "pelt_inv sa'" "period_contrib sa' = 884" 
    "last_update_time sa' = last_update_time sa + 1048576" "util_sum sa' = always_step (util_sum sa)"
    by (simp_all add: u)
  let ?s = "update_load_avg3 sa' 1"
  have "pelt_inv ?s" "period_contrib ?s = 884" "last_update_time ?s = last_update_time sa + 1048576" "util_sum ?s = always_step (util_sum sa)"
    using f by (simp_all add: update_load_avg3_def Let_def pelt_inv_def)
  with Suc.IH [of ?s] Suc.prems(3) f(1) show ?case
    by (simp add: always_calls_Suc u funpow_Suc_right del: funpow.simps)
qed
  
lemma funpow_five: "(f ^^ (5::nat)) x = f (f (f (f (f x))))"
  by (simp add: eval_nat_numeral)

lemma always_step_215: "(always_step ^^ 215) 48744448 = 48791156"
proof -
  have a: "(always_step ^^ 43) 48744448 = 48773023" by code_simp
  have b: "(always_step ^^ 43) 48773023 = 48784286" by code_simp
  have c: "(always_step ^^ 43) 48784286 = 48788720" by code_simp
  have d: "(always_step ^^ 43) 48788720 = 48790470" by code_simp
  have e: "(always_step ^^ 43) 48790470 = 48791156" by code_simp
  have "always_step ^^ 215 = (always_step ^^ 43) ^^ 5" by (simp only: funpow_mult) simp
  then show ?thesis using a b c d e by (simp add: funpow_five)
qed

text \<open>
  One long update brings the signal to the maximum of the comment, 215 updates of one period each let
  the rounding errors of \<open>decay_load\<close> build up, and a last one ends on a period boundary.
\<close>

definition overshoot_calls :: "(int \<times> int \<times> int \<times> int) list" where
  "overshoot_calls =
     (2119028736, 1, 1, 1) # always_calls (2119028736) 215 @ [(2344615936, 1, 1, 1)]"

lemma pelt_run_append: "pelt_run sa (xs @ ys) = pelt_run (pelt_run sa xs) ys"
  by (induction xs arbitrary: sa) auto

lemma overshoot_start:
  "update_load_sum (2119028736) sched_avg0 1 1 1 =
     (True, sched_avg0\<lparr>last_update_time := 2119028736, load_sum := 47602, runnable_sum := 48744448,
        util_sum := 48744448, period_contrib := 884\<rparr>)"
  by code_simp

lemma overshoot_last:
  assumes "pelt_inv sa" "period_contrib sa = 884" "last_update_time sa = 2344472576" "util_sum sa = 48791156"
  shows "util_avg (pelt_run sa [(2344615936, 1, 1, 1)]) = 1025"
proof -
  let ?sa = "sa\<lparr>last_update_time := 2344615936\<rparr>" and ?r = "accumulate_sum 140 (sa\<lparr>last_update_time := 2344615936\<rparr>) 1 1 1"
  have i: "pelt_inv ?sa" by (rule pelt_inv_lut [OF assms(1)]) (simp add: is_u64_def)
  have d: "decay_load 48791156 1 = 47745662" by code_simp
  have u: "util_sum (snd ?r) = 47885950" "period_contrib (snd ?r) = 0" "fst ?r = 1"
    using accumulate_sum_util [OF i, of 140 1 1 1] accumulate_sum_pos [of 140 ?sa 1 1 1] assms(2,4)
    by (simp_all add: decay1 d u32_def)
  have "update_load_sum (2344615936) sa 1 1 1 = (True, snd ?r)"
    using update_load_sum_forward [OF assms(1), of "2344615936" 1 1 1] assms(3) u(3)
    by (cases ?r) simp
  with u show ?thesis
    by (simp add: update_load_avg3_def get_pelt_divider_def pelt_consts u32_id Let_def)
qed

lemma pelt_overshoot: "util_avg (pelt_run sched_avg0 overshoot_calls) = 1025"
proof -
  let ?s0 = "sched_avg0\<lparr>last_update_time := 2119028736, load_sum := 47602, runnable_sum := 48744448,
        util_sum := 48744448, period_contrib := 884\<rparr>"
  let ?s = "update_load_avg3 ?s0 1"
  have "pelt_inv ?s0" by code_simp
  then have i: "pelt_inv ?s" by simp
  have f: "period_contrib ?s = 884" "last_update_time ?s = 2119028736" "util_sum ?s = 48744448"
    by (simp_all add: update_load_avg3_def Let_def)
  let ?s1 = "pelt_run ?s (always_calls (2119028736) 215)"
  have "pelt_inv ?s1 \<and> period_contrib ?s1 = 884 \<and> last_update_time ?s1 = 2344472576 \<and> util_sum ?s1 = 48791156"
    using always_run [OF i f(1), of 215] f always_step_215 by simp
  then show ?thesis
    using overshoot_last [of ?s1] by (simp add: overshoot_calls_def pelt_run_append overshoot_start)
qed

text \<open>What \<open>accumulate_sum\<close> does to the position depends on the position alone.\<close>

lemma accumulate_sum_path:
  "fst (accumulate_sum delta sa load runnable running) = u32 (u64 (delta + period_contrib sa) div 1024)"
  "period_contrib (snd (accumulate_sum delta sa load runnable running)) =
     (let d = u64 (delta + period_contrib sa) in u32 (if d div 1024 \<noteq> 0 then d mod 1024 else d))"
  "last_update_time (snd (accumulate_sum delta sa load runnable running)) = last_update_time sa"
  by (simp_all add: accumulate_sum_def Let_def)

section \<open>Properties\<close>

text \<open>
  C12: Whatever the sequence of updates of a signal, at whatever clock values (forward, backward, of any
  length) and with whatever load, runnable and running arguments, the running sum never leaves its
  32-bit range: it stays below 1024 times the divider plus 47185, the position in the period stays
  below 1024, and \<open>util_avg\<close> stays at most 1025.
\<close>

theorem pelt_util_bounded:
  assumes "list_all (\<lambda>(now, _). is_u64 now) calls"
  shows "0 \<le> util_avg (pelt_run sched_avg0 calls) \<and> util_avg (pelt_run sched_avg0 calls) \<le> 1025 \<and>
    util_sum (pelt_run sched_avg0 calls) \<le> 1024 * get_pelt_divider (pelt_run sched_avg0 calls) + 47185 \<and>
    period_contrib (pelt_run sched_avg0 calls) < 1024"
proof -
  have "pelt_inv (pelt_run sched_avg0 calls)" and
    "0 \<le> util_avg (pelt_run sched_avg0 calls)" "util_avg (pelt_run sched_avg0 calls) \<le> 1025"
    using pelt_run_util [of sched_avg0 calls] assms sched_avg0_inv by auto
  then show ?thesis
    by (simp add: pelt_inv_def pelt_util_max_def get_pelt_divider_def pelt_consts u32_id)
qed

theorem pelt_util_bounded_witness:
  "list_all (\<lambda>(now, _). is_u64 now) [(5000000, 1, 1, 1), (3000000, 1, 1, 0), (9000000, 0, 1, 1 :: int)] \<and>
   util_avg (pelt_run sched_avg0 [(5000000, 1, 1, 1), (3000000, 1, 1, 0), (9000000, 0, 1, 1)]) \<le> 1025"
  using pelt_util_bounded [of "[(5000000, 1, 1, 1), (3000000, 1, 1, 0), (9000000, 0, 1, 1)]"]
  by (simp add: is_u64_def)

text \<open>
  C33: The bound is tight.  A signal that is always running and is updated once a millisecond reaches
  \<open>util_avg\<close> 1025, one more than \<open>SCHED_CAPACITY_SCALE\<close>, because the remainders that \<open>decay_load\<close> rounds
  away from the maximum are not those it rounds away from the sum.
\<close>

theorem pelt_util_overshoot:
  "list_all (\<lambda>(now, load, runnable, running). is_u64 now \<and> load = 1 \<and> runnable = 1 \<and> running = 1) overshoot_calls \<and>
   util_avg (pelt_run sched_avg0 overshoot_calls) = SCHED_CAPACITY_SCALE + 1"
proof
  show "list_all (\<lambda>(now, load, runnable, running). is_u64 now \<and> load = 1 \<and> runnable = 1 \<and> running = 1) overshoot_calls"
    by (auto simp: overshoot_calls_def always_calls_def list_all_iff is_u64_def simp del: upt_Suc)
  show "util_avg (pelt_run sched_avg0 overshoot_calls) = SCHED_CAPACITY_SCALE + 1"
    by (simp add: pelt_overshoot SCHED_CAPACITY_SCALE_def)
qed

text \<open>
  C34: The position of a signal in its period, the time of its last update and whether a period was
  crossed do not depend on what is accumulated: two signals updated at the same clock values stay
  aligned, so their sums can be added and subtracted under one divider.
\<close>

theorem update_load_sum_aligned:
  assumes "last_update_time sa = last_update_time sb" "period_contrib sa = period_contrib sb"
  shows "last_update_time (snd (update_load_sum now sa la ra ua)) = last_update_time (snd (update_load_sum now sb lb rb ub)) \<and>
    get_pelt_divider (snd (update_load_sum now sa la ra ua)) = get_pelt_divider (snd (update_load_sum now sb lb rb ub)) \<and>
    fst (update_load_sum now sa la ra ua) = fst (update_load_sum now sb lb rb ub)"
  using assms by (simp add: update_load_sum_def accumulate_sum_path get_pelt_divider_def Let_def split_def)

theorem update_load_sum_aligned_witness:
  "last_update_time sched_avg0 = last_update_time (sched_avg0\<lparr>util_sum := 7\<rparr>) \<and>
   period_contrib sched_avg0 = period_contrib (sched_avg0\<lparr>util_sum := 7\<rparr>) \<and>
   get_pelt_divider (snd (update_load_sum 4000000 sched_avg0 1 1 1)) =
     get_pelt_divider (snd (update_load_sum 4000000 (sched_avg0\<lparr>util_sum := 7\<rparr>) 0 0 0))"
  using update_load_sum_aligned [of sched_avg0 "sched_avg0\<lparr>util_sum := 7\<rparr>" 4000000 1 1 1 0 0 0] by simp

text \<open>
  C35: Time is not lost and not counted twice.  When the clock did not go backwards, what is left between
  the last update and now is the part below 1024 ns of the elapsed time, and the position in the period
  moves by the elapsed microseconds modulo 1024; when the clock went backwards, the signal restarts at now with
  its sums unchanged.
\<close>

theorem update_load_sum_time:
  assumes "pelt_inv sa" "is_u64 now"
  shows "if s64 (now - last_update_time sa) < 0
     then update_load_sum now sa load runnable running = (False, sa\<lparr>last_update_time := now\<rparr>)
     else
       let elapsed = u64 (now - last_update_time sa); sa' = snd (update_load_sum now sa load runnable running) in
         u64 (now - last_update_time sa') = elapsed mod 1024 \<and>
         period_contrib sa' = (period_contrib sa + elapsed div 1024) mod 1024"
proof (cases "s64 (now - last_update_time sa) < 0")
  case True
  then show ?thesis by (simp add: update_load_sum_def s64_u64)
next
  case False
  define e where "e = u64 (now - last_update_time sa)"
  have pc: "0 \<le> period_contrib sa" "period_contrib sa < 1024" using assms(1) by (auto simp: pelt_inv_def)
  have f: "\<not> s64 e < 0" using False by (simp add: e_def s64_u64)
  have e: "0 \<le> e div 1024" "e div 1024 < 2 ^ 53"
    using update_load_sum_delta [of now sa] f by (simp_all add: e_def shr_def)
  have mod: "0 \<le> e mod 1024" "e mod 1024 < 1024" by simp_all
  have "u64 (now - (last_update_time sa + e div 1024 * 1024)) = u64 (e - e div 1024 * 1024)"
    unfolding e_def by (simp add: u64_absorb diff_diff_add)
  also have "\<dots> = e mod 1024" using mod by (simp add: minus_div_mult_eq_mod u64_id)
  finally have rest: "u64 (now - (last_update_time sa + e div 1024 * 1024)) = e mod 1024" .
  have "e div 1024 = 0 \<Longrightarrow> e mod 1024 = e" by (metis div_mult_mod_eq mult_zero_left add_0)
  with rest accumulate_sum_pos [OF e, of "sa\<lparr>last_update_time := u64 (last_update_time sa + u64 (shl (shr e 10) 10))\<rparr>"] pc
  show ?thesis
    using f False
    by (cases "e div 1024 = 0")
      (simp_all add: update_load_sum_def e_def [symmetric] Let_def split_def shr_def shl_def u64_absorb add.commute)
qed

theorem update_load_sum_time_witness:
  "pelt_inv sched_avg0 \<and> is_u64 1050000 \<and>
   u64 (1050000 - last_update_time (snd (update_load_sum 1050000 sched_avg0 1 1 1))) = 400 \<and>
   period_contrib (snd (update_load_sum 1050000 sched_avg0 1 1 1)) = 1"
  using update_load_sum_time [of sched_avg0 1050000 1 1 1] sched_avg0_inv
  by (simp add: is_u64_def sched_avg0_def s64_id u64_id Let_def)



section \<open>Invariants of the signals and of the clock\<close>

definition pelt_sig_ok :: "sched_avg \<Rightarrow> bool" where
  "pelt_sig_ok sa \<longleftrightarrow> pelt_inv sa \<and> 0 \<le> util_avg sa \<and> util_avg sa \<le> 1025"

definition pelt_rq_ok :: "pelt_rq \<Rightarrow> bool" where
  "pelt_rq_ok rq \<longleftrightarrow> pelt_sig_ok (avg_rt rq) \<and> pelt_sig_ok (avg_dl rq) \<and>
     pelt_sig_ok (avg_thermal rq) \<and> pelt_sig_ok (avg_irq rq) \<and> is_u64 (prq_clock rq)"

lemma pelt_sig_update:
  assumes "pelt_sig_ok sa" "is_u64 now" "update_load_sum now sa load runnable running = (crossed, sa')"
  shows "pelt_sig_ok sa'" "pelt_sig_ok (update_load_avg3 sa' w)"
proof -
  have "pelt_inv sa'" "util_avg sa' = util_avg sa"
    using update_load_sum_inv [of sa now load runnable running] assms
      update_load_sum_util_avg [of now sa load runnable running] by (auto simp: pelt_sig_ok_def)
  then show "pelt_sig_ok sa'" "pelt_sig_ok (update_load_avg3 sa' w)"
    using assms(1) update_load_avg3_util [of sa' w] by (auto simp: pelt_sig_ok_def)
qed

lemma pelt_sig_update_irq:
  assumes "pelt_rq_ok rq"
  shows "pelt_rq_ok (snd (update_irq_load_avg rq running))"
proof -
  let ?r = "cap_scale (cap_scale running (freq_capacity rq)) (cpu_capacity rq)"
  obtain b1 sa1 where 1: "update_load_sum (u64 (prq_clock rq - ?r)) (avg_irq rq) 0 0 0 = (b1, sa1)" by fastforce
  obtain b2 sa2 where 2: "update_load_sum (prq_clock rq) sa1 1 1 1 = (b2, sa2)" by fastforce
  from 1 have "pelt_sig_ok sa1" by (rule pelt_sig_update [rotated 2]) (use assms in \<open>auto simp: pelt_rq_ok_def\<close>)
  then have "pelt_sig_ok sa2" "pelt_sig_ok (update_load_avg3 sa2 1)"
    using 2 assms by (auto simp: pelt_rq_ok_def dest: pelt_sig_update)
  with assms show ?thesis
    by (simp add: update_irq_load_avg_def Let_def 1 2 pelt_rq_ok_def)
qed

lemma cap_scale_le:
  assumes "0 \<le> d" "d < 2 ^ 53" "0 \<le> c" "c \<le> 1024"
  shows "0 \<le> cap_scale d c \<and> cap_scale d c \<le> d"
proof -
  have m: "0 \<le> d * c" "d * c \<le> d * 1024" using assms by (auto intro: mult_left_mono)
  then have "u64 (d * c) = d * c" using assms by (intro u64_id) auto
  moreover have "d * c div 1024 \<le> d * 1024 div 1024" using m by (intro zdiv_mono1) auto
  ultimately show ?thesis using m by (simp add: cap_scale_def shr_def pos_imp_zdiv_nonneg_iff)
qed


definition pelt_rq0 :: pelt_rq where
  "pelt_rq0 = \<lparr>prq_clock = 5000000, prq_clock_task = 4800000, clock_pelt = 4000000, lost_idle_time = 100,
     clock_pelt_idle = 0, clock_idle = 0, avg_rt = sched_avg0, avg_dl = sched_avg0\<lparr>util_sum := 47791104\<rparr>,
     avg_thermal = sched_avg0, avg_irq = sched_avg0, prq_cfs_util_sum = 0, prq_curr_idle = False,
     freq_capacity = 512, cpu_capacity = 800\<rparr>"




text \<open>
  Going idle.  When the CFS, RT and deadline sums say the CPU had no idle time, the time the PELT clock
  lags behind is booked as lost idle time and the clock the signals see does not jump; otherwise
  the signals see the whole lag as idle time.  In both cases the PELT clock is back in sync with the task clock.
\<close>

lemma update_idle_rq_clock_pelt_sync:
  "clock_pelt (update_idle_rq_clock_pelt rq) = prq_clock_task rq \<and>
   clock_pelt_idle (update_idle_rq_clock_pelt rq) = rq_clock_pelt (update_idle_rq_clock_pelt rq) \<and>
   rq_clock_pelt (update_idle_rq_clock_pelt rq) =
     (if u32 (prq_cfs_util_sum rq + util_sum (avg_rt rq) + util_sum (avg_dl rq)) \<ge> 47791490
      then rq_clock_pelt rq
      else u64 (rq_clock_pelt rq + (prq_clock_task rq - clock_pelt rq)))"
proof -
  have "u32 (u32 a + b) = u32 (a + b)" for a b by (simp add: u32_def mod_simps)
  moreover have "u64 (clock_pelt rq - lost_idle_time rq) = u64 (prq_clock_task rq - (lost_idle_time rq + (prq_clock_task rq - clock_pelt rq)))"
    by (simp add: algebra_simps)
  ultimately show ?thesis
    by (simp add: update_idle_rq_clock_pelt_def sync_idle_rq_clock_pelt_def rq_clock_pelt_def pelt_consts
        u64_absorb Let_def shl_def u32_id [of 47791490])
qed

end
