(* ===== verification/Load_Weight.thy ===== *)
theory Load_Weight
  imports Sched_Types
begin

text \<open>
  Load weights and the scaling of execution time by them (the head of kernel/sched/fair.c, the weight
  tables of kernel/sched/core.c, and \<open>fls\<close> of asm-generic).  \<open>__calc_delta\<close> caches the inverse of a weight in
  the \<open>load_weight\<close> it is given, so its model returns that record too.
\<close>

unbundle bit_operations_syntax

section \<open>Find last set\<close>

text \<open>One stage of \<open>fls\<close>: when no bit of the mask is set, the word moves up and the answer goes down.\<close>

definition fls_stage :: "int \<Rightarrow> nat \<Rightarrow> int \<times> int \<Rightarrow> int \<times> int" where
  "fls_stage m k s = (case s of (x, r) \<Rightarrow> if x AND m = 0 then (u32 (shl x k), r - int k) else (x, r))"

definition fls :: "int \<Rightarrow> int" where
  "fls x =
     (if x = 0 then 0
      else snd (fls_stage 0x80000000 1
                 (fls_stage 0xc0000000 2
                   (fls_stage 0xf0000000 4
                     (fls_stage 0xff000000 8
                       (fls_stage 0xffff0000 16 (x, 32)))))))"

section \<open>Weights\<close>

definition update_load_add :: "load_weight \<Rightarrow> int \<Rightarrow> load_weight" where
  "update_load_add lw inc = lw\<lparr>weight := u64 (weight lw + inc), inv_weight := 0\<rparr>"

definition update_load_sub :: "load_weight \<Rightarrow> int \<Rightarrow> load_weight" where
  "update_load_sub lw dec = lw\<lparr>weight := u64 (weight lw - dec), inv_weight := 0\<rparr>"

definition update_load_set :: "load_weight \<Rightarrow> int \<Rightarrow> load_weight" where
  "update_load_set lw w = lw\<lparr>weight := w, inv_weight := 0\<rparr>"

definition WMULT_CONST :: int where
  "WMULT_CONST = 0xffffffff"

definition WMULT_SHIFT :: int where
  "WMULT_SHIFT = 32"

definition update_inv_weight :: "load_weight \<Rightarrow> load_weight" where
  "update_inv_weight lw =
     (if inv_weight lw \<noteq> 0 then lw
      else
        let w = scale_load_down (weight lw) in
        if w \<ge> WMULT_CONST then lw\<lparr>inv_weight := 1\<rparr>
        else if w = 0 then lw\<lparr>inv_weight := WMULT_CONST\<rparr>
        else lw\<lparr>inv_weight := WMULT_CONST div w\<rparr>)"

text \<open>A factor that does not fit 32 bits loses low bits, and the shift shrinks by as many.\<close>

definition calc_delta_norm :: "int \<Rightarrow> int \<Rightarrow> int \<times> int" where
  "calc_delta_norm fct shift =
     (let fact_hi = u32 (shr fct 32) in
      if fact_hi \<noteq> 0 then (shr fct (nat (fls fact_hi)), shift - fls fact_hi) else (fct, shift))"

text \<open>\<open>__calc_delta\<close>; \<open>mul_u32_u32\<close> takes its arguments as \<open>u32\<close>.\<close>

definition calc_delta :: "int \<Rightarrow> int \<Rightarrow> load_weight \<Rightarrow> int \<times> load_weight" where
  "calc_delta delta_exec wt lw =
     (let fct = scale_load_down wt;
          lw = update_inv_weight lw;
          (fct, shift) = calc_delta_norm fct WMULT_SHIFT;
          fct = u32 fct * u32 (inv_weight lw);
          (fct, shift) = calc_delta_norm fct shift
      in (mul_u64_u32_shr delta_exec (u32 fct) (nat shift), lw))"

definition calc_delta_fair :: "int \<Rightarrow> sched_entity \<Rightarrow> int \<times> sched_entity" where
  "calc_delta_fair delta se =
     (if weight (se_load se) \<noteq> NICE_0_LOAD then
        (case calc_delta delta NICE_0_LOAD (se_load se) of (d, lw) \<Rightarrow> (d, se\<lparr>se_load := lw\<rparr>))
      else (delta, se))"

section \<open>The tables\<close>

definition sched_prio_to_weight :: "int list" where
  "sched_prio_to_weight =
    [88761, 71755, 56483, 46273, 36291,
     29154, 23254, 18705, 14949, 11916,
     9548, 7620, 6100, 4904, 3906,
     3121, 2501, 1991, 1586, 1277,
     1024, 820, 655, 526, 423,
     335, 272, 215, 172, 137,
     110, 87, 70, 56, 45,
     36, 29, 23, 18, 15]"

definition sched_prio_to_wmult :: "int list" where
  "sched_prio_to_wmult =
    [48388, 59856, 76040, 92818, 118348,
     147320, 184698, 229616, 287308, 360437,
     449829, 563644, 704093, 875809, 1099582,
     1376151, 1717300, 2157191, 2708050, 3363326,
     4194304, 5237765, 6557202, 8165337, 10153587,
     12820798, 15790321, 19976592, 24970740, 31350126,
     39045157, 49367440, 61356676, 76695844, 95443717,
     119304647, 148102320, 186737708, 238609294, 286331153]"

section \<open>Correctness of \<open>fls\<close>\<close>

lemma high_mask_zero:
  assumes "0 \<le> x" "x < 2 ^ (n + k)"
  shows "x AND push_bit n (mask k) = 0 \<longleftrightarrow> x < (2 ^ n :: int)"
proof -
  have "x AND push_bit n (mask k) = push_bit n (drop_bit n x AND mask k)"
    by (rule bit_eqI) (auto simp: bit_simps)
  also have "drop_bit n x AND mask k = drop_bit n x"
  proof -
    have "x div 2 ^ n < 2 ^ k" using assms by (intro int_div_less) (auto simp: power_add mult.commute)
    moreover have "0 \<le> x div 2 ^ n" using assms by (simp add: pos_imp_zdiv_nonneg_iff)
    ultimately show ?thesis by (simp add: drop_bit_eq_div take_bit_eq_mod flip: take_bit_eq_mask)
  qed
  finally have "x AND push_bit n (mask k) = 0 \<longleftrightarrow> x div 2 ^ n = 0"
    by (simp add: push_bit_eq_mult drop_bit_eq_div)
  also have "\<dots> \<longleftrightarrow> x < 2 ^ n" using assms by (auto simp: zdiv_eq_0_iff)
  finally show ?thesis .
qed


text \<open>A stage that looks at the top \<open>k\<close> bits leaves a word of at least \<open>2 ^ (32 - k)\<close>.\<close>

lemma fls_stage_step:
  assumes x: "2 ^ (32 - 2 * k) \<le> x" "x < 2 ^ 32" and k: "2 * k \<le> 32" and m: "m = push_bit (32 - k) (mask k)"
    and s: "fls_stage m k (x, r) = (x', r')"
  shows "\<exists>j. x' = x * 2 ^ j \<and> r' = r - int j \<and> 2 ^ (32 - k) \<le> x' \<and> x' < 2 ^ 32"
proof (cases "x < 2 ^ (32 - k)")
  case True
  have x0: "0 \<le> x" using x(1) by (meson order_trans zero_le_numeral zero_le_power)
  have up: "x * 2 ^ k < 2 ^ (32 - k) * 2 ^ k" using True by simp
  also have "\<dots> = (2 :: int) ^ 32" using k by (simp flip: power_add)
  finally have u: "x * 2 ^ k < 2 ^ 32" .
  have "(2 :: int) ^ (32 - k) = 2 ^ (32 - 2 * k) * 2 ^ k" using k by (simp flip: power_add)
  also have "\<dots> \<le> x * 2 ^ k" using x(1) by simp
  finally have l: "2 ^ (32 - k) \<le> x * 2 ^ k" .
  have "x AND m = 0" using high_mask_zero [of x "32 - k" k] x0 x(2) k True by (simp add: m)
  then have "x' = x * 2 ^ k" "r' = r - int k"
    using s u x0 by (simp_all add: fls_stage_def shl_def u32_id)
  with u l show ?thesis by blast
next
  case False
  have "0 \<le> x" using x(1) by (meson order_trans zero_le_numeral zero_le_power)
  then have "x AND m \<noteq> 0" using high_mask_zero [of x "32 - k" k] x(2) k False by (simp add: m)
  with s False x(2) show ?thesis by (intro exI [of _ 0]) (simp add: fls_stage_def)
qed

lemma fls_masks:
  "(0xffff0000 :: int) = push_bit (32 - 16) (mask 16)" "(0xff000000 :: int) = push_bit (32 - 8) (mask 8)"
  "(0xf0000000 :: int) = push_bit (32 - 4) (mask 4)" "(0xc0000000 :: int) = push_bit (32 - 2) (mask 2)"
  "(0x80000000 :: int) = push_bit (32 - 1) (mask 1)"
  by (simp_all add: push_bit_eq_mult mask_eq_exp_minus_1)

lemma fls_spec:
  assumes "0 < x" "x < 2 ^ 32"
  shows "0 < fls x \<and> fls x \<le> 32 \<and> 2 ^ nat (fls x - 1) \<le> x \<and> x < 2 ^ nat (fls x)"
proof -
  obtain x1 r1 where s1: "fls_stage 0xffff0000 16 (x, 32) = (x1, r1)" by fastforce
  obtain x2 r2 where s2: "fls_stage 0xff000000 8 (x1, r1) = (x2, r2)" by fastforce
  obtain x3 r3 where s3: "fls_stage 0xf0000000 4 (x2, r2) = (x3, r3)" by fastforce
  obtain x4 r4 where s4: "fls_stage 0xc0000000 2 (x3, r3) = (x4, r4)" by fastforce
  obtain x5 r5 where s5: "fls_stage 0x80000000 1 (x4, r4) = (x5, r5)" by fastforce
  obtain j1 where 1: "x1 = x * 2 ^ j1" "r1 = 32 - int j1" "2 ^ 16 \<le> x1" "x1 < 2 ^ 32"
    using fls_stage_step [OF _ _ _ fls_masks(1) s1] assms by auto
  obtain j2 where 2: "x2 = x1 * 2 ^ j2" "r2 = r1 - int j2" "2 ^ 24 \<le> x2" "x2 < 2 ^ 32"
    using fls_stage_step [OF _ _ _ fls_masks(2) s2] 1 by auto
  obtain j3 where 3: "x3 = x2 * 2 ^ j3" "r3 = r2 - int j3" "2 ^ 28 \<le> x3" "x3 < 2 ^ 32"
    using fls_stage_step [OF _ _ _ fls_masks(3) s3] 2 by auto
  obtain j4 where 4: "x4 = x3 * 2 ^ j4" "r4 = r3 - int j4" "2 ^ 30 \<le> x4" "x4 < 2 ^ 32"
    using fls_stage_step [OF _ _ _ fls_masks(4) s4] 3 by auto
  obtain j5 where 5: "x5 = x4 * 2 ^ j5" "r5 = r4 - int j5" "2 ^ 31 \<le> x5" "x5 < 2 ^ 32"
    using fls_stage_step [OF _ _ _ fls_masks(5) s5] 4 by auto
  define j where "j = j1 + j2 + j3 + j4 + j5"
  have f: "fls x = 32 - int j" using assms s1 s2 s3 s4 s5 1 2 3 4 5 by (simp add: fls_def j_def)
  have xj: "x5 = x * 2 ^ j" using 1 2 3 4 5 by (simp add: j_def power_add)
  have "(2 :: int) ^ j \<le> x * 2 ^ j" using assms by simp
  then have "(2 :: int) ^ j < 2 ^ 32" using 5(4) xj by linarith
  then have j: "j < 32" by (rule power_less_imp_less_exp [rotated]) simp
  have "(2 :: int) ^ (31 - j) * 2 ^ j \<le> x * 2 ^ j" using 5(3) xj j by (simp flip: power_add)
  moreover have "x * 2 ^ j < 2 ^ (32 - j) * 2 ^ j" using 5(4) xj j by (simp flip: power_add)
  ultimately have "2 ^ (31 - j) \<le> x" "x < 2 ^ (32 - j)" by simp_all
  moreover have "nat (32 - int j) = 32 - j" "nat (32 - int j - 1) = 31 - j" using j by auto
  ultimately show ?thesis using j by (simp add: f)
qed

section \<open>Scaling by NICE_0_LOAD\<close>

lemma update_inv_weight_range:
  assumes "is_u32 (inv_weight lw)" "0 \<le> weight lw"
  shows "0 < inv_weight (update_inv_weight lw)" "inv_weight (update_inv_weight lw) < 2 ^ 32"
    and "weight (update_inv_weight lw) = weight lw"
proof -
  let ?w = "scale_load_down (weight lw)"
  have "0 < ?w \<Longrightarrow> ?w < 4294967295 \<Longrightarrow> 0 < 4294967295 div ?w"
    by (simp add: pos_imp_zdiv_pos_iff)
  moreover have "0 < ?w \<Longrightarrow> 4294967295 div ?w \<le> 4294967295 div 1"
    by (intro zdiv_mono2) auto
  moreover have "?w \<noteq> 0 \<Longrightarrow> 0 < ?w" using scale_load_down_nonneg [of "weight lw"] by linarith
  ultimately show "0 < inv_weight (update_inv_weight lw)" "inv_weight (update_inv_weight lw) < 2 ^ 32"
    using assms by (auto simp: update_inv_weight_def WMULT_CONST_def is_u32_def Let_def)
  show "weight (update_inv_weight lw) = weight lw"
    by (simp add: update_inv_weight_def Let_def)
qed

text \<open>
  The normalisation drops as many low bits as the inverse has bits above the 22nd, at most ten, and a factor
  \<open>1024 * inv_weight\<close> ends in ten zero bits: nothing is lost.
\<close>

lemma calc_delta_nice_0:
  assumes inv: "0 < inv_weight (update_inv_weight lw)" "inv_weight (update_inv_weight lw) < 2 ^ 32"
  shows "calc_delta delta NICE_0_LOAD lw =
    (u64 (delta * inv_weight (update_inv_weight lw) div 2 ^ 22), update_inv_weight lw)"
proof -
  define i where "i = inv_weight (update_inv_weight lw)"
  have i: "0 < i" "i < 2 ^ 32" using inv by (simp_all add: i_def)
  have hi: "shr (1024 * i) 32 = i div 2 ^ 22" by (simp add: shr_def div_mult2_eq [symmetric])
  have hi_range: "0 \<le> i div 2 ^ 22" "i div 2 ^ 22 < 2 ^ 10"
    using i by (auto simp: pos_imp_zdiv_nonneg_iff intro: int_div_less)
  have n1: "calc_delta_norm 1024 32 = (1024, 32)" by (simp add: calc_delta_norm_def shr_def u32_def)
  have base: "scale_load_down NICE_0_LOAD = 1024" by (simp add: scale_load_down_def NICE_0_LOAD_def shr_def)
  have "\<exists>f. calc_delta_norm (1024 * i) 32 = (i * 2 ^ (10 - f), 32 - int f) \<and> f \<le> 10 \<and> i * 2 ^ (10 - f) < 2 ^ 32"
  proof (cases "i div 2 ^ 22 = 0")
    case True
    then have "i < 2 ^ 22" using i by (simp add: zdiv_eq_0_iff)
    with True hi show ?thesis by (intro exI [of _ 0]) (simp add: calc_delta_norm_def u32_def)
  next
    case False
    define f where "f = nat (fls (i div 2 ^ 22))"
    have "0 < i div 2 ^ 22" using False hi_range by linarith
    then have fls: "0 < fls (i div 2 ^ 22)" "2 ^ nat (fls (i div 2 ^ 22) - 1) \<le> i div 2 ^ 22" "i div 2 ^ 22 < 2 ^ f"
      using fls_spec [of "i div 2 ^ 22"] hi_range by (simp_all add: f_def)
    have "(2 :: int) ^ (f - 1) < 2 ^ 10" using fls hi_range f_def by (simp add: nat_diff_distrib)
    then have "f - 1 < 10" by (rule power_less_imp_less_exp [rotated]) simp
    then have f10: "f \<le> 10" by simp
    have "i < 2 ^ f * 2 ^ 22" using fls(3) int_less_div_Suc [of "2 ^ 22" i]
      by (smt (verit) mult_right_mono zero_less_power)
    then have "i * 2 ^ (10 - f) < 2 ^ f * 2 ^ 22 * 2 ^ (10 - f)" by simp
    also have "\<dots> = 2 ^ 32" using f10 by (simp flip: power_add)
    finally have lt: "i * 2 ^ (10 - f) < 2 ^ 32" .
    have "1024 * i = i * 2 ^ (10 - f) * 2 ^ f" using f10 by (simp flip: power_add)
    then have "shr (1024 * i) f = i * 2 ^ (10 - f)" unfolding shr_def by (simp only: nonzero_mult_div_cancel_right) simp
    moreover have "u32 (i div 2 ^ 22) = i div 2 ^ 22" using hi_range by (intro u32_id) auto
    moreover have "int f = fls (i div 2 ^ 22)" using fls(1) by (simp add: f_def)
    ultimately show ?thesis
      using False f10 lt hi by (intro exI [of _ f]) (simp add: calc_delta_norm_def f_def Let_def)
  qed
  then obtain f where f: "calc_delta_norm (1024 * i) 32 = (i * 2 ^ (10 - f), 32 - int f)" "f \<le> 10" "i * 2 ^ (10 - f) < 2 ^ 32"
    by blast
  have "22 + (10 - f) = 32 - f" using f(2) by simp
  then have "(2 :: int) ^ (32 - f) = 2 ^ 22 * 2 ^ (10 - f)" by (metis power_add)
  then have "delta * (i * 2 ^ (10 - f)) div 2 ^ (32 - f) = delta * i * 2 ^ (10 - f) div (2 ^ 22 * 2 ^ (10 - f))"
    by (simp only: mult.assoc)
  also have "\<dots> = delta * i div 2 ^ 22" by simp
  finally have "delta * (i * 2 ^ (10 - f)) div 2 ^ (32 - f) = delta * i div 2 ^ 22" .
  moreover have "nat (32 - int f) = 32 - f" using f(2) by auto
  moreover have "u32 (i * 2 ^ (10 - f)) = i * 2 ^ (10 - f)" using f(3) i by (intro u32_id) auto
  ultimately show ?thesis
    using n1 f(1) i base
    by (simp add: calc_delta_def WMULT_SHIFT_def Let_def i_def [symmetric] u32_id mul_u64_u32_shr_def shr_def)
qed


section \<open>Properties\<close>

text \<open>
  C31: \<open>fls\<close> returns the position of the most significant set bit, counted from one, for every non-zero 32-bit
  word: the binary search with five masks agrees with the bit length.
\<close>

theorem fls_bit_length:
  assumes "0 < x" "x < 2 ^ 32"
  shows "fls 0 = 0 \<and> 2 ^ nat (fls x - 1) \<le> x \<and> x < 2 ^ nat (fls x)"
  using fls_spec [OF assms] by (simp add: fls_def)

theorem fls_bit_length_witness:
  "fls 0 = 0 \<and> 2 ^ nat (fls 70000 - 1) \<le> (70000 :: int) \<and> (70000 :: int) < 2 ^ nat (fls 70000)"
  using fls_bit_length [of 70000] by simp


definition example_se :: sched_entity where
  "example_se = \<lparr>se_id = 1, se_load = \<lparr>weight = 343040, inv_weight = 0\<rparr>, se_deadline = 3000000, se_min_deadline = 3000000,
     se_on_rq = True, se_exec_start = 0, se_sum_exec_runtime = 0, se_prev_sum_exec_runtime = 0, se_vruntime = 1000000,
     se_vlag = 0, se_slice = 750000, se_is_task = True, se_is_idle = False, se_runnable_weight = 0,
     se_avg = \<lparr>last_update_time = 0, load_sum = 0, runnable_sum = 0, util_sum = 0, period_contrib = 0,
       load_avg = 0, runnable_avg = 0, util_avg = 0, util_est = \<lparr>ue_enqueued = 0, ue_ewma = 0\<rparr>\<rparr>\<rparr>"


text \<open>
  C32: The table of precomputed inverses agrees with the table of weights: for each of the forty nice levels the
  entry is \<open>2 ^ 32\<close> divided by the weight, off by less than one unit.
\<close>

theorem sched_prio_to_wmult_inverse:
  "length sched_prio_to_weight = 40 \<and> length sched_prio_to_wmult = 40 \<and>
   list_all2 (\<lambda>w m. \<bar>2 ^ 32 - w * m\<bar> < w) sched_prio_to_weight sched_prio_to_wmult"
  by code_simp

end
