(* ===== verification/Fair_Load.thy ===== *)
theory Fair_Load
  imports Pelt Load_Weight
begin

text \<open>
  The load averages of the fair class (kernel/sched/fair.c): adding an entity to and removing it from the averages
  of its runqueue, deferred removal, propagation through a group entity, the share of a group, the load of a task group,
  and the estimated utilization of tasks.

  A group entity comes with the \<open>cfs_rq\<close> it owns and the task group of that (\<open>None\<close> for a task).  The statement
  \<open>cfs_rq_util_change\<close>, which calls the cpufreq hook, is a flag in the result.
\<close>

section \<open>Saturating arithmetic\<close>

text \<open>\<open>conv\<close> is the conversion to the type of \<open>*ptr\<close>.\<close>

definition add_positive :: "(int \<Rightarrow> int) \<Rightarrow> int \<Rightarrow> int \<Rightarrow> int" where
  "add_positive conv var val =
     (let res = conv (var + val) in if val < 0 \<and> res > var then 0 else res)"

definition sub_positive :: "(int \<Rightarrow> int) \<Rightarrow> int \<Rightarrow> int \<Rightarrow> int" where
  "sub_positive conv var val =
     (let val = conv val; res = conv (var - val) in if res > var then 0 else res)"

definition lsub_positive :: "(int \<Rightarrow> int) \<Rightarrow> int \<Rightarrow> int \<Rightarrow> int" where
  "lsub_positive conv var val = conv (var - min var (conv val))"

definition max_u32 :: "int \<Rightarrow> int \<Rightarrow> int" where
  "max_u32 a b = max (u32 a) (u32 b)"

section \<open>Load of a runqueue\<close>

definition enqueue_load_avg :: "cfs_rq \<Rightarrow> sched_entity \<Rightarrow> cfs_rq" where
  "enqueue_load_avg cfs se =
     cfs\<lparr>cfs_avg := (cfs_avg cfs)\<lparr>
       load_avg := u64 (load_avg (cfs_avg cfs) + load_avg (se_avg se)),
       load_sum := u64 (load_sum (cfs_avg cfs) + u64 (se_weight se * load_sum (se_avg se)))\<rparr>\<rparr>"

definition dequeue_load_avg :: "cfs_rq \<Rightarrow> sched_entity \<Rightarrow> cfs_rq" where
  "dequeue_load_avg cfs se =
     (let sa = cfs_avg cfs;
          sa = sa\<lparr>load_avg := sub_positive u64 (load_avg sa) (load_avg (se_avg se))\<rparr>;
          sa = sa\<lparr>load_sum := sub_positive u64 (load_sum sa) (u64 (se_weight se * load_sum (se_avg se)))\<rparr>;
          sa = sa\<lparr>load_sum := max_u32 (load_sum sa) (load_avg sa * PELT_MIN_DIVIDER)\<rparr>
      in cfs\<lparr>cfs_avg := sa\<rparr>)"

record task_group =
  tg_shares :: int
  tg_load_avg :: int
  tg_is_root :: bool

definition MIN_SHARES :: int where
  "MIN_SHARES = 2"

definition calc_group_shares :: "cfs_rq \<Rightarrow> task_group \<Rightarrow> int" where
  "calc_group_shares cfs tg =
     (let load = s64 (max (scale_load_down (weight (cfs_load cfs))) (load_avg (cfs_avg cfs)));
          tg_weight = tg_load_avg tg;
          tg_weight = s64 (tg_weight - tg_load_avg_contrib cfs);
          tg_weight = s64 (tg_weight + load);
          shares = s64 (tg_shares tg * load);
          shares = (if tg_weight \<noteq> 0 then c_div shares tg_weight else shares)
      in min (max shares MIN_SHARES) (tg_shares tg))"

definition load_avg_is_decayed :: "sched_avg \<Rightarrow> bool" where
  "load_avg_is_decayed sa \<longleftrightarrow> load_sum sa = 0 \<and> util_sum sa = 0 \<and> runnable_sum sa = 0"

text \<open>\<open>child_cfs_rq_on_list\<close> looks at the list of leaf runqueues; its answer is an argument.\<close>

definition cfs_rq_is_decayed :: "bool \<Rightarrow> cfs_rq \<Rightarrow> bool" where
  "cfs_rq_is_decayed child_on_list cfs \<longleftrightarrow>
     weight (cfs_load cfs) = 0 \<and> load_avg_is_decayed (cfs_avg cfs) \<and> \<not> child_on_list"

definition update_tg_load_avg :: "cfs_rq \<Rightarrow> task_group \<Rightarrow> cfs_rq \<times> task_group" where
  "update_tg_load_avg cfs tg =
     (let delta = s64 (load_avg (cfs_avg cfs) - tg_load_avg_contrib cfs) in
      if tg_is_root tg then (cfs, tg)
      else if \<bar>delta\<bar> > tg_load_avg_contrib cfs div 64
      then (cfs\<lparr>tg_load_avg_contrib := load_avg (cfs_avg cfs)\<rparr>, tg\<lparr>tg_load_avg := s64 (tg_load_avg tg + delta)\<rparr>)
      else (cfs, tg))"

text \<open>\<open>prev\<close> and \<open>next\<close> are the last update times of the two runqueues.\<close>

definition set_task_rq_fair :: "bool \<Rightarrow> sched_entity \<Rightarrow> int option \<Rightarrow> int \<Rightarrow> sched_entity" where
  "set_task_rq_fair ATTACH_AGE_LOAD se prev nxt =
     (if \<not> ATTACH_AGE_LOAD then se
      else case prev of
        None \<Rightarrow> se
      | Some p_last_update_time \<Rightarrow>
          if last_update_time (se_avg se) = 0 then se
          else
            let se = snd (update_load_avg_blocked_se p_last_update_time se)
            in se\<lparr>se_avg := (se_avg se)\<lparr>last_update_time := nxt\<rparr>\<rparr>)"

section \<open>Propagation through a group entity\<close>

definition update_tg_cfs_util :: "cfs_rq \<Rightarrow> sched_entity \<Rightarrow> cfs_rq \<Rightarrow> cfs_rq \<times> sched_entity" where
  "update_tg_cfs_util cfs se gcfs =
     (let delta_avg = s64 (util_avg (cfs_avg gcfs) - util_avg (se_avg se)) in
      if delta_avg = 0 then (cfs, se)
      else
        let divider = get_pelt_divider (cfs_avg cfs);
            new_sum = u32 (util_avg (cfs_avg gcfs) * divider);
            delta_sum = new_sum - util_sum (se_avg se);
            se = se\<lparr>se_avg := (se_avg se)\<lparr>util_avg := util_avg (cfs_avg gcfs), util_sum := new_sum\<rparr>\<rparr>;
            sa = cfs_avg cfs;
            sa = sa\<lparr>util_avg := add_positive u64 (util_avg sa) delta_avg\<rparr>;
            sa = sa\<lparr>util_sum := add_positive u32 (util_sum sa) delta_sum\<rparr>;
            sa = sa\<lparr>util_sum := max_u32 (util_sum sa) (util_avg sa * PELT_MIN_DIVIDER)\<rparr>
        in (cfs\<lparr>cfs_avg := sa\<rparr>, se))"

definition update_tg_cfs_runnable :: "cfs_rq \<Rightarrow> sched_entity \<Rightarrow> cfs_rq \<Rightarrow> cfs_rq \<times> sched_entity" where
  "update_tg_cfs_runnable cfs se gcfs =
     (let delta_avg = s64 (runnable_avg (cfs_avg gcfs) - runnable_avg (se_avg se)) in
      if delta_avg = 0 then (cfs, se)
      else
        let divider = get_pelt_divider (cfs_avg cfs);
            new_sum = u32 (runnable_avg (cfs_avg gcfs) * divider);
            delta_sum = s64 (new_sum - s64 (runnable_sum (se_avg se)));
            se = se\<lparr>se_avg := (se_avg se)\<lparr>runnable_avg := runnable_avg (cfs_avg gcfs), runnable_sum := new_sum\<rparr>\<rparr>;
            sa = cfs_avg cfs;
            sa = sa\<lparr>runnable_avg := add_positive u64 (runnable_avg sa) delta_avg\<rparr>;
            sa = sa\<lparr>runnable_sum := add_positive u64 (runnable_sum sa) delta_sum\<rparr>;
            sa = sa\<lparr>runnable_sum := max_u32 (runnable_sum sa) (runnable_avg sa * PELT_MIN_DIVIDER)\<rparr>
        in (cfs\<lparr>cfs_avg := sa\<rparr>, se))"

text \<open>The new unweighted runnable sum of the group entity.\<close>

definition tg_runnable_sum :: "cfs_rq \<Rightarrow> sched_entity \<Rightarrow> cfs_rq \<Rightarrow> int" where
  "tg_runnable_sum cfs se gcfs =
     (let divider = get_pelt_divider (cfs_avg cfs);
          runnable_sum = prop_runnable_sum gcfs;
          w = scale_load_down (weight (cfs_load gcfs));
          runnable_sum =
            (if runnable_sum \<ge> 0 then min (s64 (runnable_sum + load_sum (se_avg se))) divider
             else s64 (min (load_sum (se_avg se)) (if w \<noteq> 0 then div_u64 (load_sum (cfs_avg gcfs)) w else 0)));
          running_sum = shr (util_sum (se_avg se)) SCHED_CAPACITY_SHIFT
      in max runnable_sum running_sum)"

definition update_tg_cfs_load :: "cfs_rq \<Rightarrow> sched_entity \<Rightarrow> cfs_rq \<Rightarrow> cfs_rq \<times> sched_entity \<times> cfs_rq" where
  "update_tg_cfs_load cfs se gcfs =
     (if prop_runnable_sum gcfs = 0 then (cfs, se, gcfs)
      else
        let divider = get_pelt_divider (cfs_avg cfs);
            runnable_sum = tg_runnable_sum cfs se gcfs;
            gcfs = gcfs\<lparr>prop_runnable_sum := 0\<rparr>;
            lsum = u64 (se_weight se * runnable_sum);
            lavg = div_u64 lsum divider;
            delta_avg = s64 (lavg - load_avg (se_avg se))
        in if delta_avg = 0 then (cfs, se, gcfs)
           else
             let delta_sum = s64 (lsum - se_weight se * load_sum (se_avg se));
                 se = se\<lparr>se_avg := (se_avg se)\<lparr>load_sum := u64 runnable_sum, load_avg := lavg\<rparr>\<rparr>;
                 sa = cfs_avg cfs;
                 sa = sa\<lparr>load_avg := add_positive u64 (load_avg sa) delta_avg\<rparr>;
                 sa = sa\<lparr>load_sum := add_positive u64 (load_sum sa) delta_sum\<rparr>;
                 sa = sa\<lparr>load_sum := max_u32 (load_sum sa) (load_avg sa * PELT_MIN_DIVIDER)\<rparr>
             in (cfs\<lparr>cfs_avg := sa\<rparr>, se, gcfs))"

definition add_tg_cfs_propagate :: "cfs_rq \<Rightarrow> int \<Rightarrow> cfs_rq" where
  "add_tg_cfs_propagate cfs r_sum =
     cfs\<lparr>propagate := True, prop_runnable_sum := s64 (prop_runnable_sum cfs + r_sum)\<rparr>"

definition propagate_entity_load_avg ::
    "cfs_rq \<Rightarrow> sched_entity \<Rightarrow> cfs_rq option \<Rightarrow> bool \<times> cfs_rq \<times> sched_entity \<times> cfs_rq option" where
  "propagate_entity_load_avg cfs se g =
     (case g of
        None \<Rightarrow> (False, cfs, se, None)
      | Some gcfs \<Rightarrow>
          if \<not> propagate gcfs then (False, cfs, se, Some gcfs)
          else
            let gcfs = gcfs\<lparr>propagate := False\<rparr>;
                cfs = add_tg_cfs_propagate cfs (prop_runnable_sum gcfs);
                (cfs, se) = update_tg_cfs_util cfs se gcfs;
                (cfs, se) = update_tg_cfs_runnable cfs se gcfs;
                (cfs, se, gcfs) = update_tg_cfs_load cfs se gcfs
            in (True, cfs, se, Some gcfs))"

definition skip_blocked_update :: "sched_entity \<Rightarrow> cfs_rq \<Rightarrow> bool" where
  "skip_blocked_update se gcfs =
     (if load_avg (se_avg se) \<noteq> 0 \<or> util_avg (se_avg se) \<noteq> 0 then False
      else if propagate gcfs then False
      else True)"

text \<open>\<open>sched_clock\<close> is the value \<open>sched_clock_cpu\<close> returns.\<close>

definition migrate_se_pelt_lag :: "pelt_rq \<Rightarrow> int \<Rightarrow> cfs_rq \<Rightarrow> sched_entity \<Rightarrow> sched_entity" where
  "migrate_se_pelt_lag rq sched_clock cfs se =
     (if load_avg_is_decayed (se_avg se) then se
      else if \<not> prq_curr_idle rq then se
      else
        let throttled = throttled_pelt_idle cfs in
        if throttled = 2 ^ 64 - 1 then se
        else
          let now = clock_pelt_idle rq;
              lut = last_update_time (cfs_avg cfs);
              now = u64 (now - throttled);
              now = (if now < lut then lut else u64 (now + u64 (sched_clock - clock_idle rq)))
          in snd (update_load_avg_blocked_se now se))"

section \<open>Update, attach, detach\<close>

text \<open>The part of \<open>update_cfs_rq_load_avg\<close> that takes out what was removed from other CPUs.\<close>

definition apply_removed :: "cfs_rq \<Rightarrow> cfs_rq" where
  "apply_removed cfs =
     (let sa = cfs_avg cfs;
          divider = get_pelt_divider sa;
          removed_util = removed_util_avg cfs;
          removed_load = removed_load_avg cfs;
          removed_runnable = removed_runnable_avg cfs;
          cfs = cfs\<lparr>removed_util_avg := 0, removed_load_avg := 0, removed_runnable_avg := 0, removed_nr := 0\<rparr>;
          sa = sa\<lparr>load_avg := sub_positive u64 (load_avg sa) removed_load\<rparr>;
          sa = sa\<lparr>load_sum := sub_positive u64 (load_sum sa) (u64 (removed_load * divider))\<rparr>;
          sa = sa\<lparr>load_sum := max_u32 (load_sum sa) (load_avg sa * PELT_MIN_DIVIDER)\<rparr>;
          sa = sa\<lparr>util_avg := sub_positive u64 (util_avg sa) removed_util\<rparr>;
          sa = sa\<lparr>util_sum := sub_positive u32 (util_sum sa) (u64 (removed_util * divider))\<rparr>;
          sa = sa\<lparr>util_sum := max_u32 (util_sum sa) (util_avg sa * PELT_MIN_DIVIDER)\<rparr>;
          sa = sa\<lparr>runnable_avg := sub_positive u64 (runnable_avg sa) removed_runnable\<rparr>;
          sa = sa\<lparr>runnable_sum := sub_positive u64 (runnable_sum sa) (u64 (removed_runnable * divider))\<rparr>;
          sa = sa\<lparr>runnable_sum := max_u32 (runnable_sum sa) (runnable_avg sa * PELT_MIN_DIVIDER)\<rparr>
      in add_tg_cfs_propagate (cfs\<lparr>cfs_avg := sa\<rparr>)
           (shr (s64 (- s64 (removed_runnable * divider))) SCHED_CAPACITY_SHIFT))"

definition update_cfs_rq_load_avg :: "int \<Rightarrow> cfs_rq \<Rightarrow> bool \<times> cfs_rq" where
  "update_cfs_rq_load_avg now cfs =
     (let decayed = (removed_nr cfs \<noteq> 0);
          cfs = (if removed_nr cfs \<noteq> 0 then apply_removed cfs else cfs);
          (d, cfs) = update_load_avg_cfs_rq now cfs
      in (decayed \<or> d, cfs))"

definition attach_entity_load_avg :: "cfs_rq \<Rightarrow> sched_entity \<Rightarrow> cfs_rq \<times> sched_entity" where
  "attach_entity_load_avg cfs se =
     (let divider = get_pelt_divider (cfs_avg cfs);
          a = (se_avg se)\<lparr>last_update_time := last_update_time (cfs_avg cfs), period_contrib := period_contrib (cfs_avg cfs)\<rparr>;
          a = a\<lparr>util_sum := u32 (util_avg a * divider)\<rparr>;
          a = a\<lparr>runnable_sum := u64 (runnable_avg a * divider)\<rparr>;
          a = a\<lparr>load_sum := u64 (load_avg a * divider)\<rparr>;
          a = (if se_weight se < load_sum a then a\<lparr>load_sum := div_u64 (load_sum a) (se_weight se)\<rparr>
               else a\<lparr>load_sum := 1\<rparr>);
          se = se\<lparr>se_avg := a\<rparr>;
          cfs = enqueue_load_avg cfs se;
          sa = cfs_avg cfs;
          sa = sa\<lparr>util_avg := u64 (util_avg sa + util_avg a), util_sum := u32 (util_sum sa + util_sum a),
                  runnable_avg := u64 (runnable_avg sa + runnable_avg a),
                  runnable_sum := u64 (runnable_sum sa + runnable_sum a)\<rparr>
      in (add_tg_cfs_propagate (cfs\<lparr>cfs_avg := sa\<rparr>) (s64 (load_sum a)), se))"

definition detach_entity_load_avg :: "cfs_rq \<Rightarrow> sched_entity \<Rightarrow> cfs_rq" where
  "detach_entity_load_avg cfs se =
     (let a = se_avg se;
          cfs = dequeue_load_avg cfs se;
          sa = cfs_avg cfs;
          sa = sa\<lparr>util_avg := sub_positive u64 (util_avg sa) (util_avg a)\<rparr>;
          sa = sa\<lparr>util_sum := sub_positive u32 (util_sum sa) (util_sum a)\<rparr>;
          sa = sa\<lparr>util_sum := max_u32 (util_sum sa) (util_avg sa * PELT_MIN_DIVIDER)\<rparr>;
          sa = sa\<lparr>runnable_avg := sub_positive u64 (runnable_avg sa) (runnable_avg a)\<rparr>;
          sa = sa\<lparr>runnable_sum := sub_positive u64 (runnable_sum sa) (runnable_sum a)\<rparr>;
          sa = sa\<lparr>runnable_sum := max_u32 (runnable_sum sa) (runnable_avg sa * PELT_MIN_DIVIDER)\<rparr>
      in add_tg_cfs_propagate (cfs\<lparr>cfs_avg := sa\<rparr>) (s64 (- load_sum a)))"

text \<open>The flags \<open>UPDATE_TG\<close>, \<open>SKIP_AGE_LOAD\<close>, \<open>DO_ATTACH\<close> and \<open>DO_DETACH\<close>.\<close>

record load_flags =
  UPDATE_TG :: bool
  SKIP_AGE_LOAD :: bool
  DO_ATTACH :: bool
  DO_DETACH :: bool

text \<open>
  The result: the runqueue, its task group, the entity, the runqueue the entity owns, and whether
  \<open>cfs_rq_util_change\<close> was called.
\<close>

definition update_load_avg ::
    "bool \<Rightarrow> pelt_rq \<Rightarrow> load_flags \<Rightarrow> cfs_rq \<Rightarrow> task_group \<Rightarrow> sched_entity \<Rightarrow> cfs_rq option
       \<Rightarrow> cfs_rq \<times> task_group \<times> sched_entity \<times> cfs_rq option \<times> bool" where
  "update_load_avg UTIL_EST rq flags cfs tg se g =
     (let now = cfs_rq_clock_pelt rq cfs;
          se = (if last_update_time (se_avg se) \<noteq> 0 \<and> \<not> SKIP_AGE_LOAD flags
                then snd (update_load_avg_se UTIL_EST now cfs se) else se);
          (decayed, cfs) = update_cfs_rq_load_avg now cfs;
          (prop_decayed, cfs, se, g) = propagate_entity_load_avg cfs se g
      in if last_update_time (se_avg se) = 0 \<and> DO_ATTACH flags then
           let (cfs, se) = attach_entity_load_avg cfs se;
               (cfs, tg) = update_tg_load_avg cfs tg
           in (cfs, tg, se, g, True)
         else if DO_DETACH flags then
           let cfs = detach_entity_load_avg cfs se;
               (cfs, tg) = update_tg_load_avg cfs tg
           in (cfs, tg, se, g, True)
         else if decayed \<or> prop_decayed then
           let (cfs, tg) = (if UPDATE_TG flags then update_tg_load_avg cfs tg else (cfs, tg))
           in (cfs, tg, se, g, True)
         else (cfs, tg, se, g, False))"

text \<open>\<open>sync_entity_load_avg\<close> and \<open>remove_entity_load_avg\<close>.\<close>

definition sync_entity_load_avg :: "cfs_rq \<Rightarrow> sched_entity \<Rightarrow> sched_entity" where
  "sync_entity_load_avg cfs se =
     snd (update_load_avg_blocked_se (last_update_time (cfs_avg cfs)) se)"

definition remove_entity_load_avg :: "cfs_rq \<Rightarrow> sched_entity \<Rightarrow> cfs_rq \<times> sched_entity" where
  "remove_entity_load_avg cfs se =
     (let se = sync_entity_load_avg cfs se
      in (cfs\<lparr>removed_nr := removed_nr cfs + 1,
              removed_util_avg := u64 (removed_util_avg cfs + util_avg (se_avg se)),
              removed_load_avg := u64 (removed_load_avg cfs + load_avg (se_avg se)),
              removed_runnable_avg := u64 (removed_runnable_avg cfs + runnable_avg (se_avg se))\<rparr>, se))"

section \<open>New entities\<close>

definition init_entity_runnable_average :: "sched_entity \<Rightarrow> sched_entity" where
  "init_entity_runnable_average se =
     se\<lparr>se_avg := sched_avg0\<lparr>load_avg := (if se_is_task se then scale_load_down (weight (se_load se)) else 0)\<rparr>\<rparr>"

text \<open>\<open>fair\<close>: the task is of the fair class; \<open>now\<close> is \<open>cfs_rq_clock_pelt\<close>.\<close>

definition post_init_entity_util_avg :: "bool \<Rightarrow> int \<Rightarrow> int \<Rightarrow> cfs_rq \<Rightarrow> sched_entity \<Rightarrow> sched_entity" where
  "post_init_entity_util_avg fair cpu_scale now cfs se =
     (let sa = se_avg se; cap = c_div (s64 (cpu_scale - util_avg (cfs_avg cfs))) 2 in
      if \<not> fair then se\<lparr>se_avg := sa\<lparr>last_update_time := now\<rparr>\<rparr>
      else
        let u = (if cap > 0 then
                   (if util_avg (cfs_avg cfs) \<noteq> 0 then
                      let u = u64 (util_avg (cfs_avg cfs) * weight (se_load se)) div u64 (load_avg (cfs_avg cfs) + 1)
                      in if u > cap then cap else u
                    else cap)
                 else util_avg sa)
        in se\<lparr>se_avg := sa\<lparr>util_avg := u, runnable_avg := u\<rparr>\<rparr>)"

section \<open>Estimated utilization\<close>

text \<open>\<open>~UTIL_AVG_UNCHANGED\<close> is the mask of the low 31 bits.\<close>

definition task_util_est0 :: "sched_avg \<Rightarrow> int" where
  "task_util_est0 sa = max (ue_ewma (util_est sa)) (ue_enqueued (util_est sa) AND 0x7fffffff)"

definition task_util_est :: "sched_avg \<Rightarrow> int" where
  "task_util_est sa = max (util_avg sa) (task_util_est0 sa)"

definition util_est_enqueue :: "bool \<Rightarrow> cfs_rq \<Rightarrow> sched_avg \<Rightarrow> cfs_rq" where
  "util_est_enqueue UTIL_EST cfs p =
     (if \<not> UTIL_EST then cfs
      else
        let ue = util_est (cfs_avg cfs) in
        cfs\<lparr>cfs_avg := (cfs_avg cfs)\<lparr>util_est := ue\<lparr>ue_enqueued := u32 (ue_enqueued ue + task_util_est0 p)\<rparr>\<rparr>\<rparr>)"

definition util_est_dequeue :: "bool \<Rightarrow> cfs_rq \<Rightarrow> sched_avg \<Rightarrow> cfs_rq" where
  "util_est_dequeue UTIL_EST cfs p =
     (if \<not> UTIL_EST then cfs
      else
        let ue = util_est (cfs_avg cfs) in
        cfs\<lparr>cfs_avg := (cfs_avg cfs)\<lparr>util_est := ue\<lparr>ue_enqueued :=
          u32 (ue_enqueued ue - min (ue_enqueued ue) (u32 (task_util_est0 p)))\<rparr>\<rparr>\<rparr>)"

definition UTIL_EST_MARGIN :: int where
  "UTIL_EST_MARGIN = SCHED_CAPACITY_SCALE div 100"

definition UTIL_EST_WEIGHT_SHIFT :: nat where
  "UTIL_EST_WEIGHT_SHIFT = 2"

definition within_margin :: "int \<Rightarrow> int \<Rightarrow> bool" where
  "within_margin value margin \<longleftrightarrow> u32 (s32 value + margin - 1) < u32 (2 * margin - 1)"

text \<open>\<open>done\<close> marks the estimate as not to be updated before the utilization changes.\<close>

definition util_est_done :: "sched_avg \<Rightarrow> util_est \<Rightarrow> sched_avg" where
  "util_est_done p ue = p\<lparr>util_est := ue\<lparr>ue_enqueued := ue_enqueued ue OR UTIL_AVG_UNCHANGED\<rparr>\<rparr>"

definition util_est_update_fair :: "bool \<Rightarrow> bool \<Rightarrow> int \<Rightarrow> sched_avg \<Rightarrow> bool \<Rightarrow> sched_avg" where
  "util_est_update_fair UTIL_EST UTIL_EST_FASTUP capacity_orig p task_sleep =
     (if \<not> UTIL_EST then p
      else if \<not> task_sleep then p
      else if ue_enqueued (util_est p) AND UTIL_AVG_UNCHANGED \<noteq> 0 then p
      else
        let last_enqueued_diff = ue_enqueued (util_est p);
            ue = (util_est p)\<lparr>ue_enqueued := u32 (util_avg p)\<rparr>
        in if UTIL_EST_FASTUP \<and> ue_ewma ue < ue_enqueued ue
           then util_est_done p (ue\<lparr>ue_ewma := ue_enqueued ue\<rparr>)
           else
             let last_ewma_diff = u32 (ue_enqueued ue - ue_ewma ue);
                 last_enqueued_diff = s64 (last_enqueued_diff - ue_enqueued ue)
             in if within_margin last_ewma_diff UTIL_EST_MARGIN then
                  (if \<not> within_margin last_enqueued_diff UTIL_EST_MARGIN then util_est_done p ue else p)
                else if util_avg p > capacity_orig then p
                else
                  let ewma = u32 (shl (ue_ewma ue) UTIL_EST_WEIGHT_SHIFT);
                      ewma = u32 (ewma + last_ewma_diff);
                      ewma = shr ewma UTIL_EST_WEIGHT_SHIFT
                  in util_est_done p (ue\<lparr>ue_ewma := ewma\<rparr>))"

section \<open>Fitness of a CPU\<close>

text \<open>\<open>fits_capacity(util, capacity)\<close>: 80 percent of the capacity.\<close>

definition fits_capacity :: "int \<Rightarrow> int \<Rightarrow> bool" where
  "fits_capacity cap mx \<longleftrightarrow> u64 (cap * 1280) < u64 (mx * 1024)"

definition util_fits_cpu ::
    "bool \<Rightarrow> int \<Rightarrow> int \<Rightarrow> int \<Rightarrow> int \<Rightarrow> int \<Rightarrow> int \<Rightarrow> int" where
  "util_fits_cpu uclamp_is_used capacity capacity_orig thermal_pressure util uclamp_min uclamp_max =
     (let fits = fits_capacity util capacity in
      if \<not> uclamp_is_used then (if fits then 1 else 0)
      else
        let capacity_orig_thermal = u64 (capacity_orig - thermal_pressure);
            uclamp_max_fits = (capacity_orig = SCHED_CAPACITY_SCALE \<and> uclamp_max = SCHED_CAPACITY_SCALE);
            uclamp_max_fits = (\<not> uclamp_max_fits \<and> uclamp_max \<le> capacity_orig);
            fits = (fits \<or> uclamp_max_fits);
            uclamp_min = min uclamp_min uclamp_max
        in if fits \<and> util < uclamp_min \<and> uclamp_min > capacity_orig_thermal then - 1
           else if fits then 1 else 0)"

text \<open>
  The CPU as \<open>task_fits_cpu\<close> sees it: \<open>uclamp_is_used()\<close>, \<open>capacity_of\<close>, \<open>capacity_orig_of\<close> and
  \<open>arch_scale_thermal_pressure\<close>; the task comes with its effective clamps.
\<close>

definition task_fits_cpu :: "bool \<Rightarrow> int \<Rightarrow> int \<Rightarrow> int \<Rightarrow> sched_avg \<Rightarrow> int \<Rightarrow> int \<Rightarrow> bool" where
  "task_fits_cpu uclamp_is_used capacity capacity_orig thermal_pressure p uclamp_min uclamp_max \<longleftrightarrow>
     util_fits_cpu uclamp_is_used capacity capacity_orig thermal_pressure (task_util_est p) uclamp_min uclamp_max > 0"

text \<open>
  The new \<open>misfit_task_load\<close>; \<open>p\<close> is the task's \<open>nr_cpus_allowed\<close>, whether it fits the CPU, and \<open>task_h_load\<close>.
\<close>

definition update_misfit_status :: "bool \<Rightarrow> (int \<times> bool \<times> int) option \<Rightarrow> int \<Rightarrow> int" where
  "update_misfit_status asym_cpucap p misfit_task_load =
     (if \<not> asym_cpucap then misfit_task_load
      else case p of
        None \<Rightarrow> 0
      | Some (nr_cpus_allowed, fits, h_load) \<Rightarrow>
          if nr_cpus_allowed = 1 then 0 else if fits then 0 else max (u64 h_load) 1)"

definition uclamp_task_util :: "sched_avg \<Rightarrow> int \<Rightarrow> int \<Rightarrow> int" where
  "uclamp_task_util p uclamp_min uclamp_max = min (max (task_util_est p) uclamp_min) uclamp_max"

definition se_update_runnable :: "sched_entity \<Rightarrow> cfs_rq option \<Rightarrow> sched_entity" where
  "se_update_runnable se g =
     (case g of None \<Rightarrow> se | Some gcfs \<Rightarrow> se\<lparr>se_runnable_weight := cfs_h_nr_running gcfs\<rparr>)"

end
