(* ===== verification/Bandwidth.thy ===== *)
theory Bandwidth
  imports Fair_Load
begin

text \<open>
  Bandwidth control of the fair class (kernel/sched/fair.c, kernel/sched/core.c): the pool of runtime of a task group, the
  slices its runqueues take from it, throttling, the period and slack timers, and the setting of quotas.

  \<open>used\<close> is \<open>cfs_bandwidth_used()\<close> and \<open>slice\<close> is \<open>sched_cfs_bandwidth_slice()\<close>.  The calls of the hrtimer
  interface are not modelled: what they return is an argument, and whether the period timer runs is \<open>bw_period_active\<close>.
  Locks are not modelled: each operation is one step.
\<close>

definition RUNTIME_INF :: int where
  "RUNTIME_INF = 2 ^ 64 - 1"

record cfs_bandwidth =
  bw_period :: int
  bw_quota :: int
  bw_runtime :: int
  bw_burst :: int
  bw_runtime_snap :: int
  hierarchical_quota :: int
  bw_idle :: bool
  bw_period_active :: bool
  bw_slack_started :: bool
  nr_periods :: int
  nr_throttled :: int
  nr_burst :: int
  throttled_time :: int
  burst_time :: int

section \<open>The pool\<close>

definition refill_cfs_bandwidth_runtime :: "cfs_bandwidth \<Rightarrow> cfs_bandwidth" where
  "refill_cfs_bandwidth_runtime b =
     (if bw_quota b = RUNTIME_INF then b
      else
        let b = b\<lparr>bw_runtime := u64 (bw_runtime b + bw_quota b)\<rparr>;
            runtime = s64 (bw_runtime_snap b - bw_runtime b);
            b = (if runtime > 0
                 then b\<lparr>burst_time := u64 (burst_time b + runtime), nr_burst := s32 (nr_burst b + 1)\<rparr> else b);
            b = b\<lparr>bw_runtime := min (bw_runtime b) (u64 (bw_quota b + bw_burst b))\<rparr>
        in b\<lparr>bw_runtime_snap := bw_runtime b\<rparr>)"

definition start_cfs_bandwidth :: "cfs_bandwidth \<Rightarrow> cfs_bandwidth" where
  "start_cfs_bandwidth b = (if bw_period_active b then b else b\<lparr>bw_period_active := True\<rparr>)"

definition assign_cfs_rq_runtime0 ::
    "cfs_bandwidth \<Rightarrow> cfs_rq \<Rightarrow> int \<Rightarrow> bool \<times> cfs_bandwidth \<times> cfs_rq" where
  "assign_cfs_rq_runtime0 b cfs target_runtime =
     (let min_amount = u64 (target_runtime - runtime_remaining cfs);
          (amount, b) =
            (if bw_quota b = RUNTIME_INF then (min_amount, b)
             else
               let b = start_cfs_bandwidth b in
               if bw_runtime b > 0 then
                 let amount = min (bw_runtime b) min_amount
                 in (amount, b\<lparr>bw_runtime := u64 (bw_runtime b - amount), bw_idle := False\<rparr>)
               else (0, b));
          cfs = cfs\<lparr>runtime_remaining := s64 (runtime_remaining cfs + amount)\<rparr>
      in (runtime_remaining cfs > 0, b, cfs))"

definition assign_cfs_rq_runtime :: "int \<Rightarrow> cfs_bandwidth \<Rightarrow> cfs_rq \<Rightarrow> bool \<times> cfs_bandwidth \<times> cfs_rq" where
  "assign_cfs_rq_runtime slice b cfs = assign_cfs_rq_runtime0 b cfs slice"

text \<open>The last component of the result: \<open>resched_curr\<close> is called.\<close>

definition account_cfs_rq_runtime0 ::
    "int \<Rightarrow> cfs_bandwidth \<Rightarrow> cfs_rq \<Rightarrow> int \<Rightarrow> cfs_bandwidth \<times> cfs_rq \<times> bool" where
  "account_cfs_rq_runtime0 slice b cfs delta_exec =
     (let cfs = cfs\<lparr>runtime_remaining := s64 (runtime_remaining cfs - delta_exec)\<rparr> in
      if runtime_remaining cfs > 0 then (b, cfs, False)
      else if cfs_throttled cfs then (b, cfs, False)
      else
        let (ret, b, cfs) = assign_cfs_rq_runtime slice b cfs
        in (b, cfs, \<not> ret \<and> cfs_curr cfs \<noteq> None))"

definition account_cfs_rq_runtime ::
    "bool \<Rightarrow> int \<Rightarrow> cfs_bandwidth \<Rightarrow> cfs_rq \<Rightarrow> int \<Rightarrow> cfs_bandwidth \<times> cfs_rq \<times> bool" where
  "account_cfs_rq_runtime used slice b cfs delta_exec =
     (if \<not> used \<or> \<not> runtime_enabled cfs then (b, cfs, False)
      else account_cfs_rq_runtime0 slice b cfs delta_exec)"

definition cfs_rq_throttled :: "bool \<Rightarrow> cfs_rq \<Rightarrow> bool" where
  "cfs_rq_throttled used cfs \<longleftrightarrow> used \<and> cfs_throttled cfs"

definition throttled_hierarchy :: "bool \<Rightarrow> cfs_rq \<Rightarrow> bool" where
  "throttled_hierarchy used cfs \<longleftrightarrow> used \<and> throttle_count cfs \<noteq> 0"

definition throttled_lb_pair :: "bool \<Rightarrow> cfs_rq \<Rightarrow> cfs_rq \<Rightarrow> bool" where
  "throttled_lb_pair used src_cfs dest_cfs \<longleftrightarrow> throttled_hierarchy used src_cfs \<or> throttled_hierarchy used dest_cfs"

section \<open>Throttling\<close>

text \<open>
  The nesting depth \<open>throttle_count\<close> does not overflow.  Whether the runqueue is put on the list of leaf runqueues
  (\<open>list_add_leaf_cfs_rq\<close>) does not concern this component.
\<close>

definition tg_unthrottle_up :: "pelt_rq \<Rightarrow> cfs_rq \<Rightarrow> cfs_rq" where
  "tg_unthrottle_up rq cfs =
     (let cfs = cfs\<lparr>throttle_count := throttle_count cfs - 1\<rparr> in
      if throttle_count cfs \<noteq> 0 then cfs
      else
        let cfs = cfs\<lparr>throttled_clock_pelt_time :=
                    u64 (throttled_clock_pelt_time cfs + u64 (rq_clock_pelt rq - throttled_clock_pelt cfs))\<rparr>
        in if throttled_clock_self cfs = 0 then cfs
           else
             let delta = u64 (prq_clock rq - throttled_clock_self cfs);
                 cfs = cfs\<lparr>throttled_clock_self := 0\<rparr>;
                 delta = (if s64 delta < 0 then 0 else delta)
             in cfs\<lparr>throttled_clock_self_time := u64 (throttled_clock_self_time cfs + delta)\<rparr>)"

definition tg_throttle_down :: "pelt_rq \<Rightarrow> cfs_rq \<Rightarrow> cfs_rq" where
  "tg_throttle_down rq cfs =
     (let cfs = (if throttle_count cfs \<noteq> 0 then cfs
                 else
                   let cfs = cfs\<lparr>throttled_clock_pelt := rq_clock_pelt rq\<rparr>
                   in if cfs_nr_running cfs \<noteq> 0 then cfs\<lparr>throttled_clock_self := prq_clock rq\<rparr> else cfs)
      in cfs\<lparr>throttle_count := throttle_count cfs + 1\<rparr>)"

text \<open>A tree of task groups, each node with what belongs to the group.\<close>

datatype 'a tg_tree = TG (tg_node: 'a) (tg_children: "'a tg_tree list")

text \<open>
  \<open>walk_tg_tree_from\<close>: the visitors see the node and the node of its parent, as left by the visitor before, and return
  whether they fail; a failure ends the walk.
\<close>

fun walk_tg_tree_from ::
    "('a option \<Rightarrow> 'a \<Rightarrow> bool \<times> 'a) \<Rightarrow> ('a \<Rightarrow> bool \<times> 'a) \<Rightarrow> 'a option \<Rightarrow> 'a tg_tree \<Rightarrow> bool \<times> 'a tg_tree"
  and walk_tg_children ::
    "('a option \<Rightarrow> 'a \<Rightarrow> bool \<times> 'a) \<Rightarrow> ('a \<Rightarrow> bool \<times> 'a) \<Rightarrow> 'a \<Rightarrow> 'a tg_tree list \<Rightarrow> bool \<times> 'a tg_tree list" where
  "walk_tg_tree_from down up parent (TG tg children) =
     (let (ret, tg) = down parent tg in
      if ret then (True, TG tg children)
      else
        let (ret, children) = walk_tg_children down up tg children in
        if ret then (True, TG tg children)
        else let (ret, tg) = up tg in (ret, TG tg children))"
| "walk_tg_children down up tg [] = (False, [])"
| "walk_tg_children down up tg (child # children) =
     (let (ret, child) = walk_tg_tree_from down up (Some tg) child in
      if ret then (True, child # children)
      else let (ret, children) = walk_tg_children down up tg children in (ret, child # children))"

definition tg_nop :: "'a \<Rightarrow> bool \<times> 'a" where
  "tg_nop tg = (False, tg)"

text \<open>
  The effect of \<open>throttle_cfs_rq\<close> on the pool and on the runqueue itself, and on the groups below it.  The entities of the group are taken out of the
  runqueues above in \<open>throttle_cfs_rq\<close> of the hierarchy.
\<close>

definition throttle_cfs_rq_self :: "pelt_rq \<Rightarrow> cfs_bandwidth \<Rightarrow> cfs_rq \<Rightarrow> bool \<times> cfs_bandwidth \<times> cfs_rq" where
  "throttle_cfs_rq_self rq b cfs =
     (let (ret, b, cfs) = assign_cfs_rq_runtime0 b cfs 1 in
      if ret then (False, b, cfs)
      else
        let cfs = tg_throttle_down rq cfs;
            cfs = cfs\<lparr>cfs_throttled := True\<rparr>;
            cfs = (if cfs_nr_running cfs \<noteq> 0 then cfs\<lparr>throttled_clock := prq_clock rq\<rparr> else cfs)
        in (True, b, cfs))"

definition throttle_tg_tree :: "pelt_rq \<Rightarrow> cfs_rq tg_tree \<Rightarrow> cfs_rq tg_tree" where
  "throttle_tg_tree rq t =
     (let t = snd (walk_tg_tree_from (\<lambda>_ cfs. (False, tg_throttle_down rq cfs)) tg_nop None t)
      in TG (tg_node t\<lparr>cfs_throttled := True\<rparr>) (tg_children t))"

definition unthrottle_cfs_rq_self :: "pelt_rq \<Rightarrow> cfs_bandwidth \<Rightarrow> cfs_rq \<Rightarrow> cfs_bandwidth \<times> cfs_rq" where
  "unthrottle_cfs_rq_self rq b cfs =
     (let cfs = cfs\<lparr>cfs_throttled := False\<rparr> in
      if throttled_clock cfs \<noteq> 0
      then (b\<lparr>throttled_time := u64 (throttled_time b + u64 (prq_clock rq - throttled_clock cfs))\<rparr>, cfs\<lparr>throttled_clock := 0\<rparr>)
      else (b, cfs))"

definition unthrottle_tg_tree :: "pelt_rq \<Rightarrow> cfs_rq tg_tree \<Rightarrow> cfs_rq tg_tree" where
  "unthrottle_tg_tree rq t =
     snd (walk_tg_tree_from (\<lambda>_. tg_nop) (\<lambda>cfs. (False, tg_unthrottle_up rq cfs)) None
       (TG (tg_node t\<lparr>cfs_throttled := False\<rparr>) (tg_children t)))"

definition sync_throttle :: "bool \<Rightarrow> pelt_rq \<Rightarrow> cfs_rq option \<Rightarrow> cfs_rq \<Rightarrow> cfs_rq" where
  "sync_throttle used rq parent cfs =
     (if \<not> used then cfs
      else case parent of
        None \<Rightarrow> cfs
      | Some pcfs \<Rightarrow> cfs\<lparr>throttle_count := throttle_count pcfs, throttled_clock_pelt := rq_clock_pelt rq\<rparr>)"

text \<open>Whether \<open>throttle_cfs_rq\<close> is called is decided here; its result on the runqueue comes with it.\<close>

definition check_enqueue_throttle ::
    "bool \<Rightarrow> int \<Rightarrow> pelt_rq \<Rightarrow> cfs_bandwidth \<Rightarrow> cfs_rq \<Rightarrow> bool \<times> cfs_bandwidth \<times> cfs_rq" where
  "check_enqueue_throttle used slice rq b cfs =
     (if \<not> used then (False, b, cfs)
      else if \<not> runtime_enabled cfs \<or> cfs_curr cfs \<noteq> None then (False, b, cfs)
      else if cfs_rq_throttled used cfs then (False, b, cfs)
      else
        let (b, cfs, _) = account_cfs_rq_runtime used slice b cfs 0 in
        if runtime_remaining cfs \<le> 0 then throttle_cfs_rq_self rq b cfs else (False, b, cfs))"

text \<open>The first component is the result of the C function, the second whether it called \<open>throttle_cfs_rq\<close> with success.\<close>

definition check_cfs_rq_runtime ::
    "bool \<Rightarrow> pelt_rq \<Rightarrow> cfs_bandwidth \<Rightarrow> cfs_rq \<Rightarrow> bool \<times> bool \<times> cfs_bandwidth \<times> cfs_rq" where
  "check_cfs_rq_runtime used rq b cfs =
     (if \<not> used then (False, False, b, cfs)
      else if \<not> runtime_enabled cfs \<or> runtime_remaining cfs > 0 then (False, False, b, cfs)
      else if cfs_rq_throttled used cfs then (True, False, b, cfs)
      else let (ret, b, cfs) = throttle_cfs_rq_self rq b cfs in (ret, ret, b, cfs))"

section \<open>Returning and distributing runtime\<close>

definition min_cfs_rq_runtime :: int where
  "min_cfs_rq_runtime = 1000000"

definition min_bandwidth_expiration :: int where
  "min_bandwidth_expiration = 2 * 1000000"

definition cfs_bandwidth_slack_period :: int where
  "cfs_bandwidth_slack_period = 5 * 1000000"

text \<open>The period timer: whether its callback is running and the time to its expiry.\<close>

definition runtime_refresh_within :: "bool \<Rightarrow> int \<Rightarrow> int \<Rightarrow> bool" where
  "runtime_refresh_within callback_running remaining min_expire \<longleftrightarrow>
     (if callback_running then True else if remaining < s64 min_expire then True else False)"

definition start_cfs_slack_bandwidth :: "bool \<Rightarrow> int \<Rightarrow> cfs_bandwidth \<Rightarrow> cfs_bandwidth" where
  "start_cfs_slack_bandwidth callback_running remaining b =
     (let min_left = cfs_bandwidth_slack_period + min_bandwidth_expiration in
      if runtime_refresh_within callback_running remaining min_left then b
      else if bw_slack_started b then b
      else b\<lparr>bw_slack_started := True\<rparr>)"

text \<open>\<open>waiting\<close>: the list of throttled runqueues of the group is not empty.\<close>

definition return_cfs_rq_runtime0 ::
    "int \<Rightarrow> bool \<times> int \<Rightarrow> bool \<Rightarrow> cfs_bandwidth \<Rightarrow> cfs_rq \<Rightarrow> cfs_bandwidth \<times> cfs_rq" where
  "return_cfs_rq_runtime0 slice timer waiting b cfs =
     (let slack_runtime = s64 (runtime_remaining cfs - min_cfs_rq_runtime) in
      if slack_runtime \<le> 0 then (b, cfs)
      else
        let b = (if bw_quota b \<noteq> RUNTIME_INF then
                   let b = b\<lparr>bw_runtime := u64 (bw_runtime b + slack_runtime)\<rparr>
                   in if bw_runtime b > slice \<and> waiting then start_cfs_slack_bandwidth (fst timer) (snd timer) b else b
                 else b)
        in (b, cfs\<lparr>runtime_remaining := s64 (runtime_remaining cfs - slack_runtime)\<rparr>))"

definition return_cfs_rq_runtime ::
    "bool \<Rightarrow> int \<Rightarrow> bool \<times> int \<Rightarrow> bool \<Rightarrow> cfs_bandwidth \<Rightarrow> cfs_rq \<Rightarrow> cfs_bandwidth \<times> cfs_rq" where
  "return_cfs_rq_runtime used slice timer waiting b cfs =
     (if \<not> used then (b, cfs)
      else if \<not> runtime_enabled cfs \<or> cfs_nr_running cfs \<noteq> 0 then (b, cfs)
      else return_cfs_rq_runtime0 slice timer waiting b cfs)"

text \<open>
  An entry of the list of throttled runqueues: the runqueue, its CPU, and whether it is queued for an unthrottling on
  that CPU (\<open>throttled_csd_list\<close>).
\<close>

record bw_entry =
  be_cfs :: cfs_rq
  be_cpu :: nat
  be_csd :: bool

definition distribute_amount :: "cfs_bandwidth \<Rightarrow> cfs_rq \<Rightarrow> int" where
  "distribute_amount b cfs =
     (let runtime = u64 (- runtime_remaining cfs + 1) in if runtime > bw_runtime b then bw_runtime b else runtime)"

text \<open>
  The loop of \<open>distribute_cfs_runtime\<close>.  A runqueue of another CPU that has runtime again is queued for unthrottling there;
  the first one of this CPU is remembered in \<open>local\<close> (its place in the list), and one after it, which the source warns about, is
  listed in the last component as unthrottled on the spot.
\<close>

fun distribute_loop ::
    "bool \<Rightarrow> nat \<Rightarrow> nat \<Rightarrow> bw_entry list \<Rightarrow> cfs_bandwidth \<Rightarrow> int \<Rightarrow> bool \<Rightarrow> nat option
       \<Rightarrow> bool \<times> cfs_bandwidth \<times> bw_entry list \<times> nat option \<times> nat list" where
  "distribute_loop used this_cpu i [] b remaining throttled loc = (throttled, b, [], loc, [])"
| "distribute_loop used this_cpu i (e # es) b remaining throttled loc =
     (if remaining = 0 then (True, b, e # es, loc, [])
      else if \<not> cfs_rq_throttled used (be_cfs e) \<or> be_csd e then
        let (t, b, es, l, now) = distribute_loop used this_cpu (Suc i) es b remaining throttled loc
        in (t, b, e # es, l, now)
      else
        let runtime = distribute_amount b (be_cfs e);
            b = b\<lparr>bw_runtime := u64 (bw_runtime b - runtime)\<rparr>;
            remaining = bw_runtime b;
            e = e\<lparr>be_cfs := (be_cfs e)\<lparr>runtime_remaining := s64 (runtime_remaining (be_cfs e) + runtime)\<rparr>\<rparr>;
            resumed = (runtime_remaining (be_cfs e) > 0);
            async = (resumed \<and> (be_cpu e \<noteq> this_cpu \<or> loc \<noteq> None));
            (t, b, es, l, now) =
              distribute_loop used this_cpu (Suc i) es b remaining (throttled \<or> \<not> resumed) (if resumed \<and> \<not> async then Some i else loc)
        in (t, b, (if async \<and> be_cpu e \<noteq> this_cpu then e\<lparr>be_csd := True\<rparr> else e) # es, l,
            if async \<and> be_cpu e = this_cpu then i # now else now))"

definition distribute_cfs_runtime ::
    "bool \<Rightarrow> nat \<Rightarrow> cfs_bandwidth \<Rightarrow> bw_entry list \<Rightarrow> bool \<times> cfs_bandwidth \<times> bw_entry list \<times> nat option \<times> nat list" where
  "distribute_cfs_runtime used this_cpu b es = distribute_loop used this_cpu 0 es b 1 False None"

text \<open>The loop of the period timer that distributes until nothing is left or nothing is throttled.\<close>

partial_function (option) distribute_all ::
    "bool \<Rightarrow> nat \<Rightarrow> bool \<Rightarrow> cfs_bandwidth \<Rightarrow> bw_entry list \<Rightarrow> (cfs_bandwidth \<times> bw_entry list) option" where
  "distribute_all used this_cpu throttled b es =
     (if throttled \<and> bw_runtime b > 0 then
        (case distribute_cfs_runtime used this_cpu b es of
           (throttled, b, es, _) \<Rightarrow> distribute_all used this_cpu throttled b es)
      else Some (b, es))"

text \<open>The result is whether the timer is to be deactivated, the pool and the throttled runqueues.\<close>

definition do_sched_cfs_period_timer ::
    "bool \<Rightarrow> nat \<Rightarrow> cfs_bandwidth \<Rightarrow> bw_entry list \<Rightarrow> int \<Rightarrow> (bool \<times> cfs_bandwidth \<times> bw_entry list) option" where
  "do_sched_cfs_period_timer used this_cpu b es overrun =
     (if bw_quota b = RUNTIME_INF then Some (True, b, es)
      else
        let throttled = (es \<noteq> []);
            b = b\<lparr>nr_periods := s32 (nr_periods b + overrun)\<rparr>;
            b = refill_cfs_bandwidth_runtime b
        in if bw_idle b \<and> \<not> throttled then Some (True, b, es)
           else if \<not> throttled then Some (False, b\<lparr>bw_idle := True\<rparr>, es)
           else
             let b = b\<lparr>nr_throttled := s32 (nr_throttled b + overrun)\<rparr>
             in map_option (\<lambda>(b, es). (False, b\<lparr>bw_idle := False\<rparr>, es)) (distribute_all used this_cpu throttled b es))"

definition do_sched_cfs_slack_timer ::
    "bool \<Rightarrow> nat \<Rightarrow> int \<Rightarrow> bool \<times> int \<Rightarrow> cfs_bandwidth \<Rightarrow> bw_entry list \<Rightarrow> cfs_bandwidth \<times> bw_entry list" where
  "do_sched_cfs_slack_timer used this_cpu slice timer b es =
     (let b = b\<lparr>bw_slack_started := False\<rparr> in
      if runtime_refresh_within (fst timer) (snd timer) min_bandwidth_expiration then (b, es)
      else
        let runtime = (if bw_quota b \<noteq> RUNTIME_INF \<and> bw_runtime b > slice then bw_runtime b else 0) in
        if runtime = 0 then (b, es)
        else case distribute_cfs_runtime used this_cpu b es of (_, b, es, _) \<Rightarrow> (b, es))"

section \<open>Periods\<close>

definition max_cfs_quota_period :: int where
  "max_cfs_quota_period = 1000000000"

definition min_cfs_quota_period :: int where
  "min_cfs_quota_period = 1000000"

text \<open>The doubling of a period that is too short for the timer to keep up with.\<close>

definition scale_cfs_period :: "cfs_bandwidth \<Rightarrow> cfs_bandwidth" where
  "scale_cfs_period b =
     (let nw = u64 (bw_period b * 2) in
      if nw < max_cfs_quota_period
      then b\<lparr>bw_period := nw, bw_quota := u64 (bw_quota b * 2), bw_burst := u64 (bw_burst b * 2)\<rparr>
      else b)"

text \<open>
  \<open>sched_cfs_period_timer\<close>: the overruns that the successive calls of \<open>hrtimer_forward_now\<close> return before one returns zero.
  The result is whether the timer stops, and the state.
\<close>

fun period_timer_loop ::
    "bool \<Rightarrow> nat \<Rightarrow> int list \<Rightarrow> int \<Rightarrow> bool \<Rightarrow> cfs_bandwidth \<Rightarrow> bw_entry list \<Rightarrow> (bool \<times> cfs_bandwidth \<times> bw_entry list) option" where
  "period_timer_loop used this_cpu [] count idle b es = Some (idle, b, es)"
| "period_timer_loop used this_cpu (overrun # overruns) count idle b es =
     (case do_sched_cfs_period_timer used this_cpu b es overrun of
        None \<Rightarrow> None
      | Some (idle, b, es) \<Rightarrow>
          if count + 1 > 3 then period_timer_loop used this_cpu overruns 0 idle (scale_cfs_period b) es
          else period_timer_loop used this_cpu overruns (count + 1) idle b es)"

definition sched_cfs_period_timer ::
    "bool \<Rightarrow> nat \<Rightarrow> int list \<Rightarrow> cfs_bandwidth \<Rightarrow> bw_entry list \<Rightarrow> (bool \<times> cfs_bandwidth \<times> bw_entry list) option" where
  "sched_cfs_period_timer used this_cpu overruns b es =
     map_option (\<lambda>(idle, b, es). (idle, if idle then b\<lparr>bw_period_active := False\<rparr> else b, es))
       (period_timer_loop used this_cpu overruns 0 False b es)"

definition default_cfs_period :: int where
  "default_cfs_period = 100000000"

definition init_cfs_bandwidth :: "cfs_bandwidth \<Rightarrow> cfs_bandwidth option \<Rightarrow> cfs_bandwidth" where
  "init_cfs_bandwidth b parent =
     b\<lparr>bw_runtime := 0, bw_quota := RUNTIME_INF, bw_period := default_cfs_period, bw_burst := 0,
       hierarchical_quota := (case parent of Some p \<Rightarrow> hierarchical_quota p | None \<Rightarrow> s64 RUNTIME_INF),
       bw_slack_started := False\<rparr>"

definition update_runtime_enabled :: "(cfs_bandwidth \<times> cfs_rq) list \<Rightarrow> (cfs_bandwidth \<times> cfs_rq) list" where
  "update_runtime_enabled tgs =
     map (\<lambda>(b, cfs). (b, cfs\<lparr>runtime_enabled := (bw_quota b \<noteq> RUNTIME_INF)\<rparr>)) tgs"

definition cfs_task_bw_constrained :: "bool \<Rightarrow> cfs_bandwidth \<Rightarrow> cfs_rq \<Rightarrow> bool" where
  "cfs_task_bw_constrained used b cfs =
     (if \<not> used then False
      else if runtime_enabled cfs \<or> u64 (hierarchical_quota b) \<noteq> RUNTIME_INF then True
      else False)"

section \<open>Setting a quota\<close>

definition NSEC_PER_USEC :: int where
  "NSEC_PER_USEC = 1000"

text \<open>\<open>max_cfs_runtime\<close> is \<open>MAX_BW * NSEC_PER_USEC\<close>.\<close>

definition BW_SHIFT :: nat where
  "BW_SHIFT = 20"

definition MAX_BW_BITS :: nat where
  "MAX_BW_BITS = 64 - BW_SHIFT"

definition MAX_BW :: int where
  "MAX_BW = shl 1 MAX_BW_BITS - 1"

definition max_cfs_runtime :: int where
  "max_cfs_runtime = MAX_BW * NSEC_PER_USEC"

definition to_ratio :: "int \<Rightarrow> int \<Rightarrow> int" where
  "to_ratio period runtime =
     (if runtime = RUNTIME_INF then shl 1 BW_SHIFT
      else if period = 0 then 0
      else u64 (shl runtime BW_SHIFT) div period)"

definition tg_get_cfs_quota :: "cfs_bandwidth \<Rightarrow> int" where
  "tg_get_cfs_quota b =
     (if bw_quota b = RUNTIME_INF then - 1 else s64 (bw_quota b div NSEC_PER_USEC))"

definition tg_get_cfs_period :: "cfs_bandwidth \<Rightarrow> int" where
  "tg_get_cfs_period b = s64 (bw_period b div NSEC_PER_USEC)"

text \<open>The node of the tree carries the identity of the group.\<close>

definition normalize_cfs_quota :: "nat \<Rightarrow> int \<Rightarrow> int \<Rightarrow> nat \<times> cfs_bandwidth \<Rightarrow> int" where
  "normalize_cfs_quota d_tg d_period d_quota node =
     (let (period, quota) =
            (if fst node = d_tg then (d_period, d_quota)
             else (u64 (tg_get_cfs_period (snd node)), u64 (tg_get_cfs_quota (snd node))))
      in if quota = RUNTIME_INF then RUNTIME_INF else to_ratio period quota)"

text \<open>\<open>on_dfl\<close>: the hierarchy is that of cgroup version 2.  \<open>s64\<close> values are compared with \<open>RUNTIME_INF\<close> as \<open>u64\<close>.\<close>

definition tg_cfs_schedulable_down ::
    "bool \<Rightarrow> nat \<Rightarrow> int \<Rightarrow> int \<Rightarrow> (nat \<times> cfs_bandwidth) option \<Rightarrow> nat \<times> cfs_bandwidth \<Rightarrow> bool \<times> (nat \<times> cfs_bandwidth)" where
  "tg_cfs_schedulable_down on_dfl d_tg d_period d_quota parent node =
     (case parent of
        None \<Rightarrow> (False, fst node, (snd node)\<lparr>hierarchical_quota := s64 RUNTIME_INF\<rparr>)
      | Some p \<Rightarrow>
          let quota = s64 (normalize_cfs_quota d_tg d_period d_quota node);
              parent_quota = hierarchical_quota (snd p)
          in if \<not> on_dfl \<and> u64 quota \<noteq> RUNTIME_INF \<and> u64 parent_quota \<noteq> RUNTIME_INF \<and> quota > parent_quota
             then (True, node)
             else
               let quota = (if u64 quota = RUNTIME_INF then parent_quota
                            else if on_dfl \<and> u64 parent_quota \<noteq> RUNTIME_INF then min quota parent_quota
                            else quota)
               in (False, fst node, (snd node)\<lparr>hierarchical_quota := quota\<rparr>))"

definition cfs_schedulable ::
    "bool \<Rightarrow> nat \<Rightarrow> int \<Rightarrow> int \<Rightarrow> (nat \<times> cfs_bandwidth) tg_tree \<Rightarrow> bool \<times> (nat \<times> cfs_bandwidth) tg_tree" where
  "cfs_schedulable on_dfl d_tg period quota root =
     (let (period, quota) =
            (if quota \<noteq> RUNTIME_INF then (period div NSEC_PER_USEC, quota div NSEC_PER_USEC) else (period, quota))
      in walk_tg_tree_from (tg_cfs_schedulable_down on_dfl d_tg period quota) tg_nop None root)"

datatype errno = EINVAL

text \<open>
  \<open>tg_set_cfs_bandwidth\<close> of the group \<open>tg\<close>: the error, the tree of groups and the runqueues of the group on the online CPUs, each with
  whether \<open>unthrottle_cfs_rq\<close> is called for it.
\<close>

definition tg_set_cfs_bandwidth ::
    "bool \<Rightarrow> nat \<Rightarrow> bool \<Rightarrow> int \<Rightarrow> int \<Rightarrow> int \<Rightarrow> (nat \<times> cfs_bandwidth) tg_tree \<Rightarrow> cfs_rq list
       \<Rightarrow> errno option \<times> (nat \<times> cfs_bandwidth) tg_tree \<times> (cfs_rq \<times> bool) list" where
  "tg_set_cfs_bandwidth on_dfl tg is_root period quota burst root cfss =
     (let err = (Some EINVAL, root, map (\<lambda>c. (c, False)) cfss) in
      if is_root then err
      else if quota < min_cfs_quota_period \<or> period < min_cfs_quota_period then err
      else if period > max_cfs_quota_period then err
      else if quota \<noteq> RUNTIME_INF \<and> quota > max_cfs_runtime then err
      else if quota \<noteq> RUNTIME_INF \<and> (burst > quota \<or> u64 (burst + quota) > max_cfs_runtime) then err
      else
        let (ret, root) = cfs_schedulable on_dfl tg period quota root in
        if ret then (Some EINVAL, root, map (\<lambda>c. (c, False)) cfss)
        else
          let enabled = (quota \<noteq> RUNTIME_INF);
              upd = (\<lambda>b. let b = b\<lparr>bw_period := period, bw_quota := quota, bw_burst := burst\<rparr>;
                             b = refill_cfs_bandwidth_runtime b
                         in if enabled then start_cfs_bandwidth b else b)
          in (None, map_tg_tree (\<lambda>(i, b). (i, if i = tg then upd b else b)) root,
              map (\<lambda>c. (c\<lparr>runtime_enabled := enabled, runtime_remaining := 0\<rparr>, cfs_throttled c)) cfss))"

definition tg_set_cfs_quota ::
    "bool \<Rightarrow> nat \<times> cfs_bandwidth \<Rightarrow> bool \<Rightarrow> int \<Rightarrow> (nat \<times> cfs_bandwidth) tg_tree \<Rightarrow> cfs_rq list
       \<Rightarrow> errno option \<times> (nat \<times> cfs_bandwidth) tg_tree \<times> (cfs_rq \<times> bool) list" where
  "tg_set_cfs_quota on_dfl tg is_root cfs_quota_us root cfss =
     (let period = bw_period (snd tg); burst = bw_burst (snd tg) in
      if cfs_quota_us < 0 then tg_set_cfs_bandwidth on_dfl (fst tg) is_root period RUNTIME_INF burst root cfss
      else if cfs_quota_us \<le> (2 ^ 64 - 1) div NSEC_PER_USEC
      then tg_set_cfs_bandwidth on_dfl (fst tg) is_root period (cfs_quota_us * NSEC_PER_USEC) burst root cfss
      else (Some EINVAL, root, map (\<lambda>c. (c, False)) cfss))"

definition tg_set_cfs_period ::
    "bool \<Rightarrow> nat \<times> cfs_bandwidth \<Rightarrow> bool \<Rightarrow> int \<Rightarrow> (nat \<times> cfs_bandwidth) tg_tree \<Rightarrow> cfs_rq list
       \<Rightarrow> errno option \<times> (nat \<times> cfs_bandwidth) tg_tree \<times> (cfs_rq \<times> bool) list" where
  "tg_set_cfs_period on_dfl tg is_root cfs_period_us root cfss =
     (if u64 cfs_period_us > (2 ^ 64 - 1) div NSEC_PER_USEC then (Some EINVAL, root, map (\<lambda>c. (c, False)) cfss)
      else tg_set_cfs_bandwidth on_dfl (fst tg) is_root (u64 cfs_period_us * NSEC_PER_USEC) (bw_quota (snd tg)) (bw_burst (snd tg)) root cfss)"

definition tg_set_cfs_burst ::
    "bool \<Rightarrow> nat \<times> cfs_bandwidth \<Rightarrow> bool \<Rightarrow> int \<Rightarrow> (nat \<times> cfs_bandwidth) tg_tree \<Rightarrow> cfs_rq list
       \<Rightarrow> errno option \<times> (nat \<times> cfs_bandwidth) tg_tree \<times> (cfs_rq \<times> bool) list" where
  "tg_set_cfs_burst on_dfl tg is_root cfs_burst_us root cfss =
     (if u64 cfs_burst_us > (2 ^ 64 - 1) div NSEC_PER_USEC then (Some EINVAL, root, map (\<lambda>c. (c, False)) cfss)
      else tg_set_cfs_bandwidth on_dfl (fst tg) is_root (bw_period (snd tg)) (bw_quota (snd tg)) (u64 cfs_burst_us * NSEC_PER_USEC) root cfss)"

end
