(* ===== verification/Eevdf.thy ===== *)
theory Eevdf
  imports Load_Weight
begin

text \<open>
  The EEVDF core of the fair class (kernel/sched/fair.c): the timeline of runnable entities, the weighted
  average of their virtual runtimes, eligibility, the pick of the earliest eligible virtual deadline, lag, placement
  and the advance of the minimum virtual runtime.

  A function whose C name starts with two underscores where one without them exists too is written with
  the suffix 0 here (\<open>__pick_eevdf\<close> is \<open>pick_eevdf0\<close>).  The features (\<open>sched_feat\<close>), the base slice and the
  length of a tick are those of the environment record.
\<close>

record fair_env =
  RUN_TO_PARITY :: bool
  PLACE_LAG :: bool
  PLACE_DEADLINE_INITIAL :: bool
  NEXT_BUDDY :: bool
  sysctl_sched_base_slice :: int
  TICK_NSEC :: int

section \<open>Virtual time\<close>

definition max_vruntime :: "int \<Rightarrow> int \<Rightarrow> int" where
  "max_vruntime mx vruntime = (if s64 (vruntime - mx) > 0 then vruntime else mx)"

definition min_vruntime :: "int \<Rightarrow> int \<Rightarrow> int" where
  "min_vruntime mn vruntime = (if s64 (vruntime - mn) < 0 then vruntime else mn)"

definition entity_before :: "sched_entity \<Rightarrow> sched_entity \<Rightarrow> bool" where
  "entity_before a b \<longleftrightarrow> s64 (se_vruntime a - se_vruntime b) < 0"

definition entity_key :: "cfs_rq \<Rightarrow> sched_entity \<Rightarrow> int" where
  "entity_key cfs se = s64 (se_vruntime se - cfs_min_vruntime cfs)"

definition avg_vruntime_add :: "cfs_rq \<Rightarrow> sched_entity \<Rightarrow> cfs_rq" where
  "avg_vruntime_add cfs se =
     (let w = scale_load_down (weight (se_load se));
          key = entity_key cfs se
      in cfs\<lparr>cfs_avg_vruntime := s64 (cfs_avg_vruntime cfs + key * w),
             cfs_avg_load := u64 (cfs_avg_load cfs + w)\<rparr>)"

definition avg_vruntime_sub :: "cfs_rq \<Rightarrow> sched_entity \<Rightarrow> cfs_rq" where
  "avg_vruntime_sub cfs se =
     (let w = scale_load_down (weight (se_load se));
          key = entity_key cfs se
      in cfs\<lparr>cfs_avg_vruntime := s64 (cfs_avg_vruntime cfs - key * w),
             cfs_avg_load := u64 (cfs_avg_load cfs - w)\<rparr>)"

definition avg_vruntime_update :: "cfs_rq \<Rightarrow> int \<Rightarrow> cfs_rq" where
  "avg_vruntime_update cfs delta =
     cfs\<lparr>cfs_avg_vruntime := s64 (cfs_avg_vruntime cfs - cfs_avg_load cfs * delta)\<rparr>"

text \<open>\<open>div_s64\<close> takes a 32-bit divisor; a division by zero does not trap here but gives 0.\<close>

definition div_s64 :: "int \<Rightarrow> int \<Rightarrow> int" where
  "div_s64 dividend divisor = c_div dividend (s32 divisor)"

text \<open>
  The sum and the load of the timeline together with the current entity, as the first lines of \<open>avg_vruntime\<close>
  and of \<open>entity_eligible\<close> compute them.
\<close>

definition avg_and_load :: "cfs_rq \<Rightarrow> int \<times> int" where
  "avg_and_load cfs =
     (let avg = cfs_avg_vruntime cfs; load = s64 (cfs_avg_load cfs) in
      case cfs_curr cfs of
        Some cur \<Rightarrow>
          if se_on_rq cur then
            let w = scale_load_down (weight (se_load cur))
            in (s64 (avg + entity_key cfs cur * w), s64 (load + w))
          else (avg, load)
      | None \<Rightarrow> (avg, load))"

definition avg_vruntime :: "cfs_rq \<Rightarrow> int" where
  "avg_vruntime cfs =
     (let (avg, load) = avg_and_load cfs;
          avg = (if load \<noteq> 0 then div_s64 (if avg < 0 then s64 (avg - (load - 1)) else avg) load else avg)
      in u64 (cfs_min_vruntime cfs + avg))"

definition entity_eligible :: "cfs_rq \<Rightarrow> sched_entity \<Rightarrow> bool" where
  "entity_eligible cfs se =
     (let (avg, load) = avg_and_load cfs in avg \<ge> s64 (entity_key cfs se * load))"

text \<open>\<open>clamp(lag, -limit, limit)\<close>; the scaling of the limit may cache the inverse weight of the entity.\<close>

definition update_entity_lag :: "fair_env \<Rightarrow> cfs_rq \<Rightarrow> sched_entity \<Rightarrow> sched_entity" where
  "update_entity_lag env cfs se =
     (let lag = s64 (avg_vruntime cfs - se_vruntime se);
          (limit, se) = calc_delta_fair (max (u64 (2 * se_slice se)) (TICK_NSEC env)) se;
          limit = s64 limit
      in se\<lparr>se_vlag := min (max lag (s64 (- limit))) limit\<rparr>)"

section \<open>The timeline\<close>

definition deadline_gt :: "int \<Rightarrow> int \<Rightarrow> bool" where
  "deadline_gt a b \<longleftrightarrow> s64 (a - b) > 0"

text \<open>\<open>__update_min_deadline\<close> and \<open>min_deadline_update\<close>; a node is given with the entities of its children.\<close>

definition update_min_deadline :: "sched_entity \<Rightarrow> sched_entity option \<Rightarrow> sched_entity" where
  "update_min_deadline se node =
     (case node of
        None \<Rightarrow> se
      | Some rse \<Rightarrow>
          if deadline_gt (se_min_deadline se) (se_min_deadline rse)
          then se\<lparr>se_min_deadline := se_min_deadline rse\<rparr> else se)"

definition min_deadline_update ::
    "sched_entity \<Rightarrow> sched_entity option \<Rightarrow> sched_entity option \<Rightarrow> sched_entity \<times> bool" where
  "min_deadline_update se rb_left rb_right =
     (let old_min_deadline = se_min_deadline se;
          se = se\<lparr>se_min_deadline := se_deadline se\<rparr>;
          se = update_min_deadline se rb_right;
          se = update_min_deadline se rb_left
      in (se, se_min_deadline se = old_min_deadline))"

definition min_deadline_cb :: "sched_entity rb_augment_callbacks" where
  "min_deadline_cb =
     \<lparr>rb_compute = min_deadline_update,
      rb_copy = (\<lambda>old new. new\<lparr>se_min_deadline := se_min_deadline old\<rparr>)\<rparr>"

definition enqueue_entity0 :: "cfs_rq \<Rightarrow> sched_entity \<Rightarrow> cfs_rq option" where
  "enqueue_entity0 cfs se =
     (let cfs = avg_vruntime_add cfs se;
          se = se\<lparr>se_min_deadline := se_deadline se\<rparr>
      in map_option (\<lambda>tl. cfs\<lparr>tasks_timeline := tl\<rparr>)
           (rb_add_augmented_cached min_deadline_cb se_id entity_before se (tasks_timeline cfs)))"

definition dequeue_entity0 :: "cfs_rq \<Rightarrow> sched_entity \<Rightarrow> cfs_rq option" where
  "dequeue_entity0 cfs se =
     map_option (\<lambda>tl. avg_vruntime_sub (cfs\<lparr>tasks_timeline := tl\<rparr>) se)
       (rb_erase_augmented_cached min_deadline_cb se_id (se_id se) (tasks_timeline cfs))"

definition pick_first_entity :: "cfs_rq \<Rightarrow> sched_entity option" where
  "pick_first_entity cfs = rb_first_cached se_id (tasks_timeline cfs)"

definition pick_last_entity :: "cfs_rq \<Rightarrow> sched_entity option" where
  "pick_last_entity cfs = rb_last (rb_root (tasks_timeline cfs))"

section \<open>Minimum virtual runtime\<close>

definition update_min_vruntime0 :: "cfs_rq \<Rightarrow> int \<Rightarrow> int \<times> cfs_rq" where
  "update_min_vruntime0 cfs vruntime =
     (let delta = s64 (vruntime - cfs_min_vruntime cfs) in
      if delta > 0 then (vruntime, avg_vruntime_update cfs delta) else (cfs_min_vruntime cfs, cfs))"

definition update_min_vruntime :: "cfs_rq \<Rightarrow> cfs_rq" where
  "update_min_vruntime cfs =
     (let se = pick_first_entity cfs;
          cur = (case cfs_curr cfs of Some c \<Rightarrow> if se_on_rq c then Some c else None | None \<Rightarrow> None);
          vruntime = (case cur of Some c \<Rightarrow> se_vruntime c | None \<Rightarrow> cfs_min_vruntime cfs);
          vruntime = (case se of
                        None \<Rightarrow> vruntime
                      | Some s \<Rightarrow> if cur = None then se_vruntime s else min_vruntime vruntime (se_vruntime s));
          (mv, cfs) = update_min_vruntime0 cfs vruntime
      in cfs\<lparr>cfs_min_vruntime := mv\<rparr>)"

section \<open>The pick\<close>

text \<open>
  The first loop of \<open>__pick_eevdf\<close>, from the node at the root of a subtree; \<open>best_left\<close> is the subtree below
  the node the C variable points to.  Every exit of the loop hands both on.
\<close>

fun pick_eevdf_search ::
    "(sched_entity \<Rightarrow> bool) \<Rightarrow> sched_entity rbt \<Rightarrow> sched_entity option \<Rightarrow> sched_entity rbt
       \<Rightarrow> sched_entity option \<times> sched_entity rbt" where
  "pick_eevdf_search eligible E best best_left = (best, best_left)"
| "pick_eevdf_search eligible (N c l se r) best best_left =
     (if \<not> eligible se then pick_eevdf_search eligible l best best_left
      else
        let best = (case best of
                      None \<Rightarrow> Some se
                    | Some b \<Rightarrow> if deadline_gt (se_deadline b) (se_deadline se) then Some se else Some b);
            best_left = (case rb_elem l of
                           None \<Rightarrow> best_left
                         | Some left \<Rightarrow>
                             (case rb_elem best_left of
                                None \<Rightarrow> l
                              | Some bl \<Rightarrow>
                                  if deadline_gt (se_min_deadline bl) (se_min_deadline left) then l else best_left))
        in if map_option se_min_deadline (rb_elem l) = Some (se_min_deadline se) then (best, best_left)
           else if se_deadline se = se_min_deadline se then (best, best_left)
           else pick_eevdf_search eligible r best best_left)"

text \<open>The second loop: follow \<open>min_deadline\<close> down to the node that has it as its deadline.\<close>

fun pick_eevdf_heap :: "sched_entity rbt \<Rightarrow> sched_entity option" where
  "pick_eevdf_heap E = None"
| "pick_eevdf_heap (N c l se r) =
     (if se_deadline se = se_min_deadline se then Some se
      else if map_option se_min_deadline (rb_elem l) = Some (se_min_deadline se) then pick_eevdf_heap l
      else pick_eevdf_heap r)"

definition pick_eevdf0 :: "fair_env \<Rightarrow> cfs_rq \<Rightarrow> sched_entity option" where
  "pick_eevdf0 env cfs =
     (let cur = (case cfs_curr cfs of
                    Some c \<Rightarrow> if \<not> se_on_rq c \<or> \<not> entity_eligible cfs c then None else Some c
                  | None \<Rightarrow> None)
      in if RUN_TO_PARITY env \<and> (case cur of Some c \<Rightarrow> u64 (se_vlag c) = se_deadline c | None \<Rightarrow> False)
         then cur
         else
           case pick_eevdf_search (entity_eligible cfs) (rb_root (tasks_timeline cfs)) cur E of
             (best, best_left) \<Rightarrow>
               (case (best, rb_elem best_left) of
                  (Some b, Some bl) \<Rightarrow>
                    if s64 (se_min_deadline bl - se_deadline b) > 0 then best
                    else pick_eevdf_heap best_left
                | _ \<Rightarrow> best))"

definition pick_eevdf :: "fair_env \<Rightarrow> cfs_rq \<Rightarrow> sched_entity option" where
  "pick_eevdf env cfs =
     (case pick_eevdf0 env cfs of
        Some se \<Rightarrow> Some se
      | None \<Rightarrow> pick_first_entity cfs)"

section \<open>Placement\<close>

text \<open>\<open>initial\<close> is the flag \<open>ENQUEUE_INITIAL\<close>.\<close>

definition place_entity :: "fair_env \<Rightarrow> cfs_rq \<Rightarrow> sched_entity \<Rightarrow> bool \<Rightarrow> sched_entity" where
  "place_entity env cfs se initial =
     (let vruntime = avg_vruntime cfs;
          se = se\<lparr>se_slice := sysctl_sched_base_slice env\<rparr>;
          (vslice, se) = calc_delta_fair (se_slice se) se;
          lag = (if PLACE_LAG env \<and> cfs_nr_running cfs \<noteq> 0 then
                   let load = cfs_avg_load cfs;
                       load = (case cfs_curr cfs of
                                 Some cur \<Rightarrow>
                                   if se_on_rq cur then u64 (load + scale_load_down (weight (se_load cur))) else load
                               | None \<Rightarrow> load);
                       lag = s64 (se_vlag se * (load + scale_load_down (weight (se_load se))));
                       load = (if load = 0 then 1 else load)
                   in div_s64 lag load
                 else 0);
          se = se\<lparr>se_vruntime := u64 (vruntime - lag)\<rparr>;
          vslice = (if PLACE_DEADLINE_INITIAL env \<and> initial then vslice div 2 else vslice)
      in se\<lparr>se_deadline := u64 (se_vruntime se + vslice)\<rparr>)"

text \<open>
  \<open>update_deadline\<close>: the entity, whether it got a new deadline with others waiting (\<open>resched_curr\<close> and
  \<open>clear_buddies\<close> in the source).
\<close>

definition update_deadline :: "fair_env \<Rightarrow> int \<Rightarrow> sched_entity \<Rightarrow> sched_entity \<times> bool" where
  "update_deadline env nr_running se =
     (if s64 (se_vruntime se - se_deadline se) < 0 then (se, False)
      else
        let se = se\<lparr>se_slice := sysctl_sched_base_slice env\<rparr>;
            (vslice, se) = calc_delta_fair (se_slice se) se
        in (se\<lparr>se_deadline := u64 (se_vruntime se + vslice)\<rparr>, nr_running > 1))"

section \<open>The timeline as an ordered, augmented tree\<close>

text \<open>
  The data of an entity that the tree operations keep is everything but \<open>min_deadline\<close>, which is the augmented
  value.  In a window \<open>w\<close> the cyclic comparisons are comparisons of offsets.
\<close>

definition se_strip :: "sched_entity \<Rightarrow> sched_entity" where
  "se_strip se = se\<lparr>se_min_deadline := 0\<rparr>"

definition dl_min :: "int \<Rightarrow> int option \<Rightarrow> int" where
  "dl_min a b = (case b of None \<Rightarrow> a | Some d \<Rightarrow> if deadline_gt a d then d else a)"

definition min_deadline_calc :: "sched_entity \<Rightarrow> int option \<Rightarrow> int option \<Rightarrow> int" where
  "min_deadline_calc se l r = dl_min (dl_min (se_deadline se) r) l"

definition se_valid :: "int \<Rightarrow> sched_entity \<Rightarrow> bool" where
  "se_valid w se \<longleftrightarrow> in_window w (se_vruntime se) \<and> in_window w (se_deadline se)"

definition se_pos :: "int \<Rightarrow> sched_entity \<Rightarrow> int" where
  "se_pos w se = clock_off w (se_vruntime se)"

lemma se_strip_simps [simp]:
  "se_vruntime (se_strip se) = se_vruntime se" "se_deadline (se_strip se) = se_deadline se"
  "se_load (se_strip se) = se_load se" "se_id (se_strip se) = se_id se"
  "se_strip (se\<lparr>se_min_deadline := d\<rparr>) = se_strip se" "se_strip (se_strip se) = se_strip se"
  "se_on_rq (se_strip se) = se_on_rq se"
  by (simp_all add: se_strip_def)

lemma se_valid_strip [simp]: "se_valid w (se_strip se) = se_valid w se" "se_pos w (se_strip se) = se_pos w se"
  by (simp_all add: se_valid_def se_pos_def)

lemma update_min_deadline_eq:
  "update_min_deadline se node = se\<lparr>se_min_deadline := dl_min (se_min_deadline se) (map_option se_min_deadline node)\<rparr>"
  by (cases node) (auto simp: update_min_deadline_def dl_min_def)

lemma min_deadline_update_eq:
  "min_deadline_update se l r =
     (let d = min_deadline_calc se (map_option se_min_deadline l) (map_option se_min_deadline r)
      in (se\<lparr>se_min_deadline := d\<rparr>, d = se_min_deadline se))"
  by (simp add: min_deadline_update_def update_min_deadline_eq min_deadline_calc_def Let_def)

lemma dl_min_window:
  assumes "in_window w a" "pred_option (in_window w) b"
  shows "in_window w (dl_min a b)"
    "clock_off w (dl_min a b) = (case b of None \<Rightarrow> clock_off w a | Some d \<Rightarrow> min (clock_off w a) (clock_off w d))"
  using assms by (auto simp: dl_min_def deadline_gt_def window_diff split: option.split)

lemma min_deadline_calc_window:
  assumes "se_valid w se" "pred_option (in_window w) l" "pred_option (in_window w) r"
  shows "in_window w (min_deadline_calc se l r)"
  using assms by (simp add: min_deadline_calc_def dl_min_window se_valid_def)

lemma in_window_eqI: "in_window w a \<Longrightarrow> in_window w b \<Longrightarrow> clock_off w a = clock_off w b \<Longrightarrow> a = b"
  by (auto simp: in_window_def intro: window_off_inj)

lemma min_deadline_calc_rotate:
  assumes "se_valid w j" "se_valid w k" "pred_option (in_window w) u" "pred_option (in_window w) v" "pred_option (in_window w) x"
  shows "min_deadline_calc j u (Some (min_deadline_calc k v x)) = min_deadline_calc k (Some (min_deadline_calc j u v)) x"
proof (rule in_window_eqI [of w])
  note vs = assms min_deadline_calc_window [OF assms(2,4,5)] min_deadline_calc_window [OF assms(1,3,4)]
  show "in_window w (min_deadline_calc j u (Some (min_deadline_calc k v x)))"
    "in_window w (min_deadline_calc k (Some (min_deadline_calc j u v)) x)"
    using vs by (auto intro!: min_deadline_calc_window)
  show "clock_off w (min_deadline_calc j u (Some (min_deadline_calc k v x))) =
      clock_off w (min_deadline_calc k (Some (min_deadline_calc j u v)) x)"
    using vs by (cases u; cases v; cases x) (simp_all add: min_deadline_calc_def dl_min_window se_valid_def)
qed

interpretation timeline: rb_ordered min_deadline_cb se_strip se_min_deadline min_deadline_calc
    "se_valid w" "in_window w" entity_before se_id "se_pos w" se_id for w
proof
  fix x a b
  show "se_strip (fst (rb_compute min_deadline_cb x a b)) = se_strip x"
    by (simp add: min_deadline_cb_def min_deadline_update_eq Let_def)
  show "se_min_deadline (fst (rb_compute min_deadline_cb x a b)) =
      min_deadline_calc (se_strip x) (map_option se_min_deadline a) (map_option se_min_deadline b)"
    by (simp add: min_deadline_cb_def min_deadline_update_eq min_deadline_calc_def Let_def)
  show "snd (rb_compute min_deadline_cb x a b) \<Longrightarrow>
      se_min_deadline (fst (rb_compute min_deadline_cb x a b)) = se_min_deadline x"
    by (simp add: min_deadline_cb_def min_deadline_update_eq Let_def)
next
  fix x y
  show "se_strip (rb_copy min_deadline_cb x y) = se_strip y" "se_min_deadline (rb_copy min_deadline_cb x y) = se_min_deadline x"
    by (simp_all add: min_deadline_cb_def)
  show "se_valid w (se_strip x) \<Longrightarrow> se_valid w (se_strip y) \<Longrightarrow>
      entity_before x y \<longleftrightarrow> se_pos w (se_strip x) < se_pos w (se_strip y)"
    by (simp add: entity_before_def se_valid_def se_pos_def window_diff [of w])
next
  fix k u v
  show "se_valid w k \<Longrightarrow> pred_option (in_window w) u \<Longrightarrow> pred_option (in_window w) v \<Longrightarrow>
      in_window w (min_deadline_calc k u v)"
    by (rule min_deadline_calc_window)
next
  fix j k u v x
  show "se_valid w j \<Longrightarrow> se_valid w k \<Longrightarrow> pred_option (in_window w) u \<Longrightarrow> pred_option (in_window w) v \<Longrightarrow>
      pred_option (in_window w) x \<Longrightarrow>
      min_deadline_calc j u (Some (min_deadline_calc k v x)) = min_deadline_calc k (Some (min_deadline_calc j u v)) x"
    by (rule min_deadline_calc_rotate)
qed simp

end
