(* ===== verification/Eevdf_Pick.thy ===== *)
theory Eevdf_Pick
  imports Eevdf
begin

text \<open>
  Correctness of the EEVDF core: the search of \<open>__pick_eevdf\<close> over the augmented timeline, the sums kept with
  it, and the properties of pick, eligibility, lag and minimum virtual runtime.
\<close>

section \<open>The minimum deadline of a subtree\<close>

abbreviation se_aug_ok :: "sched_entity rbt \<Rightarrow> bool" where
  "se_aug_ok \<equiv> rb_aug_ok se_strip se_min_deadline min_deadline_calc"

definition se_tree_ok :: "int \<Rightarrow> sched_entity rbt \<Rightarrow> bool" where
  "se_tree_ok w t \<longleftrightarrow> se_aug_ok t \<and> (\<forall>se \<in> set (rb_inorder t). se_valid w se) \<and> sorted (map (se_pos w) (rb_inorder t))"

lemma se_tree_okD:
  assumes "se_tree_ok w (N c l se r)"
  shows "se_tree_ok w l" "se_tree_ok w r" "se_valid w se"
    "se_min_deadline se = min_deadline_calc se (raug se_min_deadline l) (raug se_min_deadline r)"
    "\<forall>x \<in> set (rb_inorder l). se_pos w x \<le> se_pos w se" "\<forall>x \<in> set (rb_inorder r). se_pos w se \<le> se_pos w x"
  using assms by (auto simp: se_tree_ok_def sorted_append min_deadline_calc_def)

lemma raug_window:
  "se_tree_ok w t \<Longrightarrow> pred_option (in_window w) (raug se_min_deadline t)"
proof (induction t)
  case (N c l se r)
  then show ?case using se_tree_okD [OF N.prems] by (auto intro: min_deadline_calc_window)
qed simp

text \<open>The augmented value of a subtree is a lower bound of its deadlines.\<close>

lemma min_deadline_le:
  assumes "se_tree_ok w t" "x \<in> set (rb_inorder t)" "raug se_min_deadline t = Some d"
  shows "clock_off w d \<le> clock_off w (se_deadline x)"
  using assms
proof (induction t arbitrary: d)
  case (N c l se r)
  note t = se_tree_okD [OF N.prems(1)]
  note win = raug_window [OF t(1)] raug_window [OF t(2)]
  have d: "d = min_deadline_calc se (raug se_min_deadline l) (raug se_min_deadline r)" using N.prems(3) t(4) by simp
  have off: "clock_off w d = (let m = (case raug se_min_deadline r of None \<Rightarrow> clock_off w (se_deadline se)
        | Some e \<Rightarrow> min (clock_off w (se_deadline se)) (clock_off w e)) in
      case raug se_min_deadline l of None \<Rightarrow> m | Some e \<Rightarrow> min m (clock_off w e))"
    using t(3) win by (simp add: d min_deadline_calc_def dl_min_window se_valid_def Let_def split: option.split)
  show ?case
  proof (cases "x \<in> set (rb_inorder l)")
    case True
    then obtain e where "raug se_min_deadline l = Some e" by (cases l) auto
    with N.IH(1) [OF t(1) True] off show ?thesis by (auto simp: Let_def min_le_iff_disj split: option.splits)
  next
    case nl: False
    show ?thesis
    proof (cases "x \<in> set (rb_inorder r)")
      case True
      then obtain e where "raug se_min_deadline r = Some e" by (cases r) auto
      with N.IH(2) [OF t(2) True] off show ?thesis by (auto simp: Let_def min_le_iff_disj split: option.splits)
    next
      case False
      with nl N.prems(2) have "x = se" by simp
      with off show ?thesis by (auto simp: Let_def min_le_iff_disj split: option.splits)
    qed
  qed
qed simp

text \<open>It is attained, and the second loop finds where.\<close>

lemma min_deadline_cases:
  assumes "se_tree_ok w (N c l se r)"
  shows "se_min_deadline se = se_deadline se \<or> raug se_min_deadline l = Some (se_min_deadline se)
    \<or> raug se_min_deadline r = Some (se_min_deadline se)"
  using se_tree_okD(4) [OF assms]
  by (auto simp: min_deadline_calc_def dl_min_def split: option.splits if_splits)

lemma map_elem_raug: "map_option se_min_deadline (rb_elem t) = raug se_min_deadline t"
  by (cases t) auto

lemma pick_eevdf_heap_min:
  assumes "se_tree_ok w t" "raug se_min_deadline t = Some d"
  shows "\<exists>x \<in> set (rb_inorder t). pick_eevdf_heap t = Some x \<and> se_deadline x = d"
  using assms
proof (induction t arbitrary: d)
  case (N c l se r)
  note t = se_tree_okD [OF N.prems(1)]
  have d: "se_min_deadline se = d" using N.prems(2) by simp
  show ?case
    using min_deadline_cases [OF N.prems(1)] N.IH(1) [OF t(1), of d] N.IH(2) [OF t(2), of d] d
    by (auto simp: map_elem_raug)
qed simp


section \<open>The first loop\<close>

text \<open>
  \<open>left_ok w el bl\<close>: the subtree \<open>bl\<close> is well-formed and all its entities are eligible.  \<open>covered w best bl x\<close>:
  an entity \<open>x\<close> is not before both the best entity so far and the best left branch so far.
\<close>

definition left_ok :: "int \<Rightarrow> (sched_entity \<Rightarrow> bool) \<Rightarrow> sched_entity set \<Rightarrow> sched_entity rbt \<Rightarrow> bool" where
  "left_ok w el S bl \<longleftrightarrow> se_tree_ok w bl \<and> (\<forall>x \<in> set (rb_inorder bl). el x \<and> x \<in> S)"

definition best_le :: "int \<Rightarrow> sched_entity option \<Rightarrow> sched_entity rbt \<Rightarrow> int \<Rightarrow> bool" where
  "best_le w best bl d \<longleftrightarrow>
     (\<exists>b. best = Some b \<and> clock_off w (se_deadline b) \<le> d) \<or>
     (\<exists>m. raug se_min_deadline bl = Some m \<and> clock_off w m \<le> d)"

definition best_upd :: "sched_entity option \<Rightarrow> sched_entity \<Rightarrow> sched_entity option" where
  "best_upd best se = (case best of None \<Rightarrow> Some se
     | Some b \<Rightarrow> if deadline_gt (se_deadline b) (se_deadline se) then Some se else Some b)"

definition left_upd :: "sched_entity rbt \<Rightarrow> sched_entity rbt \<Rightarrow> sched_entity rbt" where
  "left_upd bl l = (case rb_elem l of None \<Rightarrow> bl
     | Some left \<Rightarrow> (case rb_elem bl of None \<Rightarrow> l
        | Some b \<Rightarrow> if deadline_gt (se_min_deadline b) (se_min_deadline left) then l else bl))"

lemma pick_eevdf_search_N:
  "pick_eevdf_search el (N c l se r) best bl =
     (if \<not> el se then pick_eevdf_search el l best bl
      else if raug se_min_deadline l = Some (se_min_deadline se) \<or> se_deadline se = se_min_deadline se
      then (best_upd best se, left_upd bl l)
      else pick_eevdf_search el r (best_upd best se) (left_upd bl l))"
  by (auto simp: best_upd_def left_upd_def map_elem_raug Let_def)

lemma best_upd_le:
  assumes "se_valid w se" "pred_option (se_valid w) best"
  shows "best_le w (best_upd best se) bl (clock_off w (se_deadline se))"
    and "best_le w best bl d \<Longrightarrow> best_le w (best_upd best se) bl d"
    and "pred_option (se_valid w) (best_upd best se)" "best_upd best se \<noteq> None"
  using assms by (auto simp: best_le_def best_upd_def deadline_gt_def se_valid_def window_diff [of w] split: option.splits)

lemma left_upd_le:
  assumes "se_tree_ok w l" "se_tree_ok w bl"
  shows "raug se_min_deadline l = Some m \<Longrightarrow> best_le w best (left_upd bl l) (clock_off w m)"
    and "best_le w best bl d \<Longrightarrow> best_le w best (left_upd bl l) d"
  using raug_window [OF assms(1)] raug_window [OF assms(2)]
  by (cases l; cases bl; auto simp: best_le_def left_upd_def deadline_gt_def window_diff [of w])+

lemma left_upd_cases: "left_upd bl l = bl \<or> left_upd bl l = l"
  by (auto simp: left_upd_def split: option.splits)

lemma best_le_mono: "best_le w best bl d \<Longrightarrow> d \<le> e \<Longrightarrow> best_le w best bl e"
  by (auto simp: best_le_def)

lemma pick_eevdf_search_spec:
  assumes "pick_eevdf_search el t best bl = (best', bl')" "se_tree_ok w t"
    and "\<forall>x \<in> set (rb_inorder t). \<forall>y \<in> set (rb_inorder t). el y \<and> se_pos w x \<le> se_pos w y \<longrightarrow> el x"
    and "pred_option (se_valid w) best" "left_ok w el S bl" "set (rb_inorder t) \<subseteq> S"
    and "bl \<noteq> E \<longrightarrow> best \<noteq> None"
  shows "pred_option (se_valid w) best' \<and> left_ok w el S bl' \<and> (bl' \<noteq> E \<longrightarrow> best' \<noteq> None) \<and>
    (\<forall>d. best_le w best bl d \<longrightarrow> best_le w best' bl' d) \<and>
    (\<forall>x \<in> set (rb_inorder t). el x \<longrightarrow> best_le w best' bl' (clock_off w (se_deadline x))) \<and>
    (best' = best \<or> (\<exists>x \<in> set (rb_inorder t). el x \<and> best' = Some x))"
  using assms
proof (induction t arbitrary: best bl)
  case (N c l se r)
  note t = se_tree_okD [OF N.prems(2)]
  show ?case
  proof (cases "el se")
    case False
    then have s: "pick_eevdf_search el l best bl = (best', bl')" using N.prems(1) by (simp add: pick_eevdf_search_N del: pick_eevdf_search.simps)
    have "\<forall>x \<in> set (rb_inorder r). \<not> el x" using N.prems(3) t(6) False by fastforce
    moreover have "\<forall>x \<in> set (rb_inorder l). \<forall>y \<in> set (rb_inorder l). el y \<and> se_pos w x \<le> se_pos w y \<longrightarrow> el x"
      using N.prems(3) unfolding rb_inorder.simps set_append list.set by blast
    note IH = N.IH(1) [OF s t(1) this N.prems(4,5) _ N.prems(7)]
    have "set (rb_inorder l) \<subseteq> S" using N.prems(6) by simp
    from IH [OF this] have "pred_option (se_valid w) best'" "left_ok w el S bl'" "bl' \<noteq> E \<longrightarrow> best' \<noteq> None"
      "\<forall>d. best_le w best bl d \<longrightarrow> best_le w best' bl' d"
      "\<forall>x \<in> set (rb_inorder l). el x \<longrightarrow> best_le w best' bl' (clock_off w (se_deadline x))"
      "best' = best \<or> (\<exists>x \<in> set (rb_inorder l). el x \<and> best' = Some x)" by blast+
    ultimately show ?thesis using False unfolding rb_inorder.simps by (intro conjI) auto
  next
    case True
    let ?b = "best_upd best se" and ?l = "left_upd bl l"
    have bl: "se_tree_ok w bl" using N.prems(5) by (simp add: left_ok_def)
    note bu = best_upd_le [OF t(3) N.prems(4)] and lu = left_upd_le [OF t(1) bl]
    have el_l: "\<forall>x \<in> set (rb_inorder l). el x" using N.prems(3) t(5) True by fastforce
    then have "left_ok w el S l" using t(1) N.prems(6) by (auto simp: left_ok_def)
    then have lok: "left_ok w el S ?l" using N.prems(5) left_upd_cases [of bl l] by auto
    have mono: "\<forall>d. best_le w best bl d \<longrightarrow> best_le w ?b ?l d" using bu(2) lu(2) by blast
    have cov_se: "best_le w ?b ?l (clock_off w (se_deadline se))" by (rule bu(1))
    have cov_l: "best_le w ?b ?l (clock_off w (se_deadline x))" if x: "x \<in> set (rb_inorder l)" for x
    proof -
      obtain m where m: "raug se_min_deadline l = Some m" using x by (cases l) auto
      show ?thesis by (rule best_le_mono [OF lu(1) [OF m] min_deadline_le [OF t(1) x m]])
    qed
    show ?thesis
    proof (cases "raug se_min_deadline l = Some (se_min_deadline se) \<or> se_deadline se = se_min_deadline se")
      case stop: True
      then have r: "best' = ?b" "bl' = ?l" using N.prems(1) True by (simp_all add: pick_eevdf_search_N del: pick_eevdf_search.simps)
      have "best_le w ?b ?l (clock_off w (se_min_deadline se))" using stop lu(1) cov_se by auto
      then have "best_le w ?b ?l (clock_off w (se_deadline x))" if "x \<in> set (rb_inorder (N c l se r))" for x
        using min_deadline_le [OF N.prems(2) that] best_le_mono by fastforce
      moreover have "?b = best \<or> ?b = Some se" by (auto simp: best_upd_def split: option.splits)
      ultimately show ?thesis using r bu(3,4) lok mono True by auto
    next
      case False
      then have s: "pick_eevdf_search el r ?b ?l = (best', bl')" using N.prems(1) True by (simp add: pick_eevdf_search_N del: pick_eevdf_search.simps)
      have "?b = best \<or> ?b = Some se" by (auto simp: best_upd_def split: option.splits)
      have el_r: "\<forall>x \<in> set (rb_inorder r). \<forall>y \<in> set (rb_inorder r). el y \<and> se_pos w x \<le> se_pos w y \<longrightarrow> el x"
        using N.prems(3) unfolding rb_inorder.simps set_append list.set by blast
      have "set (rb_inorder r) \<subseteq> S" using N.prems(6) by simp
      from N.IH(2) [OF s t(2) el_r bu(3) lok this] bu(4)
      have IH: "pred_option (se_valid w) best'" "left_ok w el S bl'" "bl' \<noteq> E \<longrightarrow> best' \<noteq> None"
        "\<forall>d. best_le w ?b ?l d \<longrightarrow> best_le w best' bl' d"
        "\<forall>x \<in> set (rb_inorder r). el x \<longrightarrow> best_le w best' bl' (clock_off w (se_deadline x))"
        "best' = ?b \<or> (\<exists>x \<in> set (rb_inorder r). el x \<and> best' = Some x)" by blast+
      have "\<forall>d. best_le w best bl d \<longrightarrow> best_le w best' bl' d" using mono IH(4) by blast
      moreover have "\<forall>x \<in> set (rb_inorder (N c l se r)). el x \<longrightarrow> best_le w best' bl' (clock_off w (se_deadline x))"
        using IH(4,5) cov_se cov_l by auto
      moreover have "best' = best \<or> (\<exists>x \<in> set (rb_inorder (N c l se r)). el x \<and> best' = Some x)"
        using IH(6) \<open>?b = best \<or> ?b = Some se\<close> True by auto
      ultimately show ?thesis using IH(1-3) by blast
    qed
  qed
qed simp

section \<open>The sums over the timeline\<close>

definition se_w :: "sched_entity \<Rightarrow> int" where
  "se_w se = scale_load_down (weight (se_load se))"

definition vsum :: "int \<Rightarrow> sched_entity list \<Rightarrow> int" where
  "vsum m ses = (\<Sum>se\<leftarrow>ses. (se_vruntime se - m) * se_w se)"

definition lsum :: "sched_entity list \<Rightarrow> int" where
  "lsum ses = (\<Sum>se\<leftarrow>ses. se_w se)"

definition queued :: "cfs_rq \<Rightarrow> sched_entity list" where
  "queued cfs = rb_inorder (rb_root (tasks_timeline cfs))"

text \<open>The entities that compete: the current one, when it is on the runqueue, and those of the timeline.\<close>

definition competing :: "cfs_rq \<Rightarrow> sched_entity list" where
  "competing cfs =
     (case cfs_curr cfs of Some c \<Rightarrow> if se_on_rq c then c # queued cfs else queued cfs | None \<Rightarrow> queued cfs)"

definition timeline_ok :: "int \<Rightarrow> cfs_rq \<Rightarrow> bool" where
  "timeline_ok w cfs \<longleftrightarrow>
     rb_cached_ok se_strip se_min_deadline min_deadline_calc (se_valid w) (se_pos w) se_id (tasks_timeline cfs)"

text \<open>\<open>avg_vruntime\<close> and \<open>avg_load\<close> are the sums of the comment in the source, in 64-bit arithmetic.\<close>

definition sums_ok :: "cfs_rq \<Rightarrow> bool" where
  "sums_ok cfs \<longleftrightarrow>
     cfs_avg_vruntime cfs = s64 (vsum (cfs_min_vruntime cfs) (queued cfs)) \<and>
     cfs_avg_load cfs = u64 (lsum (queued cfs))"

lemma sums_simps [simp]:
  "vsum m [] = 0" "vsum m (x # xs) = (se_vruntime x - m) * se_w x + vsum m xs" "vsum m (xs @ ys) = vsum m xs + vsum m ys"
  "lsum [] = 0" "lsum (x # xs) = se_w x + lsum xs" "lsum (xs @ ys) = lsum xs + lsum ys"
  by (simp_all add: vsum_def lsum_def)

lemma se_w_strip [simp]: "se_w (se_strip se) = se_w se"
  by (simp add: se_w_def)

lemma sums_strip: "vsum m (map se_strip xs) = vsum m xs" "lsum (map se_strip xs) = lsum xs"
  by (induction xs) auto

lemma sums_cong:
  assumes "map se_strip xs = map se_strip ys"
  shows "vsum m xs = vsum m ys" "lsum xs = lsum ys"
  using sums_strip(1) [of m xs] sums_strip(1) [of m ys] sums_strip(2) [of xs] sums_strip(2) [of ys] assms by simp_all

lemma se_w_pos: "0 < weight (se_load se) \<Longrightarrow> 2 \<le> se_w se"
  by (simp add: se_w_def scale_load_down_pos)

lemma se_w_nonneg [simp]: "0 \<le> se_w se"
  by (simp add: se_w_def)

lemma lsum_nonneg [simp]: "0 \<le> lsum xs"
  by (induction xs) auto

lemma sums_ins_after:
  "vsum m (ins_after f k ks) = (se_vruntime k - m) * se_w k + vsum m ks"
  "lsum (ins_after f k ks) = se_w k + lsum ks"
proof -
  have "vsum m ks = vsum m (takeWhile (\<lambda>j. f j \<le> f k) ks) + vsum m (dropWhile (\<lambda>j. f j \<le> f k) ks)"
    "lsum ks = lsum (takeWhile (\<lambda>j. f j \<le> f k) ks) + lsum (dropWhile (\<lambda>j. f j \<le> f k) ks)"
    by (metis sums_simps(3) takeWhile_dropWhile_id) (metis sums_simps(6) takeWhile_dropWhile_id)
  then show "vsum m (ins_after f k ks) = (se_vruntime k - m) * se_w k + vsum m ks"
    "lsum (ins_after f k ks) = se_w k + lsum ks"
    by (simp_all add: ins_after_def)
qed

lemma sums_remove:
  assumes "distinct (map se_id ks)" "k \<in> set ks"
  shows "vsum m ks = (se_vruntime k - m) * se_w k + vsum m (filter (\<lambda>j. se_id j \<noteq> se_id k) ks)"
    "lsum ks = se_w k + lsum (filter (\<lambda>j. se_id j \<noteq> se_id k) ks)"
proof -
  obtain xs ys where ks: "ks = xs @ k # ys" using assms(2) by (meson split_list)
  have f: "filter (\<lambda>j. se_id j \<noteq> se_id k) ks = xs @ ys"
    unfolding ks by (rule filter_remove1_key) (use assms(1) ks in simp)
  show "vsum m ks = (se_vruntime k - m) * se_w k + vsum m (filter (\<lambda>j. se_id j \<noteq> se_id k) ks)"
    "lsum ks = se_w k + lsum (filter (\<lambda>j. se_id j \<noteq> se_id k) ks)"
    unfolding f by (simp_all add: ks)
qed

section \<open>Enqueue and dequeue\<close>

lemma enqueue_entity0_ok:
  assumes "timeline_ok w cfs" "sums_ok cfs" "se_valid w se" "se_id se \<notin> se_id ` set (queued cfs)"
  shows "\<exists>cfs'. enqueue_entity0 cfs se = Some cfs' \<and> timeline_ok w cfs' \<and> sums_ok cfs' \<and>
    map se_strip (queued cfs') = ins_after (se_pos w) (se_strip se) (map se_strip (queued cfs)) \<and>
    cfs' = cfs\<lparr>tasks_timeline := tasks_timeline cfs', cfs_avg_vruntime := cfs_avg_vruntime cfs', cfs_avg_load := cfs_avg_load cfs'\<rparr>"
proof -
  let ?se = "se\<lparr>se_min_deadline := se_deadline se\<rparr>"
  have v: "se_valid w (se_strip ?se)" using assms(3) by simp
  have a: "se_min_deadline ?se = min_deadline_calc (se_strip ?se) None None"
    by (simp add: min_deadline_calc_def dl_min_def)
  have fresh: "se_id (se_strip ?se) \<notin> set (map se_id (map se_strip (rb_inorder (rb_root (tasks_timeline cfs)))))"
    using assms(4) by (auto simp: queued_def)
  from timeline.add_cached [OF assms(1) [unfolded timeline_ok_def] v a fresh] obtain tl where
    tl: "rb_add_augmented_cached min_deadline_cb se_id entity_before ?se (tasks_timeline cfs) = Some tl"
      "timeline_ok w (cfs\<lparr>tasks_timeline := tl\<rparr>)"
      "map se_strip (rb_inorder (rb_root tl)) = ins_after (se_pos w) (se_strip ?se) (map se_strip (queued cfs))"
    by (auto simp: timeline_ok_def queued_def)
  define cfs' where "cfs' = (avg_vruntime_add cfs se)\<lparr>tasks_timeline := tl\<rparr>"
  have e: "enqueue_entity0 cfs se = Some cfs'"
    by (simp add: enqueue_entity0_def Let_def cfs'_def avg_vruntime_add_def tl(1))
  have q: "map se_strip (queued cfs') = ins_after (se_pos w) (se_strip se) (map se_strip (queued cfs))"
    using tl(3) by (simp add: queued_def cfs'_def)
  have "vsum m (queued cfs') = (se_vruntime se - m) * se_w se + vsum m (queued cfs)"
    "lsum (queued cfs') = se_w se + lsum (queued cfs)" for m
    using sums_strip(1) [of m "queued cfs'"] sums_strip(2) [of "queued cfs'"] unfolding q
    by (simp_all add: sums_ins_after sums_strip)
  moreover have "cfs_avg_vruntime cfs' = s64 (vsum (cfs_min_vruntime cfs) (queued cfs) + (se_vruntime se - cfs_min_vruntime cfs) * se_w se)"
    "cfs_avg_load cfs' = u64 (lsum (queued cfs) + se_w se)" "cfs_min_vruntime cfs' = cfs_min_vruntime cfs"
    using assms(2) by (simp_all add: cfs'_def avg_vruntime_add_def sums_ok_def Let_def entity_key_def cint_absorb se_w_def)
  ultimately have "sums_ok cfs'" by (simp add: sums_ok_def add.commute)
  moreover have "timeline_ok w cfs'" using tl(2) by (simp add: timeline_ok_def cfs'_def)
  ultimately show ?thesis using e q by (auto simp: cfs'_def avg_vruntime_add_def Let_def)
qed

lemma dequeue_entity0_ok:
  assumes "timeline_ok w cfs" "sums_ok cfs" "se_strip se \<in> se_strip ` set (queued cfs)"
  shows "\<exists>cfs'. dequeue_entity0 cfs se = Some cfs' \<and> timeline_ok w cfs' \<and> sums_ok cfs' \<and>
    map se_strip (queued cfs') = filter (\<lambda>k. se_id k \<noteq> se_id se) (map se_strip (queued cfs)) \<and>
    cfs' = cfs\<lparr>tasks_timeline := tasks_timeline cfs', cfs_avg_vruntime := cfs_avg_vruntime cfs', cfs_avg_load := cfs_avg_load cfs'\<rparr>"
proof -
  let ?ks = "map se_strip (queued cfs)"
  have mem: "se_strip se \<in> set ?ks" using assms(3) by auto
  then have "se_id (se_strip se) \<in> set (map se_id ?ks)" by (metis image_eqI image_set)
  then have "se_id se \<in> set (map se_id (map se_strip (rb_inorder (rb_root (tasks_timeline cfs)))))"
    by (simp add: queued_def)
  from timeline.erase_cached [OF assms(1) [unfolded timeline_ok_def] this] obtain tl where
    tl: "rb_erase_augmented_cached min_deadline_cb se_id (se_id se) (tasks_timeline cfs) = Some tl"
      "timeline_ok w (cfs\<lparr>tasks_timeline := tl\<rparr>)"
      "map se_strip (rb_inorder (rb_root tl)) = filter (\<lambda>k. se_id k \<noteq> se_id se) ?ks"
    by (auto simp: timeline_ok_def queued_def)
  define cfs' where "cfs' = avg_vruntime_sub (cfs\<lparr>tasks_timeline := tl\<rparr>) se"
  have e: "dequeue_entity0 cfs se = Some cfs'"
    by (simp add: dequeue_entity0_def cfs'_def tl(1))
  have q: "map se_strip (queued cfs') = filter (\<lambda>k. se_id k \<noteq> se_id (se_strip se)) ?ks"
    using tl(3) by (simp add: queued_def cfs'_def avg_vruntime_sub_def Let_def)
  have "distinct (map se_id ?ks)"
    using timeline.cached_okD(6) [OF assms(1) [unfolded timeline_ok_def]] by (simp add: queued_def)
  from sums_remove [OF this mem] have
    "vsum m (queued cfs) = (se_vruntime se - m) * se_w se + vsum m (queued cfs')"
    "lsum (queued cfs) = se_w se + lsum (queued cfs')" for m
    unfolding q [symmetric] sums_strip by simp_all
  then have "cfs_avg_vruntime cfs = s64 ((se_vruntime se - cfs_min_vruntime cfs) * se_w se + vsum (cfs_min_vruntime cfs) (queued cfs'))"
    "cfs_avg_load cfs = u64 (se_w se + lsum (queued cfs'))"
    using assms(2) by (simp_all add: sums_ok_def)
  moreover have avg: "cfs_avg_vruntime cfs' = s64 (cfs_avg_vruntime cfs - s64 (se_vruntime se - cfs_min_vruntime cfs) * se_w se)"
    "cfs_avg_load cfs' = u64 (cfs_avg_load cfs - se_w se)" "cfs_min_vruntime cfs' = cfs_min_vruntime cfs"
    by (simp_all add: cfs'_def avg_vruntime_sub_def Let_def entity_key_def se_w_def)
  ultimately have "cfs_avg_vruntime cfs' = s64 (vsum (cfs_min_vruntime cfs) (queued cfs'))" "cfs_avg_load cfs' = u64 (lsum (queued cfs'))"
    "cfs_min_vruntime cfs' = cfs_min_vruntime cfs"
    unfolding avg by (simp_all add: cint_absorb)
  then have "sums_ok cfs'" by (simp add: sums_ok_def)
  moreover have "timeline_ok w cfs'" using tl(2) by (simp add: timeline_ok_def cfs'_def avg_vruntime_sub_def Let_def)
  ultimately show ?thesis using e q by (auto simp: cfs'_def avg_vruntime_sub_def Let_def)
qed

section \<open>Minimum virtual runtime\<close>

lemma vsum_shift: "vsum (m + d) xs = vsum m xs - d * lsum xs"
  by (induction xs) (simp_all add: algebra_simps)

lemma update_min_vruntime_sums:
  assumes "sums_ok cfs"
  shows "sums_ok (update_min_vruntime cfs)"
proof -
  have "sums_ok ((snd (update_min_vruntime0 cfs v))\<lparr>cfs_min_vruntime := fst (update_min_vruntime0 cfs v)\<rparr>)" for v
  proof -
    define d where "d = v - cfs_min_vruntime cfs"
    have "s64 (vsum v (queued cfs)) = s64 (vsum (cfs_min_vruntime cfs) (queued cfs) - lsum (queued cfs) * d)"
      using vsum_shift [of "cfs_min_vruntime cfs" d "queued cfs"] by (simp add: d_def mult.commute)
    then show ?thesis
      using assms by (simp add: update_min_vruntime0_def avg_vruntime_update_def sums_ok_def queued_def cint_absorb Let_def flip: d_def)
  qed
  then show ?thesis by (simp add: update_min_vruntime_def Let_def split_def)
qed

section \<open>Eligibility\<close>

definition ksum :: "cfs_rq \<Rightarrow> sched_entity list \<Rightarrow> int" where
  "ksum cfs ses = (\<Sum>se\<leftarrow>ses. entity_key cfs se * se_w se)"

text \<open>
  The products of the eligibility test fit 64 bits, and the load fits the 32 bits of \<open>div_s64\<close>.  The source
  reports at most 44 bits for \<open>key * weight\<close> in a kernel build.
\<close>

definition eevdf_fits :: "cfs_rq \<Rightarrow> bool" where
  "eevdf_fits cfs \<longleftrightarrow>
     list_all (\<lambda>se. \<bar>entity_key cfs se\<bar> * lsum (competing cfs) < 2 ^ 62) (competing cfs) \<and>
     lsum (competing cfs) < 2 ^ 31"

lemma ksum_simps [simp]:
  "ksum cfs [] = 0" "ksum cfs (x # xs) = entity_key cfs x * se_w x + ksum cfs xs"
  by (simp_all add: ksum_def)

lemma s64_vsum: "s64 (vsum (cfs_min_vruntime cfs) xs) = s64 (ksum cfs xs)"
proof (induction xs)
  case (Cons x xs)
  let ?m = "cfs_min_vruntime cfs"
  have "s64 (vsum ?m (x # xs)) = s64 ((se_vruntime x - ?m) * se_w x + s64 (vsum ?m xs))" by (simp add: s64_absorb)
  also have "\<dots> = s64 (ksum cfs xs + (se_vruntime x - ?m) * se_w x)" by (simp only: Cons.IH s64_absorb add.commute)
  also have "\<dots> = s64 (ksum cfs (x # xs))" by (simp add: entity_key_def cint_absorb add.commute)
  finally show ?case .
qed simp

lemma ksum_bounds:
  assumes "\<forall>x \<in> set xs. lo \<le> entity_key cfs x \<and> entity_key cfs x \<le> hi"
  shows "lo * lsum xs \<le> ksum cfs xs \<and> ksum cfs xs \<le> hi * lsum xs"
  using assms
proof (induction xs)
  case (Cons x xs)
  then have "lo * se_w x \<le> entity_key cfs x * se_w x" "entity_key cfs x * se_w x \<le> hi * se_w x"
    by (auto intro: mult_right_mono)
  with Cons show ?case by (auto simp: distrib_left)
qed simp

lemma competing_extremes:
  assumes "competing cfs \<noteq> []"
  obtains lo hi where "lo \<in> set (competing cfs)" "hi \<in> set (competing cfs)"
    "\<forall>x \<in> set (competing cfs). entity_key cfs lo \<le> entity_key cfs x \<and> entity_key cfs x \<le> entity_key cfs hi"
proof -
  let ?K = "entity_key cfs ` set (competing cfs)"
  have "finite ?K" "?K \<noteq> {}" using assms by auto
  then have "Min ?K \<in> ?K" "Max ?K \<in> ?K" and b: "\<forall>k \<in> ?K. Min ?K \<le> k \<and> k \<le> Max ?K" by auto
  then obtain lo hi where "lo \<in> set (competing cfs)" "Min ?K = entity_key cfs lo"
    "hi \<in> set (competing cfs)" "Max ?K = entity_key cfs hi" by auto
  with b show ?thesis by (intro that [of lo hi]) auto
qed

lemma ksum_fits:
  assumes "eevdf_fits cfs"
  shows "\<bar>ksum cfs (competing cfs)\<bar> < 2 ^ 62"
proof (cases "competing cfs = []")
  case False
  then obtain lo hi where e: "lo \<in> set (competing cfs)" "hi \<in> set (competing cfs)"
    "\<forall>x \<in> set (competing cfs). entity_key cfs lo \<le> entity_key cfs x \<and> entity_key cfs x \<le> entity_key cfs hi"
    by (rule competing_extremes)
  have "\<bar>entity_key cfs lo\<bar> * lsum (competing cfs) < 2 ^ 62" "\<bar>entity_key cfs hi\<bar> * lsum (competing cfs) < 2 ^ 62"
    using assms e(1,2) by (auto simp: eevdf_fits_def list_all_iff)
  then have "\<bar>entity_key cfs lo * lsum (competing cfs)\<bar> < 2 ^ 62" "\<bar>entity_key cfs hi * lsum (competing cfs)\<bar> < 2 ^ 62"
    by (simp_all add: abs_mult)
  with ksum_bounds [OF e(3)] show ?thesis by linarith
qed simp

lemma avg_and_load_eq:
  assumes "sums_ok cfs" "eevdf_fits cfs"
  shows "avg_and_load cfs = (ksum cfs (competing cfs), lsum (competing cfs))"
proof -
  let ?q = "queued cfs"
  have avg: "cfs_avg_vruntime cfs = s64 (ksum cfs ?q)" "cfs_avg_load cfs = u64 (lsum ?q)"
    using assms(1) by (simp_all add: sums_ok_def s64_vsum)
  have "avg_and_load cfs = (s64 (ksum cfs (competing cfs)), s64 (lsum (competing cfs)))"
    by (simp add: avg_and_load_def competing_def avg Let_def cint_absorb add.commute flip: se_w_def split: option.split)
  moreover have "\<bar>lsum (competing cfs)\<bar> < 2 ^ 63" using assms(2) by (simp add: eevdf_fits_def)
  ultimately show ?thesis using ksum_fits [OF assms(2)] by (simp add: s64_small)
qed

lemma entity_eligible_iff:
  assumes "sums_ok cfs" "eevdf_fits cfs" "\<bar>entity_key cfs se\<bar> * lsum (competing cfs) < 2 ^ 62"
  shows "entity_eligible cfs se \<longleftrightarrow> entity_key cfs se * lsum (competing cfs) \<le> ksum cfs (competing cfs)"
proof -
  have "\<bar>entity_key cfs se * lsum (competing cfs)\<bar> < 2 ^ 63" using assms(3) by (simp add: abs_mult)
  then show ?thesis by (simp add: entity_eligible_def avg_and_load_eq [OF assms(1,2)] s64_small)
qed

lemma competing_eligible_iff:
  assumes "sums_ok cfs" "eevdf_fits cfs" "se \<in> set (competing cfs)"
  shows "entity_eligible cfs se \<longleftrightarrow> entity_key cfs se * lsum (competing cfs) \<le> ksum cfs (competing cfs)"
  by (rule entity_eligible_iff [OF assms(1,2)]) (use assms(2,3) in \<open>auto simp: eevdf_fits_def list_all_iff\<close>)

lemma eligible_mono:
  assumes "sums_ok cfs" "eevdf_fits cfs" "x \<in> set (competing cfs)" "y \<in> set (competing cfs)"
    and "entity_key cfs x \<le> entity_key cfs y" "entity_eligible cfs y"
  shows "entity_eligible cfs x"
proof -
  have "entity_key cfs x * lsum (competing cfs) \<le> entity_key cfs y * lsum (competing cfs)"
    using assms(5) by (intro mult_right_mono) auto
  with assms show ?thesis by (simp add: competing_eligible_iff)
qed

lemma some_eligible:
  assumes "sums_ok cfs" "eevdf_fits cfs" "competing cfs \<noteq> []"
  shows "\<exists>x \<in> set (competing cfs). entity_eligible cfs x"
proof -
  obtain lo hi where e: "lo \<in> set (competing cfs)"
    "\<forall>x \<in> set (competing cfs). entity_key cfs lo \<le> entity_key cfs x \<and> entity_key cfs x \<le> entity_key cfs hi"
    using competing_extremes [OF assms(3)] by metis
  with ksum_bounds [OF e(2)] assms(1,2) show ?thesis by (auto simp: competing_eligible_iff)
qed

section \<open>The pick\<close>

text \<open>The state in which the pick runs: the timeline is in order and nothing overflows.\<close>

definition eevdf_ok :: "int \<Rightarrow> cfs_rq \<Rightarrow> bool" where
  "eevdf_ok w cfs \<longleftrightarrow> timeline_ok w cfs \<and> sums_ok cfs \<and> eevdf_fits cfs \<and> in_window w (cfs_min_vruntime cfs) \<and>
     pred_option (se_valid w) (cfs_curr cfs)"

definition eligible_curr :: "cfs_rq \<Rightarrow> sched_entity option" where
  "eligible_curr cfs =
     (case cfs_curr cfs of
        Some c \<Rightarrow> if \<not> se_on_rq c \<or> \<not> entity_eligible cfs c then None else Some c
      | None \<Rightarrow> None)"

definition runs_to_parity :: "fair_env \<Rightarrow> cfs_rq \<Rightarrow> bool" where
  "runs_to_parity env cfs \<longleftrightarrow> RUN_TO_PARITY env \<and>
     (case eligible_curr cfs of Some c \<Rightarrow> u64 (se_vlag c) = se_deadline c | None \<Rightarrow> False)"

lemma queued_competing: "set (queued cfs) \<subseteq> set (competing cfs)"
  by (auto simp: competing_def split: option.split)

lemma timeline_tree_ok:
  assumes "timeline_ok w cfs"
  shows "se_tree_ok w (rb_root (tasks_timeline cfs))"
proof -
  note ok = timeline.cached_okD [OF assms [unfolded timeline_ok_def]]
  have "\<forall>se \<in> set (rb_inorder (rb_root (tasks_timeline cfs))). se_valid w se"
    using ok(4) by (auto simp: list_all_iff)
  moreover have "sorted (map (se_pos w) (rb_inorder (rb_root (tasks_timeline cfs))))"
    using ok(5) by (simp add: comp_def)
  ultimately show ?thesis using ok(2) by (simp add: se_tree_ok_def)
qed

lemma entity_key_window:
  assumes "in_window w (cfs_min_vruntime cfs)" "se_valid w se"
  shows "entity_key cfs se = se_pos w se - clock_off w (cfs_min_vruntime cfs)"
  using assms by (simp add: entity_key_def se_pos_def se_valid_def window_diff [of w])

lemma eligible_curr_cases:
  "eligible_curr cfs = Some c \<longleftrightarrow> cfs_curr cfs = Some c \<and> se_on_rq c \<and> entity_eligible cfs c"
  by (auto simp: eligible_curr_def split: option.splits if_splits)

lemma competing_iff:
  "x \<in> set (competing cfs) \<longleftrightarrow> x \<in> set (queued cfs) \<or> (cfs_curr cfs = Some x \<and> se_on_rq x)"
  by (auto simp: competing_def split: option.splits if_splits)

lemma pick_search_result:
  assumes ok: "eevdf_ok w cfs"
    and s: "pick_eevdf_search (entity_eligible cfs) (rb_root (tasks_timeline cfs)) (eligible_curr cfs) E = (best, bl)"
  shows "pred_option (se_valid w) best" "left_ok w (entity_eligible cfs) (set (queued cfs)) bl" "bl \<noteq> E \<longrightarrow> best \<noteq> None"
    and "\<forall>x \<in> set (competing cfs). entity_eligible cfs x \<longrightarrow> best_le w best bl (clock_off w (se_deadline x))"
    and "pred_option (\<lambda>b. b \<in> set (competing cfs) \<and> entity_eligible cfs b) best"
proof -
  let ?t = "rb_root (tasks_timeline cfs)"
  have tl: "timeline_ok w cfs" and c: "pred_option (se_valid w) (eligible_curr cfs)"
    using ok by (auto simp: eevdf_ok_def eligible_curr_def split: option.splits)
  note t = timeline_tree_ok [OF tl]
  have q: "set (rb_inorder ?t) = set (queued cfs)" by (simp add: queued_def)
  have v: "se_valid w x" if "x \<in> set (rb_inorder ?t)" for x using t that by (simp add: se_tree_ok_def)
  have so: "sums_ok cfs" "eevdf_fits cfs" "in_window w (cfs_min_vruntime cfs)" using ok by (simp_all add: eevdf_ok_def)
  have "entity_eligible cfs x" if x: "x \<in> set (rb_inorder ?t)" and y: "y \<in> set (rb_inorder ?t)"
      "entity_eligible cfs y" "se_pos w x \<le> se_pos w y" for x y
  proof (rule eligible_mono [OF so(1,2) _ _ _ y(2)])
    show "x \<in> set (competing cfs)" "y \<in> set (competing cfs)" using x y(1) q queued_competing by blast+
    show "entity_key cfs x \<le> entity_key cfs y"
      using y(3) by (simp add: entity_key_window [OF so(3) v [OF x]] entity_key_window [OF so(3) v [OF y(1)]])
  qed
  then have mono: "\<forall>x \<in> set (rb_inorder ?t). \<forall>y \<in> set (rb_inorder ?t).
      entity_eligible cfs y \<and> se_pos w x \<le> se_pos w y \<longrightarrow> entity_eligible cfs x" by blast
  have l: "left_ok w (entity_eligible cfs) (set (queued cfs)) E" by (simp add: left_ok_def se_tree_ok_def)
  note spec = pick_eevdf_search_spec [OF s t mono c l]
  have sub: "set (rb_inorder ?t) \<subseteq> set (queued cfs)" using q by simp
  note spec = spec [OF sub]
  show "pred_option (se_valid w) best" "left_ok w (entity_eligible cfs) (set (queued cfs)) bl" "bl \<noteq> E \<longrightarrow> best \<noteq> None"
    using spec by simp_all
  have up: "\<forall>d. best_le w (eligible_curr cfs) E d \<longrightarrow> best_le w best bl d"
    and cov: "\<forall>x \<in> set (queued cfs). entity_eligible cfs x \<longrightarrow> best_le w best bl (clock_off w (se_deadline x))"
    and src: "best = eligible_curr cfs \<or> (\<exists>x \<in> set (queued cfs). entity_eligible cfs x \<and> best = Some x)"
    using spec unfolding q by simp_all
  have "best_le w (eligible_curr cfs) E (clock_off w (se_deadline x))"
    if "cfs_curr cfs = Some x" "se_on_rq x" "entity_eligible cfs x" for x
    using that by (simp add: best_le_def eligible_curr_def)
  with up cov show "\<forall>x \<in> set (competing cfs). entity_eligible cfs x \<longrightarrow> best_le w best bl (clock_off w (se_deadline x))"
    by (auto simp: competing_iff)
  show "pred_option (\<lambda>b. b \<in> set (competing cfs) \<and> entity_eligible cfs b) best"
    using src by (cases best) (auto simp: competing_iff eligible_curr_cases dest: sym)
qed

lemma pick_eevdf0_eq:
  "pick_eevdf0 env cfs =
     (if runs_to_parity env cfs then eligible_curr cfs
      else case pick_eevdf_search (entity_eligible cfs) (rb_root (tasks_timeline cfs)) (eligible_curr cfs) E of
             (best, best_left) \<Rightarrow>
               (case (best, rb_elem best_left) of
                  (Some b, Some bl) \<Rightarrow>
                    if s64 (se_min_deadline bl - se_deadline b) > 0 then best
                    else pick_eevdf_heap best_left
                | _ \<Rightarrow> best))"
  by (simp add: pick_eevdf0_def runs_to_parity_def eligible_curr_def Let_def)

text \<open>What the pick returns, without and with the short cut for the current entity.\<close>

lemma pick_eevdf0_spec:
  assumes ok: "eevdf_ok w cfs" and x: "x \<in> set (competing cfs)" "entity_eligible cfs x" and np: "\<not> runs_to_parity env cfs"
  shows "\<exists>se \<in> set (competing cfs). pick_eevdf0 env cfs = Some se \<and> entity_eligible cfs se \<and>
    clock_off w (se_deadline se) \<le> clock_off w (se_deadline x)"
proof -
  obtain best bl where s: "pick_eevdf_search (entity_eligible cfs) (rb_root (tasks_timeline cfs)) (eligible_curr cfs) E = (best, bl)"
    by fastforce
  note r = pick_search_result [OF ok s]
  have le: "best_le w best bl (clock_off w (se_deadline x))" using r(4) x by blast
  show ?thesis
  proof (cases "rb_elem bl")
    case None
    then have "bl = E" by (cases bl) auto
    with le obtain b where "best = Some b" "clock_off w (se_deadline b) \<le> clock_off w (se_deadline x)"
      by (auto simp: best_le_def)
    with r(5) None np s show ?thesis by (auto simp: pick_eevdf0_eq)
  next
    case (Some m)
    then have bl: "bl \<noteq> E" "raug se_min_deadline bl = Some (se_min_deadline m)" by (cases bl; auto)+
    then obtain b where b: "best = Some b" using r(3) by auto
    have tb: "se_tree_ok w bl" using r(2) by (simp add: left_ok_def)
    have win: "in_window w (se_min_deadline m)" "in_window w (se_deadline b)"
      using raug_window [OF tb] bl(2) r(1) b by (simp_all add: se_valid_def)
    obtain h where h: "h \<in> set (rb_inorder bl)" "pick_eevdf_heap bl = Some h" "se_deadline h = se_min_deadline m"
      using pick_eevdf_heap_min [OF tb bl(2)] by blast
    have "h \<in> set (competing cfs)" "entity_eligible cfs h"
      using r(2) h(1) queued_competing [of cfs] by (auto simp: left_ok_def)
    with r(5) b h le np s Some bl(2) show ?thesis
      by (auto simp: pick_eevdf0_eq window_diff [OF win] best_le_def)
  qed
qed
end
