(* ===== verification/Eevdf_Props.thy ===== *)
theory Eevdf_Props
  imports Eevdf_Pick
begin

text \<open>
  The average virtual runtime, the lag, and the properties of the EEVDF core, with a concrete runqueue that satisfies
  their hypotheses.
\<close>

section \<open>The average and the lag\<close>

lemma c_div_floor:
  assumes "0 < b"
  shows "c_div (if a < 0 then a - (b - 1) else a) b = a div b"
proof (cases "a < 0")
  case True
  have "- (a - (b - 1)) = b * - (a div b) + (b - 1 - a mod b)"
    using mult_div_mod_eq [of b a] by (simp add: algebra_simps)
  moreover have "0 \<le> b - 1 - a mod b" "b - 1 - a mod b < b" using pos_mod_bound [OF assms, of a] pos_mod_sign [OF assms, of a] by linarith+
  ultimately have "- (a - (b - 1)) div b = - (a div b)" by (intro int_div_pos_eq)
  moreover have "a - (b - 1) < 0" using True assms by simp
  ultimately show ?thesis using True assms by (simp add: c_div_neg)
qed (use assms in \<open>simp add: c_div_nonneg\<close>)

lemma avg_vruntime_floor:
  assumes "sums_ok cfs" "eevdf_fits cfs" "0 < lsum (competing cfs)"
  shows "avg_vruntime cfs = u64 (cfs_min_vruntime cfs + ksum cfs (competing cfs) div lsum (competing cfs))"
proof -
  let ?a = "ksum cfs (competing cfs)" and ?l = "lsum (competing cfs)"
  have l: "0 < ?l" "?l < 2 ^ 31" using assms by (simp_all add: eevdf_fits_def)
  have "\<bar>?a - (?l - 1)\<bar> < 2 ^ 63" using ksum_fits [OF assms(2)] l by simp
  then have "(if ?a < 0 then s64 (?a - (?l - 1)) else ?a) = (if ?a < 0 then ?a - (?l - 1) else ?a)" by (simp add: s64_small)
  moreover have "s32 ?l = ?l" using l by (intro s32_id) auto
  ultimately have "div_s64 (if ?a < 0 then s64 (?a - (?l - 1)) else ?a) ?l = ?a div ?l"
    using c_div_floor [OF l(1), of ?a] by (simp add: div_s64_def)
  with l(1) show ?thesis by (simp add: avg_vruntime_def avg_and_load_eq [OF assms(1,2)])
qed

lemma entity_key_min_add:
  assumes "se_vruntime se = u64 (cfs_min_vruntime cfs + k)" "\<bar>k\<bar> < 2 ^ 63"
  shows "entity_key cfs se = k"
  using assms by (simp add: entity_key_def s64_absorb s64_small)

lemma div_mult_abs:
  assumes "0 < (l :: int)" shows "\<bar>a div l\<bar> * l < \<bar>a\<bar> + l"
proof -
  have "a div l * l \<le> a" "a < a div l * l + l"
    using int_div_mult_le [OF assms, of a] int_less_div_Suc [OF assms, of a] by (simp_all add: distrib_right)
  then have "\<bar>a div l * l\<bar> < \<bar>a\<bar> + l" using assms by linarith
  then show ?thesis using assms by (simp add: abs_mult)
qed

lemma filter_ins_after:
  assumes "\<not> P k" shows "filter P (ins_after f k ks) = filter P ks"
proof -
  have "filter P ks = filter P (takeWhile (\<lambda>j. f j \<le> f k) ks @ dropWhile (\<lambda>j. f j \<le> f k) ks)" by simp
  with assms show ?thesis by (simp only: ins_after_def filter_append filter.simps if_False)
qed

lemma calc_delta_fair_se: "\<exists>i. snd (calc_delta_fair x s) = s\<lparr>se_load := (se_load s)\<lparr>inv_weight := i\<rparr>\<rparr>"
proof -
  have "snd (calc_delta x n lw) = update_inv_weight lw" for n lw by (simp add: calc_delta_def Let_def split_def)
  moreover have "\<exists>i. update_inv_weight lw = lw\<lparr>inv_weight := i\<rparr>" for lw :: load_weight
    by (cases lw) (auto simp: update_inv_weight_def Let_def)
  moreover have "\<exists>i. s = s\<lparr>se_load := (se_load s)\<lparr>inv_weight := i\<rparr>\<rparr>"
    by (rule exI [of _ "inv_weight (se_load s)"]) simp
  ultimately show ?thesis by (simp add: calc_delta_fair_def split_def) metis
qed

lemma calc_delta_fair_keeps [simp]:
  "weight (se_load (snd (calc_delta_fair x s))) = weight (se_load s)" "se_vlag (snd (calc_delta_fair x s)) = se_vlag s"
  "se_vruntime (snd (calc_delta_fair x s)) = se_vruntime s" "se_id (snd (calc_delta_fair x s)) = se_id s"
  "se_deadline (snd (calc_delta_fair x s)) = se_deadline s" "se_on_rq (snd (calc_delta_fair x s)) = se_on_rq s"
  "se_w (snd (calc_delta_fair x s)) = se_w s"
  using calc_delta_fair_se [of x s] by (auto simp: se_w_def)

lemma place_entity_vruntime:
  "se_vruntime (place_entity env cfs se initial) = u64 (avg_vruntime cfs -
     (if PLACE_LAG env \<and> cfs_nr_running cfs \<noteq> 0 then
        let load = (case cfs_curr cfs of
                      Some cur \<Rightarrow> if se_on_rq cur then u64 (cfs_avg_load cfs + se_w cur) else cfs_avg_load cfs
                    | None \<Rightarrow> cfs_avg_load cfs)
        in div_s64 (s64 (se_vlag se * (load + se_w se))) (if load = 0 then 1 else load)
      else 0))"
  by (cases "cfs_curr cfs") (simp_all add: place_entity_def Let_def split_def se_w_def)

lemma place_entity_keeps:
  "se_w (place_entity env cfs se initial) = se_w se" "se_id (place_entity env cfs se initial) = se_id se"
  by (simp_all add: place_entity_def Let_def split_def se_w_def)

section \<open>A runqueue\<close>

text \<open>\<open>init_cfs_rq\<close>: an empty timeline, and virtual time starting shortly before it wraps.\<close>

definition init_cfs_rq :: "cfs_rq \<Rightarrow> cfs_rq" where
  "init_cfs_rq cfs = cfs\<lparr>tasks_timeline := \<lparr>rb_root = E, rb_leftmost = None\<rparr>, cfs_min_vruntime := u64 (- (2 ^ 20))\<rparr>"

definition example_cfs0 :: cfs_rq where
  "example_cfs0 = init_cfs_rq \<lparr>cfs_load = \<lparr>weight = 0, inv_weight = 0\<rparr>, cfs_nr_running = 0, cfs_h_nr_running = 0,
     cfs_idle_nr_running = 0, cfs_idle_h_nr_running = 0, cfs_avg_vruntime = 0, cfs_avg_load = 0, cfs_min_vruntime = 0,
     tasks_timeline = \<lparr>rb_root = E, rb_leftmost = None\<rparr>, cfs_curr = None, cfs_next = None, cfs_avg = se_avg example_se,
     removed_nr = 0, removed_load_avg = 0, removed_util_avg = 0, removed_runnable_avg = 0, tg_load_avg_contrib = 0,
     propagate = False, prop_runnable_sum = 0, runtime_enabled = False, runtime_remaining = 0, throttled_pelt_idle = 0,
     throttled_clock = 0, throttled_clock_pelt = 0, throttled_clock_pelt_time = 0, throttled_clock_self = 0,
     throttled_clock_self_time = 0, cfs_throttled = False, throttle_count = 0\<rparr>"

definition example_task :: "nat \<Rightarrow> int \<Rightarrow> int \<Rightarrow> int \<Rightarrow> sched_entity" where
  "example_task i w v d = example_se\<lparr>se_id := i, se_load := \<lparr>weight = scale_load w, inv_weight = 0\<rparr>,
     se_vruntime := u64 v, se_deadline := u64 d, se_vlag := 0\<rparr>"

text \<open>Three tasks in the timeline and a fourth running, around the point where virtual time wraps.\<close>

definition example_cfs :: cfs_rq where
  "example_cfs =
     (let cfs1 = the (enqueue_entity0 example_cfs0 (example_task 1 1024 (- 500) 2000));
          cfs2 = the (enqueue_entity0 cfs1 (example_task 2 335 700 900));
          cfs3 = the (enqueue_entity0 cfs2 (example_task 3 1024 (- 900) 3000))
      in cfs3\<lparr>cfs_curr := Some (example_task 4 15 (- 100) 100), cfs_nr_running := 4\<rparr>)"

definition example_env :: fair_env where
  "example_env = \<lparr>RUN_TO_PARITY = True, PLACE_LAG = True, PLACE_DEADLINE_INITIAL = True, NEXT_BUDDY = False,
     sysctl_sched_base_slice = 750000, TICK_NSEC = 4000000\<rparr>"

lemma example_timeline_ok: "timeline_ok 0 example_cfs" "sums_ok example_cfs" "eevdf_fits example_cfs"
  "in_window 0 (cfs_min_vruntime example_cfs)" and example_curr_ok: "pred_option (se_valid 0) (cfs_curr example_cfs)"
proof -
  show "timeline_ok 0 example_cfs" "sums_ok example_cfs" "eevdf_fits example_cfs" "in_window 0 (cfs_min_vruntime example_cfs)"
    by code_simp+
  have "cfs_curr example_cfs = Some (example_task 4 15 (- 100) 100)" "se_valid 0 (example_task 4 15 (- 100) 100)"
    by code_simp+
  then show "pred_option (se_valid 0) (cfs_curr example_cfs)" by simp
qed

lemma example_cfs_ok: "eevdf_ok 0 example_cfs"
  by (simp add: eevdf_ok_def example_timeline_ok example_curr_ok)

lemma example_cfs_facts: "competing example_cfs \<noteq> []" "0 < lsum (competing example_cfs)"
  "cfs_avg_load example_cfs = lsum (queued example_cfs)" "cfs_nr_running example_cfs \<noteq> 0"
  by code_simp+

section \<open>Properties\<close>

text \<open>
  C1: The pick is EEVDF: among the competing entities (the timeline and the current one) it returns an eligible
  one, and unless the current entity is run to parity, none of the eligible entities has an earlier
  virtual deadline.
\<close>

theorem pick_eevdf_earliest:
  assumes ok: "eevdf_ok w cfs" and ne: "competing cfs \<noteq> []"
  shows "\<exists>se \<in> set (competing cfs). pick_eevdf env cfs = Some se \<and> entity_eligible cfs se \<and>
    (if runs_to_parity env cfs then cfs_curr cfs = Some se
     else \<forall>x \<in> set (competing cfs). entity_eligible cfs x \<longrightarrow> \<not> deadline_gt (se_deadline se) (se_deadline x))"
proof (cases "runs_to_parity env cfs")
  case True
  then obtain c where c: "eligible_curr cfs = Some c" by (auto simp: runs_to_parity_def split: option.splits)
  with True have "pick_eevdf env cfs = Some c" by (simp add: pick_eevdf_def pick_eevdf0_eq)
  moreover have "cfs_curr cfs = Some c" "se_on_rq c" "entity_eligible cfs c" using c by (simp_all add: eligible_curr_cases)
  ultimately show ?thesis using True by (intro bexI [of _ c]) (auto simp: competing_iff)
next
  case False
  have so: "sums_ok cfs" "eevdf_fits cfs" using ok by (simp_all add: eevdf_ok_def)
  have v: "se_valid w x" if "x \<in> set (competing cfs)" for x
    using that ok timeline_tree_ok [of w cfs] by (auto simp: eevdf_ok_def competing_iff se_tree_ok_def queued_def)
  obtain x0 where x0: "x0 \<in> set (competing cfs)" "entity_eligible cfs x0" using some_eligible [OF so ne] by blast
  obtain se where se: "se \<in> set (competing cfs)" "pick_eevdf0 env cfs = Some se" "entity_eligible cfs se"
    using pick_eevdf0_spec [OF ok x0 False] by blast
  have "\<not> deadline_gt (se_deadline se) (se_deadline x)" if x: "x \<in> set (competing cfs)" "entity_eligible cfs x" for x
  proof -
    have "clock_off w (se_deadline se) \<le> clock_off w (se_deadline x)" using pick_eevdf0_spec [OF ok x False] se(2) by auto
    then show ?thesis using v [OF se(1)] v [OF x(1)] by (simp add: deadline_gt_def se_valid_def window_diff [of w])
  qed
  with se False show ?thesis by (intro bexI [of _ se]) (auto simp: pick_eevdf_def)
qed

theorem pick_eevdf_earliest_witness:
  "eevdf_ok 0 example_cfs \<and> (\<exists>se \<in> set (competing example_cfs). pick_eevdf example_env example_cfs = Some se \<and>
     entity_eligible example_cfs se)"
  using pick_eevdf_earliest [OF example_cfs_ok example_cfs_facts(1), of example_env] example_cfs_ok by blast

text \<open>
  C2: The search never fails while there is something to run: an eligible entity always exists (the one
  with the least virtual runtime), so the fallback that prints "EEVDF scheduling fail" is dead code, and the pick is
  empty exactly when nothing competes.
\<close>

theorem pick_eevdf_never_fails:
  assumes "eevdf_ok w cfs"
  shows "pick_eevdf env cfs = pick_eevdf0 env cfs \<and> (pick_eevdf env cfs = None \<longleftrightarrow> competing cfs = [])"
proof (cases "competing cfs = []")
  case True
  then have q: "rb_root (tasks_timeline cfs) = E" and c: "eligible_curr cfs = None"
    by (auto simp: competing_def queued_def eligible_curr_def split: option.splits if_splits)
  have "rb_leftmost (tasks_timeline cfs) = None"
    using timeline.cached_okD(7) [of w "tasks_timeline cfs"] assms q by (simp add: eevdf_ok_def timeline_ok_def)
  then have "pick_first_entity cfs = None" by (simp add: pick_first_entity_def rb_first_cached_def)
  moreover have "pick_eevdf0 env cfs = None" using q c by (simp add: pick_eevdf0_eq runs_to_parity_def)
  ultimately show ?thesis using True by (simp add: pick_eevdf_def)
next
  case False
  have so: "sums_ok cfs" "eevdf_fits cfs" using assms by (simp_all add: eevdf_ok_def)
  obtain x where x: "x \<in> set (competing cfs)" "entity_eligible cfs x" using some_eligible [OF so False] by blast
  have "\<exists>se. pick_eevdf0 env cfs = Some se"
  proof (cases "runs_to_parity env cfs")
    case True
    then show ?thesis by (auto simp: pick_eevdf0_eq runs_to_parity_def split: option.splits)
  next
    case np: False
    show ?thesis using pick_eevdf0_spec [OF assms x np] by blast
  qed
  with False show ?thesis by (auto simp: pick_eevdf_def)
qed

theorem pick_eevdf_never_fails_witness:
  "eevdf_ok 0 example_cfs \<and> pick_eevdf0 example_env example_cfs \<noteq> None"
  using pick_eevdf_never_fails [OF example_cfs_ok, of example_env] example_cfs_ok example_cfs_facts(1) by metis

text \<open>
  C5: Enqueueing an entity inserts it in the timeline behind the entities with the same or less virtual
  runtime, and keeps the tree balanced, its \<open>min_deadline\<close> augmentation and its cached leftmost node right, and the two
  sums equal to the weighted sums over the timeline; no other field of the runqueue changes.
\<close>

theorem enqueue_entity0_refines:
  assumes "timeline_ok w cfs" "sums_ok cfs" "se_valid w se" "se_id se \<notin> se_id ` set (queued cfs)"
  shows "\<exists>cfs'. enqueue_entity0 cfs se = Some cfs' \<and> timeline_ok w cfs' \<and> sums_ok cfs' \<and>
    map se_strip (queued cfs') = ins_after (se_pos w) (se_strip se) (map se_strip (queued cfs)) \<and>
    cfs' = cfs\<lparr>tasks_timeline := tasks_timeline cfs', cfs_avg_vruntime := cfs_avg_vruntime cfs', cfs_avg_load := cfs_avg_load cfs'\<rparr>"
  by (rule enqueue_entity0_ok [OF assms])

theorem enqueue_entity0_refines_witness:
  "\<exists>cfs'. enqueue_entity0 example_cfs (example_task 5 70 300 400) = Some cfs' \<and> timeline_ok 0 cfs' \<and> sums_ok cfs'"
proof -
  have "se_valid 0 (example_task 5 70 300 400)" "se_id (example_task 5 70 300 400) \<notin> se_id ` set (queued example_cfs)"
    by code_simp+
  from enqueue_entity0_refines [OF example_timeline_ok(1,2) this] show ?thesis by blast
qed

text \<open>
  C25: Dequeueing what was enqueued gives the timeline back: the same entities in the same order, and the same sums.
\<close>

theorem dequeue_enqueue_entity0:
  assumes "timeline_ok w cfs" "sums_ok cfs" "se_valid w se" "se_id se \<notin> se_id ` set (queued cfs)"
  shows "\<exists>cfs1 cfs2. enqueue_entity0 cfs se = Some cfs1 \<and> dequeue_entity0 cfs1 se = Some cfs2 \<and>
    timeline_ok w cfs2 \<and> map se_strip (queued cfs2) = map se_strip (queued cfs) \<and>
    cfs2 = cfs\<lparr>tasks_timeline := tasks_timeline cfs2\<rparr>"
proof -
  let ?qs = "map se_strip (queued cfs)"
  from enqueue_entity0_ok [OF assms] obtain cfs1 where 1: "enqueue_entity0 cfs se = Some cfs1" "timeline_ok w cfs1" "sums_ok cfs1"
      "map se_strip (queued cfs1) = ins_after (se_pos w) (se_strip se) ?qs"
      "cfs1 = cfs\<lparr>tasks_timeline := tasks_timeline cfs1, cfs_avg_vruntime := cfs_avg_vruntime cfs1, cfs_avg_load := cfs_avg_load cfs1\<rparr>"
    by blast
  have "se_strip se \<in> set (map se_strip (queued cfs1))" unfolding 1(4) by (simp add: ins_after_def)
  then have "se_strip se \<in> se_strip ` set (queued cfs1)" by simp
  from dequeue_entity0_ok [OF 1(2,3) this] obtain cfs2 where 2: "dequeue_entity0 cfs1 se = Some cfs2" "timeline_ok w cfs2" "sums_ok cfs2"
      "map se_strip (queued cfs2) = filter (\<lambda>k. se_id k \<noteq> se_id se) (map se_strip (queued cfs1))"
      "cfs2 = cfs1\<lparr>tasks_timeline := tasks_timeline cfs2, cfs_avg_vruntime := cfs_avg_vruntime cfs2, cfs_avg_load := cfs_avg_load cfs2\<rparr>"
    by blast
  have "\<forall>k \<in> set ?qs. se_id k \<noteq> se_id se" using assms(4) by (auto simp: image_iff)
  then have "filter (\<lambda>k. se_id k \<noteq> se_id se) ?qs = ?qs" by (simp add: filter_id_conv)
  then have q: "map se_strip (queued cfs2) = ?qs"
    unfolding 2(4) 1(4) by (simp add: filter_ins_after)
  have m: "cfs_min_vruntime cfs2 = cfs_min_vruntime cfs"
    by (subst 2(5), subst 1(5)) simp
  have avg: "cfs_avg_vruntime cfs2 = cfs_avg_vruntime cfs" "cfs_avg_load cfs2 = cfs_avg_load cfs"
    using 2(3) assms(2) sums_cong [OF q] by (simp_all add: sums_ok_def m)
  have "cfs2 = cfs\<lparr>tasks_timeline := tasks_timeline cfs2, cfs_avg_vruntime := cfs_avg_vruntime cfs2, cfs_avg_load := cfs_avg_load cfs2\<rparr>"
    by (subst (1) 2(5), subst (1) 1(5)) simp
  then have "cfs2 = cfs\<lparr>tasks_timeline := tasks_timeline cfs2, cfs_avg_vruntime := cfs_avg_vruntime cfs, cfs_avg_load := cfs_avg_load cfs\<rparr>"
    unfolding avg .
  then have "cfs2 = cfs\<lparr>tasks_timeline := tasks_timeline cfs2\<rparr>" by simp
  with 1(1) 2(1,2) q show ?thesis by blast
qed

theorem dequeue_enqueue_entity0_witness:
  "\<exists>cfs1 cfs2. enqueue_entity0 example_cfs (example_task 6 70 300 400) = Some cfs1 \<and>
     dequeue_entity0 cfs1 (example_task 6 70 300 400) = Some cfs2 \<and> map se_strip (queued cfs2) = map se_strip (queued example_cfs)"
proof -
  have "se_valid 0 (example_task 6 70 300 400)" "se_id (example_task 6 70 300 400) \<notin> se_id ` set (queued example_cfs)"
    by code_simp+
  from dequeue_enqueue_entity0 [OF example_timeline_ok(1,2) this] show ?thesis by blast
qed

text \<open>
  C7: \<open>avg_vruntime\<close> is the weighted average of the virtual runtimes of the competing entities relative to
  \<open>min_vruntime\<close>, rounded down also when it is negative; so an entity placed at the average, with zero lag, is eligible.
\<close>

theorem avg_vruntime_weighted:
  assumes "sums_ok cfs" "eevdf_fits cfs" "0 < lsum (competing cfs)"
  shows "avg_vruntime cfs =
      u64 (cfs_min_vruntime cfs + (\<Sum>se\<leftarrow>competing cfs. entity_key cfs se * se_w se) div (\<Sum>se\<leftarrow>competing cfs. se_w se)) \<and>
    (\<forall>se :: sched_entity. se_vruntime se = avg_vruntime cfs \<longrightarrow> entity_eligible cfs se)"
proof (intro conjI allI impI)
  let ?a = "ksum cfs (competing cfs)" and ?l = "lsum (competing cfs)"
  note floor = avg_vruntime_floor [OF assms]
  show "avg_vruntime cfs =
      u64 (cfs_min_vruntime cfs + (\<Sum>se\<leftarrow>competing cfs. entity_key cfs se * se_w se) div (\<Sum>se\<leftarrow>competing cfs. se_w se))"
    using floor by (simp add: ksum_def lsum_def)
  fix se :: sched_entity assume se: "se_vruntime se = avg_vruntime cfs"
  have l: "?l < 2 ^ 31" using assms(2) by (simp add: eevdf_fits_def)
  have b: "\<bar>?a div ?l\<bar> * ?l < 2 ^ 63" using div_mult_abs [OF assms(3), of ?a] ksum_fits [OF assms(2)] l by simp
  moreover have "\<bar>?a div ?l\<bar> * 1 \<le> \<bar>?a div ?l\<bar> * ?l" using assms(3) by (intro mult_left_mono) auto
  ultimately have k: "entity_key cfs se = ?a div ?l" using se floor by (intro entity_key_min_add) auto
  have "\<bar>?a div ?l * ?l\<bar> < 2 ^ 63" using b assms(3) by (simp add: abs_mult)
  then show "entity_eligible cfs se"
    using int_div_mult_le [OF assms(3), of ?a]
    by (simp add: entity_eligible_def avg_and_load_eq [OF assms(1,2)] k s64_small)
qed

theorem avg_vruntime_weighted_witness:
  "eevdf_fits example_cfs \<and> entity_eligible example_cfs (example_se\<lparr>se_vruntime := avg_vruntime example_cfs\<rparr>)"
  using avg_vruntime_weighted [OF example_timeline_ok(2,3) example_cfs_facts(2)] example_timeline_ok(3) by simp

text \<open>
  C8: \<open>update_min_vruntime\<close> moves \<open>min_vruntime\<close> to the least virtual runtime of the competing entities when that is
  ahead of it and leaves it alone otherwise, so it never goes back; the sums are rebased with it.
\<close>

theorem update_min_vruntime_monotone:
  assumes "timeline_ok w cfs" "sums_ok cfs" "in_window w (cfs_min_vruntime cfs)" "pred_option (se_valid w) (cfs_curr cfs)"
  shows "sums_ok (update_min_vruntime cfs) \<and> in_window w (cfs_min_vruntime (update_min_vruntime cfs)) \<and>
    clock_off w (cfs_min_vruntime (update_min_vruntime cfs)) =
      (if competing cfs = [] then clock_off w (cfs_min_vruntime cfs)
       else max (clock_off w (cfs_min_vruntime cfs)) (Min (se_pos w ` set (competing cfs))))"
proof -
  note tl = timeline.cached_okD [OF assms(1) [unfolded timeline_ok_def]]
  have first: "pick_first_entity cfs = list_first (queued cfs)"
    using timeline.first_cached [OF assms(1) [unfolded timeline_ok_def]] by (simp add: pick_first_entity_def queued_def)
  have v: "\<forall>x \<in> set (queued cfs). se_valid w x" and srt: "sorted (map (se_pos w) (queued cfs))"
    using timeline_tree_ok [OF assms(1)] by (simp_all add: se_tree_ok_def queued_def)
  have min_q: "Min (se_pos w ` set (queued cfs)) = se_pos w x" if "queued cfs = x # xs" for x xs
    using srt that by (intro Min_eqI) auto
  define vr where "vr = (case competing cfs of [] \<Rightarrow> cfs_min_vruntime cfs | _ \<Rightarrow>
    (let c = (case cfs_curr cfs of Some c \<Rightarrow> if se_on_rq c then Some c else None | None \<Rightarrow> None) in
     case list_first (queued cfs) of None \<Rightarrow> (case c of Some c \<Rightarrow> se_vruntime c | None \<Rightarrow> cfs_min_vruntime cfs)
     | Some s \<Rightarrow> (case c of None \<Rightarrow> se_vruntime s | Some c \<Rightarrow> min_vruntime (se_vruntime c) (se_vruntime s))))"
  have "update_min_vruntime cfs = (let (mv, cfs') = update_min_vruntime0 cfs vr in cfs'\<lparr>cfs_min_vruntime := mv\<rparr>)"
    by (cases "queued cfs") (auto simp: update_min_vruntime_def first vr_def competing_def Let_def split: option.splits)
  then have mv: "cfs_min_vruntime (update_min_vruntime cfs) =
      (if s64 (vr - cfs_min_vruntime cfs) > 0 then vr else cfs_min_vruntime cfs)"
    by (simp add: update_min_vruntime0_def Let_def)
  have vr: "in_window w vr \<and> (competing cfs \<noteq> [] \<longrightarrow> clock_off w vr = Min (se_pos w ` set (competing cfs)))"
  proof (cases "queued cfs")
    case Nil
    then show ?thesis using assms(3,4)
      by (auto simp: vr_def competing_def se_valid_def se_pos_def split: option.splits)
  next
    case (Cons x xs)
    have "se_valid w x" using v Cons by simp
    moreover have "se_pos w ` set (competing cfs) = (case cfs_curr cfs of Some c \<Rightarrow> if se_on_rq c
        then insert (se_pos w c) (se_pos w ` set (queued cfs)) else se_pos w ` set (queued cfs) | None \<Rightarrow> se_pos w ` set (queued cfs))"
      by (simp add: competing_def split: option.splits)
    ultimately show ?thesis using assms(4) Cons min_q [OF Cons]
      by (auto simp: vr_def competing_def se_valid_def se_pos_def min_vruntime_def window_diff [of w] min_def split: option.splits)
  qed
  have d: "s64 (vr - cfs_min_vruntime cfs) = clock_off w vr - clock_off w (cfs_min_vruntime cfs)"
    using vr assms(3) by (simp add: window_diff [of w])
  have "competing cfs = [] \<Longrightarrow> vr = cfs_min_vruntime cfs" by (simp add: vr_def)
  moreover have "clock_off w (cfs_min_vruntime (update_min_vruntime cfs)) = max (clock_off w (cfs_min_vruntime cfs)) (clock_off w vr)"
    unfolding mv d by (auto simp: max_def)
  moreover have "in_window w (cfs_min_vruntime (update_min_vruntime cfs))" using vr assms(3) mv by simp
  ultimately show ?thesis using update_min_vruntime_sums [OF assms(2)] vr by auto
qed

theorem update_min_vruntime_monotone_witness:
  "clock_off 0 (cfs_min_vruntime (update_min_vruntime example_cfs)) = - 900"
proof -
  have "Min (se_pos 0 ` set (competing example_cfs)) = - 900" "clock_off 0 (cfs_min_vruntime example_cfs) = - 1048576"
    by code_simp+
  with update_min_vruntime_monotone [OF example_timeline_ok(1,2,4) example_curr_ok] example_cfs_facts(1) show ?thesis by simp
qed



text \<open>
  C6: Placement preserves lag.  An entity that joins with virtual lag \<open>vlag\<close> is placed so far behind the average that,
  once it is part of the average itself, its lag is \<open>vlag\<close> again, to within two units of virtual time: the exact lag times the
  total load differs from \<open>vlag\<close> times the total load by less than one old load below and two above.
\<close>

theorem place_entity_preserves_lag:
  assumes ok: "sums_ok cfs" "eevdf_fits cfs" "0 < lsum (competing cfs)" and feat: "PLACE_LAG env" "cfs_nr_running cfs \<noteq> 0"
    and fits: "\<bar>se_vlag se\<bar> * (lsum (competing cfs) + se_w se) < 2 ^ 61"
    and l63: "cfs_avg_load cfs = lsum (queued cfs)"
  shows "let se' = place_entity env cfs se initial; W = lsum (competing cfs);
             lag = ksum cfs (se' # competing cfs) - entity_key cfs se' * lsum (se' # competing cfs) in
    - W < lag - (W + se_w se) * se_vlag se \<and> lag - (W + se_w se) * se_vlag se < 2 * W"
proof -
  define W where "W = lsum (competing cfs)"
  define A where "A = ksum cfs (competing cfs)"
  define p where "p = se_vlag se * (W + se_w se)"
  define d where "d = c_div p W"
  have W: "0 < W" "W < 2 ^ 31" using ok by (simp_all add: W_def eevdf_fits_def)
  have p: "\<bar>p\<bar> < 2 ^ 61" using fits W by (simp add: p_def W_def abs_mult)
  have d: "\<bar>p - W * d\<bar> < W" "\<bar>d\<bar> \<le> \<bar>p\<bar>"
  proof -
    have 1: "0 \<le> \<bar>p\<bar> div W" "\<bar>p\<bar> div W * W \<le> \<bar>p\<bar>" "\<bar>p\<bar> < \<bar>p\<bar> div W * W + W" "\<bar>p\<bar> div W \<le> \<bar>p\<bar> div 1"
      using W int_div_mult_le [of W "\<bar>p\<bar>"] int_less_div_Suc [of W "\<bar>p\<bar>"]
      by (auto simp: pos_imp_zdiv_nonneg_iff distrib_right simp del: div_by_1 intro!: zdiv_mono2)
    have "d = (if p < 0 then - (\<bar>p\<bar> div W) else \<bar>p\<bar> div W)" using W by (simp add: d_def c_div_neg c_div_nonneg)
    with 1 show "\<bar>p - W * d\<bar> < W" "\<bar>d\<bar> \<le> \<bar>p\<bar>" by (auto simp: mult.commute)
  qed
  have load: "(case cfs_curr cfs of Some cur \<Rightarrow> if se_on_rq cur then u64 (cfs_avg_load cfs + se_w cur) else cfs_avg_load cfs
      | None \<Rightarrow> cfs_avg_load cfs) = W"
    using W l63 by (simp add: W_def competing_def add.commute u64_id split: option.splits if_splits)
  have "s64 p = p" "s32 W = W" using p W by (auto intro!: s64_small s32_id)
  then have lag: "div_s64 (s64 (se_vlag se * (W + se_w se))) W = d"
    by (simp add: div_s64_def d_def p_def)
  define se' where "se' = place_entity env cfs se initial"
  have v: "se_vruntime se' = u64 (avg_vruntime cfs - d)" and w: "se_w se' = se_w se"
    using W feat lag by (simp_all add: se'_def place_entity_vruntime place_entity_keeps load)
  have "se_vruntime se' = u64 (cfs_min_vruntime cfs + (A div W - d))"
    unfolding v using avg_vruntime_floor [OF ok] by (simp add: A_def W_def cint_absorb algebra_simps)
  moreover have "\<bar>A div W\<bar> * 1 \<le> \<bar>A div W\<bar> * W" using W by (intro mult_left_mono) auto
  then have "\<bar>A div W - d\<bar> < 2 ^ 63" using div_mult_abs [OF W(1), of A] ksum_fits [OF ok(2)] W d(2) p by (simp add: A_def)
  ultimately have k: "entity_key cfs se' = A div W - d" by (rule entity_key_min_add)
  define L where "L = ksum cfs (se' # competing cfs) - entity_key cfs se' * lsum (se' # competing cfs)"
  have "L = A - (A div W - d) * W" by (simp add: L_def k A_def W_def algebra_simps)
  also have "\<dots> = A mod W + W * d" by (simp add: minus_div_mult_eq_mod [symmetric] algebra_simps)
  finally have "L - p = A mod W - (p - W * d)" by simp
  moreover have "0 \<le> A mod W" "A mod W < W" using W by simp_all
  ultimately have "- W < L - p \<and> L - p < 2 * W" using d(1) by linarith
  moreover have "(W + se_w se) * se_vlag se = p" by (simp add: p_def)
  ultimately show ?thesis unfolding L_def se'_def W_def Let_def by (simp only:)
qed

theorem place_entity_preserves_lag_witness:
  "let se = (example_task 5 70 0 0)\<lparr>se_vlag := 5000\<rparr>; se' = place_entity example_env example_cfs se False; W = lsum (competing example_cfs) in
     ksum example_cfs (se' # competing example_cfs) - entity_key example_cfs se' * lsum (se' # competing example_cfs)
       - (W + se_w se) * 5000 < 2 * W"
proof -
  have "\<bar>se_vlag ((example_task 5 70 0 0)\<lparr>se_vlag := 5000\<rparr>)\<bar> * (lsum (competing example_cfs) + se_w ((example_task 5 70 0 0)\<lparr>se_vlag := 5000\<rparr>)) < 2 ^ 61"
    by code_simp
  moreover have "PLACE_LAG example_env" by (simp add: example_env_def)
  ultimately show ?thesis
    using place_entity_preserves_lag [OF example_timeline_ok(2,3) example_cfs_facts(2) _ example_cfs_facts(4) _ example_cfs_facts(3),
        of example_env "(example_task 5 70 0 0)\<lparr>se_vlag := 5000\<rparr>" False]
    by (simp add: Let_def del: ksum_simps sums_simps)
qed

end
