(* ===== verification/Fair_Load_Props.thy ===== *)
theory Fair_Load_Props
  imports Fair_Load Eevdf_Props
begin

text \<open>
  What the load averages of the fair class satisfy: attaching and detaching are inverse, propagation copies the averages of a
  group runqueue to its entity, the load of a task group tracks its runqueues, its shares are split in proportion, and the
  estimated utilization follows its specification.
\<close>

section \<open>Saturation\<close>

lemma sub_positive_u64:
  "is_u64 var \<Longrightarrow> is_u64 val \<Longrightarrow> sub_positive u64 var val = (if val \<le> var then var - val else 0)"
proof -
  assume r: "is_u64 var" "is_u64 val"
  show ?thesis
  proof (cases "val \<le> var")
    case True
    with r have "u64 (var - val) = var - val" by (intro u64_id) (auto simp: is_u64_def)
    with r True show ?thesis by (simp add: sub_positive_def is_u64_def)
  next
    case False
    with r have "u64 (var - val) = var - val + 2 ^ 64"
      by (simp add: u64_def is_u64_def minus_mod_eq_mult_div [symmetric])
         (smt (verit) mod_add_self2 mod_pos_pos_trivial)
    with r False show ?thesis by (simp add: sub_positive_def is_u64_def)
  qed
qed

lemma sub_positive_u32:
  "is_u32 var \<Longrightarrow> is_u32 val \<Longrightarrow> sub_positive u32 var val = (if val \<le> var then var - val else 0)"
proof -
  assume r: "is_u32 var" "is_u32 val"
  show ?thesis
  proof (cases "val \<le> var")
    case True
    with r have "u32 (var - val) = var - val" by (intro u32_id) (auto simp: is_u32_def)
    with r True show ?thesis by (simp add: sub_positive_def is_u32_def)
  next
    case False
    with r have "u32 (var - val) = var - val + 2 ^ 32"
      by (simp add: u32_def is_u32_def)
         (smt (verit) mod_add_self2 mod_pos_pos_trivial)
    with r False show ?thesis by (simp add: sub_positive_def is_u32_def)
  qed
qed

lemma max_u32_id: "is_u32 a \<Longrightarrow> is_u32 b \<Longrightarrow> max_u32 a b = max a b"
  by (simp add: max_u32_def)

section \<open>Attach and detach\<close>

text \<open>
  The averages of a runqueue: no average is more than its sum allows at the smallest divider, and the sums fit
  in 32 bits.
\<close>

definition avg_floor :: "sched_avg \<Rightarrow> bool" where
  "avg_floor sa \<longleftrightarrow>
     0 \<le> load_avg sa \<and> load_avg sa * PELT_MIN_DIVIDER \<le> load_sum sa \<and> is_u32 (load_sum sa) \<and>
     0 \<le> util_avg sa \<and> util_avg sa * PELT_MIN_DIVIDER \<le> util_sum sa \<and> is_u32 (util_sum sa) \<and>
     0 \<le> runnable_avg sa \<and> runnable_avg sa * PELT_MIN_DIVIDER \<le> runnable_sum sa \<and> is_u32 (runnable_sum sa)"

text \<open>The load sum \<open>attach_entity_load_avg\<close> gives an entity.\<close>

definition attach_load_sum :: "int \<Rightarrow> sched_entity \<Rightarrow> int" where
  "attach_load_sum divider se =
     (let s = load_avg (se_avg se) * divider in if se_weight se < s then s div se_weight se else 1)"

definition attach_fits :: "cfs_rq \<Rightarrow> sched_entity \<Rightarrow> bool" where
  "attach_fits cfs se \<longleftrightarrow>
     (let divider = get_pelt_divider (cfs_avg cfs); a = se_avg se in
      0 \<le> period_contrib (cfs_avg cfs) \<and> period_contrib (cfs_avg cfs) < 1024 \<and>
      0 < se_weight se \<and> is_u32 (se_weight se) \<and>
      0 \<le> util_avg a \<and> is_u32 (util_sum (cfs_avg cfs) + util_avg a * divider) \<and>
      0 \<le> runnable_avg a \<and> is_u32 (runnable_sum (cfs_avg cfs) + runnable_avg a * divider) \<and>
      0 \<le> load_avg a \<and> is_u32 (load_avg a * divider))"

lemma attach_load_sum_range:
  assumes "attach_fits cfs se"
  defines "d \<equiv> get_pelt_divider (cfs_avg cfs)"
  shows "0 \<le> attach_load_sum d se" "attach_load_sum d se < 2 ^ 32"
    "0 \<le> se_weight se * attach_load_sum d se" "se_weight se * attach_load_sum d se < 2 ^ 32"
proof -
  let ?w = "se_weight se" and ?s = "load_avg (se_avg se) * d"
  have w: "0 < ?w" "?w < 2 ^ 32" and s: "0 \<le> ?s" "?s < 2 ^ 32"
    using assms by (auto simp: attach_fits_def Let_def is_u32_def)
  have "?s div ?w \<le> ?s div 1" using w s by (intro zdiv_mono2) auto
  then have "?s div ?w < 2 ^ 32" "0 \<le> ?s div ?w" using s w by (auto simp: pos_imp_zdiv_nonneg_iff)
  moreover have "?w * (?s div ?w) \<le> ?s" using int_div_mult_le [OF w(1), of ?s] by (simp add: mult.commute)
  ultimately show "0 \<le> attach_load_sum d se" "attach_load_sum d se < 2 ^ 32"
    "0 \<le> se_weight se * attach_load_sum d se" "se_weight se * attach_load_sum d se < 2 ^ 32"
    using w s by (auto simp: attach_load_sum_def Let_def)
qed

lemma attach_entity_load_avg_eq:
  assumes f: "attach_fits cfs se" and c: "avg_floor (cfs_avg cfs)"
  defines "d \<equiv> get_pelt_divider (cfs_avg cfs)" and "sa \<equiv> cfs_avg cfs" and "a \<equiv> se_avg se"
  shows "attach_entity_load_avg cfs se =
    (cfs\<lparr>cfs_avg := sa\<lparr>load_avg := u64 (load_avg sa + load_avg a),
           load_sum := load_sum sa + se_weight se * attach_load_sum d se,
           util_avg := u64 (util_avg sa + util_avg a), util_sum := util_sum sa + util_avg a * d,
           runnable_avg := u64 (runnable_avg sa + runnable_avg a), runnable_sum := runnable_sum sa + runnable_avg a * d\<rparr>,
         propagate := True, prop_runnable_sum := s64 (prop_runnable_sum cfs + attach_load_sum d se)\<rparr>,
     se\<lparr>se_avg := a\<lparr>last_update_time := last_update_time sa, period_contrib := period_contrib sa,
       util_sum := util_avg a * d, runnable_sum := runnable_avg a * d, load_sum := attach_load_sum d se\<rparr>\<rparr>)"
proof -
  have d: "0 \<le> d" by (simp add: d_def get_pelt_divider_def)
  have s: "0 \<le> util_sum sa" "0 \<le> runnable_sum sa" "0 \<le> load_sum sa" "load_sum sa < 2 ^ 32"
    using c by (auto simp: sa_def avg_floor_def is_u32_def)
  have pu: "0 \<le> util_avg a * d" and pr: "0 \<le> runnable_avg a * d" and pl: "0 \<le> load_avg a * d"
    using f d by (auto simp: attach_fits_def Let_def a_def)
  have u: "u32 (util_avg a * d) = util_avg a * d" "u32 (util_sum sa + util_avg a * d) = util_sum sa + util_avg a * d"
    using f s pu by (auto simp: attach_fits_def Let_def is_u32_def a_def d_def sa_def intro!: u32_id)
  have r: "u64 (runnable_avg a * d) = runnable_avg a * d"
    "u64 (runnable_sum sa + runnable_avg a * d) = runnable_sum sa + runnable_avg a * d"
    using f s pr by (auto simp: attach_fits_def Let_def is_u32_def a_def d_def sa_def intro!: u64_id)
  have l: "u64 (load_avg a * d) = load_avg a * d" "u32 (se_weight se) = se_weight se"
    using f pl by (auto simp: attach_fits_def Let_def is_u32_def a_def d_def intro!: u64_id)
  note R = attach_load_sum_range [OF f, folded d_def]
  have w: "u64 (se_weight se * attach_load_sum d se) = se_weight se * attach_load_sum d se"
    "u64 (load_sum sa + se_weight se * attach_load_sum d se) = load_sum sa + se_weight se * attach_load_sum d se"
    "s64 (attach_load_sum d se) = attach_load_sum d se"
    using R s by (auto intro!: u64_id s64_id)
  have als: "(if se_weight se < load_avg a * d then div_u64 (load_avg a * d) (se_weight se) else 1) = attach_load_sum d se"
    using l by (simp add: attach_load_sum_def a_def div_u64_def)
  have dd: "get_pelt_divider sa = d" by (simp add: sa_def d_def)
  show ?thesis
    unfolding attach_entity_load_avg_def
    using als l w u r
    by (cases "se_weight se < load_avg a * d")
       (simp_all add: Let_def dd sa_def [symmetric] a_def [symmetric] enqueue_load_avg_def se_weight_def add_tg_cfs_propagate_def)
qed


lemma mult_divider_small:
  "0 \<le> x \<Longrightarrow> 46718 \<le> d \<Longrightarrow> x * d < 4294967296 \<Longrightarrow> x < (91934 :: int)"
proof -
  assume a: "0 \<le> x" "46718 \<le> d" "x * d < 4294967296"
  then have "x * 46718 \<le> x * d" by (intro mult_left_mono) auto
  with a show ?thesis by linarith
qed

lemma avg_floorD:
  assumes "avg_floor sa"
  shows "0 \<le> load_avg sa" "load_avg sa * 46718 \<le> load_sum sa" "0 \<le> load_sum sa" "load_sum sa < 2 ^ 32"
    "0 \<le> util_avg sa" "util_avg sa * 46718 \<le> util_sum sa" "0 \<le> util_sum sa" "util_sum sa < 2 ^ 32"
    "0 \<le> runnable_avg sa" "runnable_avg sa * 46718 \<le> runnable_sum sa" "0 \<le> runnable_sum sa" "runnable_sum sa < 2 ^ 32"
  using assms by (auto simp: avg_floor_def PELT_MIN_DIVIDER_def LOAD_AVG_MAX_def is_u32_def)

lemma avg_floor_max:
  assumes "avg_floor sa"
  shows "max_u32 (load_sum sa) (load_avg sa * PELT_MIN_DIVIDER) = load_sum sa"
    "max_u32 (util_sum sa) (util_avg sa * PELT_MIN_DIVIDER) = util_sum sa"
    "max_u32 (runnable_sum sa) (runnable_avg sa * PELT_MIN_DIVIDER) = runnable_sum sa"
  using avg_floorD [OF assms] by (auto simp: max_u32_def PELT_MIN_DIVIDER_def LOAD_AVG_MAX_def u32_id)

lemma attach_undo:
  assumes f: "attach_fits cfs se" and c: "avg_floor (cfs_avg cfs)"
  defines "d \<equiv> get_pelt_divider (cfs_avg cfs)" and "sa \<equiv> cfs_avg cfs" and "a \<equiv> se_avg se"
  defines "l \<equiv> attach_load_sum d se"
  shows "u64 (se_weight se * l) = se_weight se * l"
    "sub_positive u64 (u64 (load_avg sa + load_avg a)) (load_avg a) = load_avg sa"
    "sub_positive u64 (load_sum sa + se_weight se * l) (se_weight se * l) = load_sum sa"
    "sub_positive u64 (u64 (util_avg sa + util_avg a)) (util_avg a) = util_avg sa"
    "sub_positive u32 (util_sum sa + util_avg a * d) (util_avg a * d) = util_sum sa"
    "sub_positive u64 (u64 (runnable_avg sa + runnable_avg a)) (runnable_avg a) = runnable_avg sa"
    "sub_positive u64 (runnable_sum sa + runnable_avg a * d) (runnable_avg a * d) = runnable_sum sa"
proof -
  have d: "46718 \<le> d"
    using f by (auto simp: d_def get_pelt_divider_def attach_fits_def PELT_MIN_DIVIDER_def LOAD_AVG_MAX_def Let_def u32_id)
  note s = avg_floorD [OF c, folded sa_def]
  have e: "0 \<le> util_avg a" "util_avg a * d < 2 ^ 32" "util_sum sa + util_avg a * d < 2 ^ 32"
    "0 \<le> runnable_avg a" "runnable_avg a * d < 2 ^ 32" "0 \<le> load_avg a" "load_avg a * d < 2 ^ 32"
    using f s by (auto simp: attach_fits_def Let_def is_u32_def a_def d_def sa_def)
  have e': "0 \<le> util_avg a * d" "0 \<le> runnable_avg a * d" using e d by auto
  have sm: "util_avg a < 91934" "runnable_avg a < 91934" "load_avg a < 91934"
    using mult_divider_small [OF _ d] e by auto
  note R = attach_load_sum_range [OF f, folded d_def l_def]
  have U: "u64 (load_avg sa + load_avg a) = load_avg sa + load_avg a"
    "u64 (util_avg sa + util_avg a) = util_avg sa + util_avg a"
    "u64 (runnable_avg sa + runnable_avg a) = runnable_avg sa + runnable_avg a"
    using s sm e by (auto intro!: u64_id)
  show "u64 (se_weight se * l) = se_weight se * l"
    "sub_positive u64 (u64 (load_avg sa + load_avg a)) (load_avg a) = load_avg sa"
    "sub_positive u64 (load_sum sa + se_weight se * l) (se_weight se * l) = load_sum sa"
    "sub_positive u64 (u64 (util_avg sa + util_avg a)) (util_avg a) = util_avg sa"
    "sub_positive u32 (util_sum sa + util_avg a * d) (util_avg a * d) = util_sum sa"
    "sub_positive u64 (u64 (runnable_avg sa + runnable_avg a)) (runnable_avg a) = runnable_avg sa"
    "sub_positive u64 (runnable_sum sa + runnable_avg a * d) (runnable_avg a * d) = runnable_sum sa"
    unfolding U using s sm e e' R by (auto simp: sub_positive_u64 sub_positive_u32 is_u64_def is_u32_def u64_id)
qed


definition example_load_cfs :: cfs_rq where
  "example_load_cfs = example_cfs0\<lparr>cfs_load := \<lparr>weight = 1048576, inv_weight = 0\<rparr>, tg_load_avg_contrib := 1024,
     cfs_avg := (cfs_avg example_cfs0)\<lparr>last_update_time := 9000, period_contrib := 512, load_avg := 1024, load_sum := 1024 * 47230,
       util_avg := 300, util_sum := 300 * 47230, runnable_avg := 500, runnable_sum := 500 * 47230\<rparr>\<rparr>"

definition example_load_se :: sched_entity where
  "example_load_se = example_se\<lparr>se_avg := (se_avg example_se)\<lparr>load_avg := 335, util_avg := 200, runnable_avg := 250\<rparr>\<rparr>"


section \<open>The load of a task group\<close>

definition contrib_close :: "cfs_rq \<Rightarrow> bool" where
  "contrib_close cfs \<longleftrightarrow> \<bar>load_avg (cfs_avg cfs) - tg_load_avg_contrib cfs\<bar> \<le> tg_load_avg_contrib cfs div 64"

definition contrib_fits :: "cfs_rq \<Rightarrow> bool" where
  "contrib_fits cfs \<longleftrightarrow> 0 \<le> load_avg (cfs_avg cfs) \<and> load_avg (cfs_avg cfs) < 2 ^ 40 \<and>
     0 \<le> tg_load_avg_contrib cfs \<and> tg_load_avg_contrib cfs < 2 ^ 40"

lemma update_tg_load_avg_one:
  assumes "contrib_fits cfs" "\<not> tg_is_root tg" "\<bar>tg_load_avg tg\<bar> < 2 ^ 62"
    and eq: "update_tg_load_avg cfs tg = (cfs', tg')"
  shows "tg_load_avg tg' = tg_load_avg tg - tg_load_avg_contrib cfs + tg_load_avg_contrib cfs'"
    "contrib_close cfs'" "load_avg (cfs_avg cfs') = load_avg (cfs_avg cfs)"
proof -
  have d: "s64 (load_avg (cfs_avg cfs) - tg_load_avg_contrib cfs) = load_avg (cfs_avg cfs) - tg_load_avg_contrib cfs"
    using assms(1) by (intro s64_small) (auto simp: contrib_fits_def)
  have t: "s64 (tg_load_avg tg + (load_avg (cfs_avg cfs) - tg_load_avg_contrib cfs)) =
      tg_load_avg tg + (load_avg (cfs_avg cfs) - tg_load_avg_contrib cfs)"
    using assms(1,3) by (intro s64_small) (auto simp: contrib_fits_def)
  have z: "0 \<le> tg_load_avg_contrib cfs div 64" "0 \<le> load_avg (cfs_avg cfs) div 64"
    using assms(1) by (auto simp: contrib_fits_def)
  show "tg_load_avg tg' = tg_load_avg tg - tg_load_avg_contrib cfs + tg_load_avg_contrib cfs'"
    "contrib_close cfs'" "load_avg (cfs_avg cfs') = load_avg (cfs_avg cfs)"
    using eq assms(2) d t z by (auto simp: update_tg_load_avg_def contrib_close_def Let_def split: if_splits)
qed

text \<open>
  C23: the load average of a task group is the sum of what its runqueues contributed, and tracks the sum of their load
  averages: when one runqueue's load average has moved to any value, one call of \<open>update_tg_load_avg\<close> brings the total back to within
  a 64th of the sum, with the other runqueues as they are.
\<close>

theorem update_tg_load_avg_tracks:
  assumes i: "i < length cfss" and n: "length cfss < 2 ^ 20" and fits: "\<forall>cfs \<in> set cfss. contrib_fits cfs"
    and nr: "\<not> tg_is_root tg" and sum: "tg_load_avg tg = (\<Sum>cfs\<leftarrow>cfss. tg_load_avg_contrib cfs)"
    and close: "\<forall>j < length cfss. j \<noteq> i \<longrightarrow> contrib_close (cfss ! j)"
  shows "case update_tg_load_avg (cfss ! i) tg of (cfs', tg') \<Rightarrow>
      let cfss' = cfss[i := cfs'] in
      tg_load_avg tg' = (\<Sum>cfs\<leftarrow>cfss'. tg_load_avg_contrib cfs) \<and>
      (\<Sum>cfs\<leftarrow>cfss'. load_avg (cfs_avg cfs)) = (\<Sum>cfs\<leftarrow>cfss. load_avg (cfs_avg cfs)) \<and>
      \<bar>(\<Sum>cfs\<leftarrow>cfss'. load_avg (cfs_avg cfs)) - tg_load_avg tg'\<bar> \<le> tg_load_avg tg' div 64"
proof -
  obtain cfs' tg' where u: "update_tg_load_avg (cfss ! i) tg = (cfs', tg')" by fastforce
  have "0 \<le> tg_load_avg tg \<and> tg_load_avg tg \<le> int (length cfss) * 2 ^ 40"
    unfolding sum using fits by (intro sum_list_range) (auto simp: contrib_fits_def)
  with n have "\<bar>tg_load_avg tg\<bar> < 2 ^ 62" by simp
  note one = update_tg_load_avg_one [OF _ nr this u]
  have o: "tg_load_avg tg' = tg_load_avg tg - tg_load_avg_contrib (cfss ! i) + tg_load_avg_contrib cfs'"
    "contrib_close cfs'" "load_avg (cfs_avg cfs') = load_avg (cfs_avg (cfss ! i))"
    using one fits i by auto
  have t: "tg_load_avg tg' = (\<Sum>cfs\<leftarrow>cfss[i := cfs']. tg_load_avg_contrib cfs)"
    using o(1) i by (simp add: sum_list_update_int sum)
  have "\<forall>cfs \<in> set (cfss[i := cfs']). contrib_close cfs"
    using close o(2) by (metis in_set_conv_nth length_list_update nth_list_update_eq nth_list_update_neq)
  then have "\<bar>(\<Sum>cfs\<leftarrow>cfss[i := cfs']. load_avg (cfs_avg cfs)) - (\<Sum>cfs\<leftarrow>cfss[i := cfs']. tg_load_avg_contrib cfs)\<bar>
      \<le> (\<Sum>cfs\<leftarrow>cfss[i := cfs']. tg_load_avg_contrib cfs div 64)"
    by (intro sum_list_close) (simp add: contrib_close_def)
  also have "\<dots> \<le> tg_load_avg tg' div 64"
    unfolding t by (rule sum_list_div_le) simp
  finally show ?thesis
    using i o(3) t by (simp add: u sum_list_update_int)
qed

theorem update_tg_load_avg_tracks_witness:
  "let cfss = [example_load_cfs, example_load_cfs\<lparr>tg_load_avg_contrib := 900\<rparr>] in
   tg_load_avg (snd (update_tg_load_avg (cfss ! 1) \<lparr>tg_shares = 1024, tg_load_avg = 1924, tg_is_root = False\<rparr>)) = 2048"
proof -
  let ?cfss = "[example_load_cfs, example_load_cfs\<lparr>tg_load_avg_contrib := 900\<rparr>]"
    and ?tg = "\<lparr>tg_shares = 1024, tg_load_avg = 1924, tg_is_root = False\<rparr>"
  have "\<forall>cfs \<in> set ?cfss. contrib_fits cfs" "tg_load_avg ?tg = (\<Sum>cfs\<leftarrow>?cfss. tg_load_avg_contrib cfs)"
    "contrib_close (?cfss ! 0)" by code_simp+
  moreover have "\<forall>j < length ?cfss. j \<noteq> 1 \<longrightarrow> contrib_close (?cfss ! j)"
    using calculation(3) by (auto simp: less_Suc_eq)
  ultimately have "let cfss' = ?cfss[1 := fst (update_tg_load_avg (?cfss ! 1) ?tg)] in
      tg_load_avg (snd (update_tg_load_avg (?cfss ! 1) ?tg)) = (\<Sum>cfs\<leftarrow>cfss'. tg_load_avg_contrib cfs)"
    using update_tg_load_avg_tracks [of 1 ?cfss ?tg] by (simp add: case_prod_unfold Let_def)
  moreover have "(\<Sum>cfs\<leftarrow>?cfss[1 := fst (update_tg_load_avg (?cfss ! 1) ?tg)]. tg_load_avg_contrib cfs) = 2048" by code_simp
  ultimately show ?thesis by (simp add: Let_def)
qed

section \<open>Shares\<close>

text \<open>The load \<open>calc_group_shares\<close> uses, and a group whose runqueues have all contributed just that.\<close>

definition shares_load :: "cfs_rq \<Rightarrow> int" where
  "shares_load cfs = max (scale_load_down (weight (cfs_load cfs))) (load_avg (cfs_avg cfs))"

definition shares_fit :: "task_group \<Rightarrow> cfs_rq list \<Rightarrow> bool" where
  "shares_fit tg cfss \<longleftrightarrow>
     MIN_SHARES \<le> tg_shares tg \<and> tg_shares tg < 2 ^ 20 \<and> int (length cfss) < 2 ^ 20 \<and>
     (\<forall>cfs \<in> set cfss. shares_load cfs < 2 ^ 40 \<and> tg_load_avg_contrib cfs = shares_load cfs) \<and>
     tg_load_avg tg = (\<Sum>cfs\<leftarrow>cfss. tg_load_avg_contrib cfs)"

lemma shares_load_nonneg: "0 \<le> shares_load cfs"
  by (simp add: shares_load_def le_max_iff_disj)

lemma calc_group_shares_eq:
  assumes f: "shares_fit tg cfss" and i: "cfs \<in> set cfss"
  shows "calc_group_shares cfs tg =
    max MIN_SHARES (if tg_load_avg tg = 0 then 0 else tg_shares tg * shares_load cfs div tg_load_avg tg)"
    and "shares_load cfs \<le> tg_load_avg tg"
proof -
  have l: "shares_load cfs < 2 ^ 40" "tg_load_avg_contrib cfs = shares_load cfs"
    and s: "2 \<le> tg_shares tg" "tg_shares tg < 2 ^ 20" and n: "int (length cfss) < 2 ^ 20"
    using f i by (auto simp: shares_fit_def MIN_SHARES_def)
  have T: "0 \<le> tg_load_avg tg \<and> tg_load_avg tg \<le> int (length cfss) * 2 ^ 40"
    using f unfolding shares_fit_def by (metis (no_types, lifting) less_imp_le shares_load_nonneg sum_list_range)
  have "tg_load_avg tg = (\<Sum>cfs\<leftarrow>cfss. shares_load cfs)"
    using f by (auto simp: shares_fit_def intro!: arg_cong [of _ _ sum_list])
  then show le: "shares_load cfs \<le> tg_load_avg tg"
    using i by (simp add: sum_list_member_le shares_load_nonneg)
  have 1: "s64 (shares_load cfs) = shares_load cfs" "s64 (tg_load_avg tg - shares_load cfs) = tg_load_avg tg - shares_load cfs"
    "s64 (tg_load_avg tg) = tg_load_avg tg"
    using l T n le shares_load_nonneg [of cfs] by (auto intro!: s64_id)
  have "tg_shares tg * shares_load cfs \<le> 2 ^ 20 * 2 ^ 40"
    using s l shares_load_nonneg [of cfs] by (intro mult_mono) auto
  moreover have p: "0 \<le> tg_shares tg * shares_load cfs" using s shares_load_nonneg [of cfs] by auto
  ultimately have 2: "s64 (tg_shares tg * shares_load cfs) = tg_shares tg * shares_load cfs"
    by (intro s64_id) auto
  have "tg_shares tg * shares_load cfs div tg_load_avg tg \<le> tg_shares tg" if "tg_load_avg tg \<noteq> 0"
  proof -
    have "tg_shares tg * shares_load cfs \<le> tg_shares tg * tg_load_avg tg"
      using s le by (intro mult_left_mono) auto
    then have "tg_shares tg * shares_load cfs div tg_load_avg tg \<le> tg_shares tg * tg_load_avg tg div tg_load_avg tg"
      using that T by (intro zdiv_mono1) auto
    with that show ?thesis by simp
  qed
  then show "calc_group_shares cfs tg =
    max MIN_SHARES (if tg_load_avg tg = 0 then 0 else tg_shares tg * shares_load cfs div tg_load_avg tg)"
    unfolding calc_group_shares_def shares_load_def [symmetric] Let_def l(2) 1
    using 1 2 T p s le shares_load_nonneg [of cfs] by (auto simp: c_div_nonneg MIN_SHARES_def)
qed

lemma shares_fit_sum:
  assumes "shares_fit tg cfss"
  shows "tg_load_avg tg = (\<Sum>cfs\<leftarrow>cfss. shares_load cfs)" "0 \<le> tg_load_avg tg" "2 \<le> tg_shares tg"
proof -
  have "map tg_load_avg_contrib cfss = map shares_load cfss"
    using assms by (simp add: shares_fit_def)
  then have "sum_list (map tg_load_avg_contrib cfss) = sum_list (map shares_load cfss)" by (rule arg_cong)
  then show e: "tg_load_avg tg = (\<Sum>cfs\<leftarrow>cfss. shares_load cfs)"
    using assms by (simp add: shares_fit_def)
  show "0 \<le> tg_load_avg tg" unfolding e by (rule sum_list_nonneg) (auto simp: shares_load_nonneg)
  show "2 \<le> tg_shares tg" using assms by (simp add: shares_fit_def MIN_SHARES_def)
qed

lemma calc_group_shares_bounds:
  assumes f: "shares_fit tg cfss" and c: "cfs \<in> set cfss"
  defines "g \<equiv> calc_group_shares cfs tg"
  shows "MIN_SHARES \<le> g" "g \<le> tg_shares tg"
    "MIN_SHARES < g \<Longrightarrow> g * tg_load_avg tg \<le> tg_shares tg * shares_load cfs"
    "MIN_SHARES < g \<Longrightarrow> tg_shares tg * shares_load cfs < (g + 1) * tg_load_avg tg"
proof -
  let ?T = "tg_load_avg tg" and ?s = "tg_shares tg" and ?l = "shares_load cfs"
  note e = calc_group_shares_eq [OF f c, folded g_def] and s = shares_fit_sum(2,3) [OF f]
  have "?s * ?l \<le> ?s * ?T" using e(2) s by (intro mult_left_mono) auto
  then have q: "?s * ?l div ?T \<le> ?s" if "?T \<noteq> 0"
    using that s zdiv_mono1 [of "?s * ?l" "?s * ?T" ?T] by simp
  show "MIN_SHARES \<le> g" "g \<le> tg_shares tg" using e(1) q s by (auto simp: MIN_SHARES_def)
  assume "MIN_SHARES < g"
  then have "g = ?s * ?l div ?T" "0 < ?T" using e(1) s by (auto simp: MIN_SHARES_def max_def split: if_splits)
  then show "g * ?T \<le> ?s * ?l" "?s * ?l < (g + 1) * ?T"
    by (simp_all add: int_div_mult_le int_less_div_Suc)
qed



section \<open>Truncation of the load sum\<close>

text \<open>
  C37: \<open>load_sum\<close> is 64 bits wide but clamped by a 32-bit maximum.  Removing an entity that contributes nothing leaves a load sum
  of \<open>2 ^ 32\<close> or more reduced modulo \<open>2 ^ 32\<close> (or at the floor), although nothing was to be removed.
\<close>

theorem dequeue_load_avg_truncates:
  assumes "load_avg (se_avg se) = 0" "load_sum (se_avg se) = 0"
    and "2 ^ 32 \<le> load_sum (cfs_avg cfs)" "load_sum (cfs_avg cfs) < 2 ^ 64" "is_u64 (load_avg (cfs_avg cfs))"
  shows "load_sum (cfs_avg (dequeue_load_avg cfs se)) =
      max (load_sum (cfs_avg cfs) mod 2 ^ 32) (load_avg (cfs_avg cfs) * PELT_MIN_DIVIDER mod 2 ^ 32) \<and>
    load_sum (cfs_avg (dequeue_load_avg cfs se)) < load_sum (cfs_avg cfs) \<and>
    load_avg (cfs_avg (dequeue_load_avg cfs se)) = load_avg (cfs_avg cfs)"
proof -
  have "sub_positive u64 (load_avg (cfs_avg cfs)) 0 = load_avg (cfs_avg cfs)"
    "sub_positive u64 (load_sum (cfs_avg cfs)) 0 = load_sum (cfs_avg cfs)"
    using assms by (auto simp: sub_positive_u64 is_u64_def)
  moreover have "x mod 4294967296 < load_sum (cfs_avg cfs)" for x
    using assms(3) pos_mod_bound [of 4294967296 x] by simp
  ultimately show ?thesis
    using assms by (simp add: dequeue_load_avg_def Let_def max_u32_def u32_def u64_id)
qed

text \<open>Two busy tasks of nice -20 bring a runqueue there.\<close>

theorem dequeue_load_avg_truncates_witness:
  "let cfs = example_load_cfs\<lparr>cfs_avg := (cfs_avg example_load_cfs)\<lparr>load_avg := 2 * 88761, load_sum := 2 * 88761 * 47230\<rparr>\<rparr>
   in load_sum (cfs_avg (dequeue_load_avg cfs example_se)) < load_sum (cfs_avg cfs) \<and>
      load_sum (cfs_avg (dequeue_load_avg cfs example_se)) < 4294967296"
proof -
  let ?cfs = "example_load_cfs\<lparr>cfs_avg := (cfs_avg example_load_cfs)\<lparr>load_avg := 2 * 88761, load_sum := 2 * 88761 * 47230\<rparr>\<rparr>"
  have "load_avg (se_avg example_se) = 0" "load_sum (se_avg example_se) = 0" "2 ^ 32 \<le> load_sum (cfs_avg ?cfs)"
    "load_sum (cfs_avg ?cfs) < 2 ^ 64" "is_u64 (load_avg (cfs_avg ?cfs))" by code_simp+
  from dequeue_load_avg_truncates [OF this] show ?thesis by (simp only: Let_def) code_simp
qed

section \<open>Estimated utilization\<close>

lemma within_margin_abs:
  assumes "0 < margin" "margin < 2 ^ 30" "\<bar>s32 x\<bar> < 2 ^ 30"
  shows "within_margin x margin \<longleftrightarrow> \<bar>s32 x\<bar> < margin"
proof (cases "0 \<le> s32 x + margin - 1")
  case True
  then show ?thesis using assms by (auto simp: within_margin_def u32_id)
next
  case False
  have "u32 (s32 x + margin - 1) = s32 x + margin - 1 + 2 ^ 32"
    using False assms by (simp add: u32_def) (smt (verit) mod_add_self2 mod_pos_pos_trivial)
  then show ?thesis using assms False by (auto simp: within_margin_def u32_id)
qed

lemma UTIL_AVG_UNCHANGED_or:
  assumes "0 \<le> x" "x < 2147483648"
  shows "x OR UTIL_AVG_UNCHANGED = x + UTIL_AVG_UNCHANGED" "x AND UTIL_AVG_UNCHANGED = 0"
    "(x OR UTIL_AVG_UNCHANGED) AND 2147483647 = x" "x AND 2147483647 = x"
proof -
  have m: "x AND 2147483647 = x mod 2147483648" for x :: int
    using take_bit_eq_mask [of 31 x] by (simp add: take_bit_eq_mod mask_eq_exp_minus_1)
  show z: "x AND UTIL_AVG_UNCHANGED = 0"
  proof (rule bit_eqI)
    fix n
    have "\<not> bit x 31" using assms by (simp add: bit_iff_odd)
    moreover have "bit (2147483648 :: int) n \<longleftrightarrow> n = 31" using bit_exp_iff [of 31 n, where 'a = int] by simp
    ultimately show "bit (x AND UTIL_AVG_UNCHANGED) n = bit 0 n"
      by (auto simp: UTIL_AVG_UNCHANGED_def bit_and_iff)
  qed
  then show o: "x OR UTIL_AVG_UNCHANGED = x + UTIL_AVG_UNCHANGED"
    using plus_and_or [of x UTIL_AVG_UNCHANGED] by simp
  show "(x OR UTIL_AVG_UNCHANGED) AND 2147483647 = x" "x AND 2147483647 = x"
    using assms unfolding o by (simp_all add: m UTIL_AVG_UNCHANGED_def)
qed

text \<open>The new moving average, over unbounded integers: it jumps up to the utilization and moves down by a quarter of the difference.\<close>

definition ewma_spec :: "int \<Rightarrow> int \<Rightarrow> int" where
  "ewma_spec ewma util =
     (if ewma < util then util
      else if ewma - util < UTIL_EST_MARGIN then ewma
      else (3 * ewma + util) div 4)"

lemma ewma_spec_bounds: "util \<le> ewma_spec ewma util" "ewma_spec ewma util \<le> max ewma util"
  by (auto simp: ewma_spec_def)

lemma ewma_step:
  assumes "0 \<le> util" "util \<le> ewma" "ewma < 2 ^ 29"
  shows "shr (u32 (u32 (shl ewma UTIL_EST_WEIGHT_SHIFT) + u32 (util - ewma))) UTIL_EST_WEIGHT_SHIFT = (3 * ewma + util) div 4"
proof -
  have "u32 (u32 (shl ewma 2) + u32 (util - ewma)) = u32 (ewma * 4 + (util - ewma))"
    by (simp add: u32_def shl_def mod_simps)
  also have "\<dots> = 3 * ewma + util" using assms by (simp add: u32_id)
  finally show ?thesis by (simp add: shr_def UTIL_EST_WEIGHT_SHIFT_def)
qed

lemma s32_u32 [simp]: "s32 (u32 x) = s32 x"
  by (simp add: s32_def u32_def mod_simps)

lemma ue_enqueued_set: "ue\<lparr>ue_enqueued := x\<rparr> = \<lparr>ue_enqueued = x, ue_ewma = ue_ewma ue\<rparr>"
  by (cases ue) simp

definition util_est_skips :: "int \<Rightarrow> sched_avg \<Rightarrow> bool" where
  "util_est_skips cap p \<longleftrightarrow>
     (let util = util_avg p; ewma = ue_ewma (util_est p) in
      util \<le> ewma \<and>
      (if ewma - util < UTIL_EST_MARGIN then \<bar>util - ue_enqueued (util_est p)\<bar> < UTIL_EST_MARGIN else cap < util))"

text \<open>
  C29: when a task goes to sleep, its estimated utilization follows the specification.  Either the update is skipped (the estimate is
  close to both the last and the new utilization, or the utilization exceeds the CPU's capacity) and nothing changes, or the utilization is
  saved, the moving average is the specified one, and the estimate is marked unchanged.  In that case the estimate is at least
  the utilization and at most the larger of the utilization and the old average.
\<close>

theorem util_est_update_spec:
  fixes p :: sched_avg and cap :: int
  assumes u: "0 \<le> util_avg p" "util_avg p < 2 ^ 29" and e: "0 \<le> ue_ewma (util_est p)" "ue_ewma (util_est p) < 2 ^ 29"
    and q: "0 \<le> ue_enqueued (util_est p)" "ue_enqueued (util_est p) < 2 ^ 29"
  defines "p' \<equiv> util_est_update_fair True True cap p True"
  shows "if util_est_skips cap p then p' = p
    else p' = p\<lparr>util_est := \<lparr>ue_enqueued = util_avg p + UTIL_AVG_UNCHANGED,
                              ue_ewma = ewma_spec (ue_ewma (util_est p)) (util_avg p)\<rparr>\<rparr> \<and>
      util_avg p \<le> task_util_est0 p' \<and> task_util_est0 p' \<le> max (ue_ewma (util_est p)) (util_avg p)"
proof -
  let ?u = "util_avg p" and ?e = "ue_ewma (util_est p)" and ?q = "ue_enqueued (util_est p)"
  note flag = UTIL_AVG_UNCHANGED_or [of ?q] UTIL_AVG_UNCHANGED_or [of ?u]
  have s: "s32 (?u - ?e) = ?u - ?e" "s32 (s64 (?q - ?u)) = ?q - ?u"
    using u e q by (auto simp: s64_id s32_id)
  have w: "within_margin (u32 (?u - ?e)) UTIL_EST_MARGIN \<longleftrightarrow> \<bar>?u - ?e\<bar> < UTIL_EST_MARGIN"
    "within_margin (s64 (?q - ?u)) UTIL_EST_MARGIN \<longleftrightarrow> \<bar>?q - ?u\<bar> < UTIL_EST_MARGIN"
    using u e q s by (auto simp: within_margin_abs UTIL_EST_MARGIN_def SCHED_CAPACITY_SCALE_def)
  have p': "p' =
    (if ?e < ?u then util_est_done p \<lparr>ue_enqueued = ?u, ue_ewma = ?u\<rparr>
     else if ?e - ?u < UTIL_EST_MARGIN
     then (if \<bar>?u - ?q\<bar> \<ge> UTIL_EST_MARGIN then util_est_done p \<lparr>ue_enqueued = ?u, ue_ewma = ?e\<rparr> else p)
     else if ?u > cap then p else util_est_done p \<lparr>ue_enqueued = ?u, ue_ewma = (3 * ?e + ?u) div 4\<rparr>)"
    using u e q flag(2) ewma_step [of ?u ?e] w
    by (auto simp: p'_def util_est_update_fair_def ue_enqueued_set Let_def u32_id abs_minus_commute)
  have b: "task_util_est0 (p\<lparr>util_est := \<lparr>ue_enqueued = ?u + UTIL_AVG_UNCHANGED, ue_ewma = x\<rparr>\<rparr>) = max x ?u" for x
    using flag u by (simp add: task_util_est0_def)
  show ?thesis
    unfolding p' using ewma_spec_bounds [of ?u ?e] flag u b
    by (auto simp: util_est_done_def ewma_spec_def util_est_skips_def Let_def)
qed

theorem util_est_update_spec_witness:
  "let p = (se_avg example_load_se)\<lparr>util_est := \<lparr>ue_enqueued = 380, ue_ewma = 400\<rparr>\<rparr>;
       p' = util_est_update_fair True True 1024 p True
   in util_est p' = \<lparr>ue_enqueued = 200 + 2 ^ 31, ue_ewma = 350\<rparr> \<and> 200 \<le> task_util_est0 p' \<and> task_util_est0 p' \<le> 400"
proof -
  let ?p = "(se_avg example_load_se)\<lparr>util_est := \<lparr>ue_enqueued = 380, ue_ewma = 400\<rparr>\<rparr>"
  have "0 \<le> util_avg ?p" "util_avg ?p < 2 ^ 29" "0 \<le> ue_ewma (util_est ?p)" "ue_ewma (util_est ?p) < 2 ^ 29"
    "0 \<le> ue_enqueued (util_est ?p)" "ue_enqueued (util_est ?p) < 2 ^ 29" by code_simp+
  note spec = util_est_update_spec [OF this, of 1024]
  have "\<not> util_est_skips 1024 ?p" "util_avg ?p = 200" "ue_ewma (util_est ?p) = 400" "ewma_spec 400 200 = 350" by code_simp+
  with spec show ?thesis by (auto simp: Let_def UTIL_AVG_UNCHANGED_def)
qed

section \<open>Propagation\<close>

lemma add_positive_exact: "is_u64 (var + val) \<Longrightarrow> add_positive u64 var val = var + val"
  by (simp add: add_positive_def)

text \<open>The averages of a group entity are part of those of its runqueue, and all are far from wrapping.\<close>

definition part_of :: "sched_avg \<Rightarrow> sched_avg \<Rightarrow> bool" where
  "part_of a sa \<longleftrightarrow>
     0 \<le> util_avg a \<and> util_avg a \<le> util_avg sa \<and> util_avg sa < 2 ^ 60 \<and>
     0 \<le> runnable_avg a \<and> runnable_avg a \<le> runnable_avg sa \<and> runnable_avg sa < 2 ^ 60 \<and>
     0 \<le> load_avg a \<and> load_avg a \<le> load_avg sa \<and> load_avg sa < 2 ^ 60"

lemma update_tg_cfs_util_eq:
  assumes "part_of (se_avg se) (cfs_avg cfs)" "0 \<le> util_avg (cfs_avg gcfs)" "util_avg (cfs_avg gcfs) < 2 ^ 60"
  shows "\<exists>s t. update_tg_cfs_util cfs se gcfs =
    (cfs\<lparr>cfs_avg := (cfs_avg cfs)\<lparr>util_avg := util_avg (cfs_avg cfs) - util_avg (se_avg se) + util_avg (cfs_avg gcfs), util_sum := s\<rparr>\<rparr>,
     se\<lparr>se_avg := (se_avg se)\<lparr>util_avg := util_avg (cfs_avg gcfs), util_sum := t\<rparr>\<rparr>)"
proof (cases "util_avg (cfs_avg gcfs) = util_avg (se_avg se)")
  case True
  then have "update_tg_cfs_util cfs se gcfs = (cfs, se)" by (simp add: update_tg_cfs_util_def s64_def)
  moreover have "cfs = cfs\<lparr>cfs_avg := (cfs_avg cfs)\<lparr>util_avg := util_avg (cfs_avg cfs), util_sum := util_sum (cfs_avg cfs)\<rparr>\<rparr>"
    "se = se\<lparr>se_avg := (se_avg se)\<lparr>util_avg := util_avg (se_avg se), util_sum := util_sum (se_avg se)\<rparr>\<rparr>"
    by simp_all
  ultimately show ?thesis using True by (metis diff_add_cancel)
next
  case False
  have "s64 (util_avg (cfs_avg gcfs) - util_avg (se_avg se)) = util_avg (cfs_avg gcfs) - util_avg (se_avg se)"
    using assms by (intro s64_id) (auto simp: part_of_def)
  moreover have "add_positive u64 (util_avg (cfs_avg cfs)) (util_avg (cfs_avg gcfs) - util_avg (se_avg se)) =
      util_avg (cfs_avg cfs) - util_avg (se_avg se) + util_avg (cfs_avg gcfs)"
    using assms by (subst add_positive_exact) (auto simp: part_of_def is_u64_def)
  ultimately show ?thesis
    using False by (auto simp: update_tg_cfs_util_def Let_def)
qed

lemma update_tg_cfs_runnable_eq:
  assumes "part_of (se_avg se) (cfs_avg cfs)" "0 \<le> runnable_avg (cfs_avg gcfs)" "runnable_avg (cfs_avg gcfs) < 2 ^ 60"
  shows "\<exists>s t. update_tg_cfs_runnable cfs se gcfs =
    (cfs\<lparr>cfs_avg := (cfs_avg cfs)\<lparr>runnable_avg := runnable_avg (cfs_avg cfs) - runnable_avg (se_avg se) + runnable_avg (cfs_avg gcfs),
                                runnable_sum := s\<rparr>\<rparr>,
     se\<lparr>se_avg := (se_avg se)\<lparr>runnable_avg := runnable_avg (cfs_avg gcfs), runnable_sum := t\<rparr>\<rparr>)"
proof (cases "runnable_avg (cfs_avg gcfs) = runnable_avg (se_avg se)")
  case True
  then have "update_tg_cfs_runnable cfs se gcfs = (cfs, se)" by (simp add: update_tg_cfs_runnable_def s64_def)
  moreover have
    "cfs = cfs\<lparr>cfs_avg := (cfs_avg cfs)\<lparr>runnable_avg := runnable_avg (cfs_avg cfs), runnable_sum := runnable_sum (cfs_avg cfs)\<rparr>\<rparr>"
    "se = se\<lparr>se_avg := (se_avg se)\<lparr>runnable_avg := runnable_avg (se_avg se), runnable_sum := runnable_sum (se_avg se)\<rparr>\<rparr>"
    by simp_all
  ultimately show ?thesis using True by (metis diff_add_cancel)
next
  case False
  have "s64 (runnable_avg (cfs_avg gcfs) - runnable_avg (se_avg se)) = runnable_avg (cfs_avg gcfs) - runnable_avg (se_avg se)"
    using assms by (intro s64_id) (auto simp: part_of_def)
  moreover have "add_positive u64 (runnable_avg (cfs_avg cfs)) (runnable_avg (cfs_avg gcfs) - runnable_avg (se_avg se)) =
      runnable_avg (cfs_avg cfs) - runnable_avg (se_avg se) + runnable_avg (cfs_avg gcfs)"
    using assms by (subst add_positive_exact) (auto simp: part_of_def is_u64_def)
  ultimately show ?thesis
    using False by (auto simp: update_tg_cfs_runnable_def Let_def)
qed

lemma div_u64_small: "46718 \<le> d \<Longrightarrow> d < 2 ^ 32 \<Longrightarrow> 0 \<le> div_u64 x d \<and> div_u64 x d < 2 ^ 49"
proof -
  assume d: "46718 \<le> d" "d < 2 ^ 32"
  have "u64 x div d \<le> u64 x div 46718" using d by (intro zdiv_mono2) auto
  moreover have "u64 x div 46718 < 2 ^ 49" by (rule int_div_less) (auto intro: less_trans [OF u64_range(2)])
  ultimately show ?thesis using d by (simp add: div_u64_def u32_id pos_imp_zdiv_nonneg_iff)
qed

lemma update_tg_cfs_load_eq:
  assumes p: "part_of (se_avg se) (cfs_avg cfs)" and c: "0 \<le> period_contrib (cfs_avg cfs)" "period_contrib (cfs_avg cfs) < 1024"
  shows "\<exists>l s t. update_tg_cfs_load cfs se gcfs =
    (cfs\<lparr>cfs_avg := (cfs_avg cfs)\<lparr>load_avg := load_avg (cfs_avg cfs) - load_avg (se_avg se) + l, load_sum := s\<rparr>\<rparr>,
     se\<lparr>se_avg := (se_avg se)\<lparr>load_sum := t, load_avg := l\<rparr>\<rparr>, gcfs\<lparr>prop_runnable_sum := 0\<rparr>) \<and> 0 \<le> l"
proof -
  define d l where "d = get_pelt_divider (cfs_avg cfs)" and "l = div_u64 (u64 (se_weight se * tg_runnable_sum cfs se gcfs)) d"
  have "46718 \<le> d" "d < 2 ^ 32"
    using c by (auto simp: d_def get_pelt_divider_def PELT_MIN_DIVIDER_def LOAD_AVG_MAX_def u32_id)
  then have l: "0 \<le> l" "l < 2 ^ 49" unfolding l_def by (blast dest: div_u64_small)+
  have d: "s64 (l - load_avg (se_avg se)) = l - load_avg (se_avg se)"
    using p l by (intro s64_id) (auto simp: part_of_def)
  have u: "add_positive u64 (load_avg (cfs_avg cfs)) (l - load_avg (se_avg se)) =
      load_avg (cfs_avg cfs) - load_avg (se_avg se) + l"
    using p l by (subst add_positive_exact) (auto simp: part_of_def is_u64_def)
  show ?thesis
  proof (cases "prop_runnable_sum gcfs = 0 \<or> l = load_avg (se_avg se)")
    case True
    then have "update_tg_cfs_load cfs se gcfs = (cfs, se, gcfs\<lparr>prop_runnable_sum := 0\<rparr>)"
      using d by (auto simp: update_tg_cfs_load_def Let_def l_def d_def)
    then show ?thesis
      using p by (intro exI [of _ "load_avg (se_avg se)"] exI [of _ "load_sum (cfs_avg cfs)"] exI [of _ "load_sum (se_avg se)"])
        (simp add: part_of_def)
  next
    case False
    then show ?thesis
      using d u l(1) by (auto simp: update_tg_cfs_load_def Let_def l_def [symmetric] d_def [symmetric])
  qed
qed



end
