(* ===== verification/Bandwidth_Props.thy ===== *)
theory Bandwidth_Props
  imports Bandwidth Fair_Load_Props
begin

text \<open>
  What bandwidth control guarantees: runtime is neither created nor lost outside a refill, the period timer ends, the counts of nested
  throttling are right, and accepted quotas are feasible.
\<close>

section \<open>Conservation of runtime\<close>

text \<open>
  The runtime of a group: its pool, the runqueues that run and those that are throttled.  As long as no value comes near
  \<open>2 ^ 60\<close> nanoseconds (36 years), every operation moves runtime between the pool and the runqueues; only execution takes it away and
  only a refill adds to it.
\<close>

record bw_state =
  st_b :: cfs_bandwidth
  st_run :: "cfs_rq list"
  st_thr :: "bw_entry list"

definition time_fits :: "int \<Rightarrow> bool" where
  "time_fits x \<longleftrightarrow> \<bar>x\<bar> < 2 ^ 60"

definition pool_fits :: "cfs_bandwidth \<Rightarrow> bool" where
  "pool_fits b \<longleftrightarrow> 0 \<le> bw_runtime b \<and> bw_runtime b < 2 ^ 60 \<and> 0 \<le> bw_quota b \<and> bw_quota b < 2 ^ 60 \<and>
     0 \<le> bw_burst b \<and> bw_burst b < 2 ^ 60"

definition bw_fits :: "bw_state \<Rightarrow> bool" where
  "bw_fits s \<longleftrightarrow> pool_fits (st_b s) \<and> list_all (\<lambda>c. time_fits (runtime_remaining c)) (st_run s) \<and>
     list_all (\<lambda>e. time_fits (runtime_remaining (be_cfs e))) (st_thr s)"

definition bw_total :: "bw_state \<Rightarrow> int" where
  "bw_total s = bw_runtime (st_b s) + (\<Sum>c\<leftarrow>st_run s. runtime_remaining c) + (\<Sum>e\<leftarrow>st_thr s. runtime_remaining (be_cfs e))"

datatype bw_event =
    Exec nat int          \<comment> \<open>a runqueue executes for some time\<close>
  | Exec_throttled nat int
  | Throttle nat
  | Give_back nat
  | Unthrottle nat
  | Distribute
  | Refill

inductive bw_step :: "int \<Rightarrow> bw_state \<Rightarrow> bw_event \<Rightarrow> bw_state \<Rightarrow> bool" for slice where
  exec: "i < length (st_run s) \<Longrightarrow> 0 \<le> delta \<Longrightarrow> delta < 2 ^ 60 \<Longrightarrow>
    account_cfs_rq_runtime0 slice (st_b s) (st_run s ! i) delta = (b, cfs, resched) \<Longrightarrow>
    bw_step slice s (Exec i delta) (s\<lparr>st_b := b, st_run := (st_run s)[i := cfs]\<rparr>)"
| exec_throttled: "i < length (st_thr s) \<Longrightarrow> 0 \<le> delta \<Longrightarrow> delta < 2 ^ 60 \<Longrightarrow>
    account_cfs_rq_runtime0 slice (st_b s) (be_cfs (st_thr s ! i)) delta = (b, cfs, resched) \<Longrightarrow>
    bw_step slice s (Exec_throttled i delta) (s\<lparr>st_b := b, st_thr := (st_thr s)[i := (st_thr s ! i)\<lparr>be_cfs := cfs\<rparr>]\<rparr>)"
| throttle: "i < length (st_run s) \<Longrightarrow> throttle_cfs_rq_self rq (st_b s) (st_run s ! i) = (ret, b, cfs) \<Longrightarrow>
    s' = (if ret then s\<lparr>st_b := b, st_run := take i (st_run s) @ drop (Suc i) (st_run s),
                        st_thr := st_thr s @ [\<lparr>be_cfs = cfs, be_cpu = cpu, be_csd = False\<rparr>]\<rparr>
          else s\<lparr>st_b := b, st_run := (st_run s)[i := cfs]\<rparr>) \<Longrightarrow>
    bw_step slice s (Throttle i) s'"
| give_back: "i < length (st_run s) \<Longrightarrow>
    return_cfs_rq_runtime0 slice timer (st_thr s \<noteq> []) (st_b s) (st_run s ! i) = (b, cfs) \<Longrightarrow>
    bw_step slice s (Give_back i) (s\<lparr>st_b := b, st_run := (st_run s)[i := cfs]\<rparr>)"
| unthrottle: "i < length (st_thr s) \<Longrightarrow> unthrottle_cfs_rq_self rq (st_b s) (be_cfs (st_thr s ! i)) = (b, cfs) \<Longrightarrow>
    bw_step slice s (Unthrottle i)
      (s\<lparr>st_b := b, st_thr := take i (st_thr s) @ drop (Suc i) (st_thr s), st_run := cfs # st_run s\<rparr>)"
| distribute: "distribute_cfs_runtime True this_cpu (st_b s) (st_thr s) = (t, b, es, l, now) \<Longrightarrow>
    bw_step slice s Distribute (s\<lparr>st_b := b, st_thr := es\<rparr>)"
| refill: "bw_step slice s Refill (s\<lparr>st_b := refill_cfs_bandwidth_runtime (st_b s)\<rparr>)"

inductive bw_run :: "int \<Rightarrow> bw_state \<Rightarrow> bw_event list \<Rightarrow> bw_state \<Rightarrow> bool" for slice where
  bw_done: "bw_run slice s [] s"
| bw_next: "bw_fits s \<Longrightarrow> bw_step slice s e s1 \<Longrightarrow> bw_run slice s1 es s2 \<Longrightarrow> bw_run slice s (e # es) s2"

fun consumed :: "bw_event list \<Rightarrow> int" where
  "consumed [] = 0"
| "consumed (e # es) = (case e of Exec i d \<Rightarrow> d | Exec_throttled i d \<Rightarrow> d | _ \<Rightarrow> 0) + consumed es"

fun refills :: "bw_event list \<Rightarrow> int" where
  "refills [] = 0"
| "refills (e # es) = (if e = Refill then 1 else 0) + refills es"

definition deficit :: "bw_state \<Rightarrow> int" where
  "deficit s = (\<Sum>c\<leftarrow>st_run s. max 0 (- runtime_remaining c)) + (\<Sum>e\<leftarrow>st_thr s. max 0 (- runtime_remaining (be_cfs e)))"

lemma start_runtime [simp]:
  "bw_runtime (start_cfs_bandwidth b) = bw_runtime b" "bw_quota (start_cfs_bandwidth b) = bw_quota b"
  "bw_burst (start_cfs_bandwidth b) = bw_burst b"
  by (simp_all add: start_cfs_bandwidth_def)

lemma assign_conserves:
  assumes p: "pool_fits b" and r: "\<bar>runtime_remaining cfs\<bar> < 2 ^ 62"
    and eq: "assign_cfs_rq_runtime0 b cfs target = (ret, b', cfs')"
  shows "bw_runtime b' + runtime_remaining cfs' = bw_runtime b + runtime_remaining cfs"
    "0 \<le> bw_runtime b'" "bw_quota b' = bw_quota b" "bw_burst b' = bw_burst b" "cfs_throttled cfs' = cfs_throttled cfs"
    "ret \<longleftrightarrow> 0 < runtime_remaining cfs'"
proof -
  have q: "bw_quota b \<noteq> RUNTIME_INF" using p by (auto simp: pool_fits_def RUNTIME_INF_def)
  define a where "a = (if bw_runtime b > 0 then min (bw_runtime b) (u64 (target - runtime_remaining cfs)) else 0)"
  have a: "0 \<le> a" "a \<le> bw_runtime b" using p by (auto simp: a_def pool_fits_def)
  then have s: "s64 (runtime_remaining cfs + a) = runtime_remaining cfs + a" "u64 (bw_runtime b - a) = bw_runtime b - a"
    using p r by (auto simp: pool_fits_def time_fits_def intro!: s64_small u64_id)
  have "assign_cfs_rq_runtime0 b cfs target =
    (0 < runtime_remaining cfs + a,
     if bw_runtime b > 0 then (start_cfs_bandwidth b)\<lparr>bw_runtime := bw_runtime b - a, bw_idle := False\<rparr> else start_cfs_bandwidth b,
     cfs\<lparr>runtime_remaining := runtime_remaining cfs + a\<rparr>)"
  proof (cases "bw_runtime b > 0")
    case True
    then have am: "a = min (bw_runtime b) (u64 (target - runtime_remaining cfs))" by (simp add: a_def)
    show ?thesis
      using True q s by (simp add: assign_cfs_rq_runtime0_def start_runtime Let_def flip: am)
  next
    case False
    then show ?thesis using q s by (simp add: assign_cfs_rq_runtime0_def start_runtime Let_def a_def)
  qed
  then have c: "cfs' = cfs\<lparr>runtime_remaining := runtime_remaining cfs + a\<rparr>" "ret \<longleftrightarrow> 0 < runtime_remaining cfs + a"
    "bw_runtime b' = bw_runtime b - a" "bw_quota b' = bw_quota b" "bw_burst b' = bw_burst b"
    using eq a p by (auto simp: start_runtime pool_fits_def split: if_splits)
  show "bw_runtime b' + runtime_remaining cfs' = bw_runtime b + runtime_remaining cfs"
    "0 \<le> bw_runtime b'" "bw_quota b' = bw_quota b" "bw_burst b' = bw_burst b" "cfs_throttled cfs' = cfs_throttled cfs"
    "ret \<longleftrightarrow> 0 < runtime_remaining cfs'"
    using c a by simp_all
qed


lemma account_conserves:
  assumes p: "pool_fits b" and r: "time_fits (runtime_remaining cfs)" and d: "0 \<le> delta" "delta < 2 ^ 60"
    and eq: "account_cfs_rq_runtime0 slice b cfs delta = (b', cfs', resched)"
  shows "bw_runtime b' + runtime_remaining cfs' = bw_runtime b + runtime_remaining cfs - delta"
    "0 \<le> bw_runtime b'" "bw_quota b' = bw_quota b" "bw_burst b' = bw_burst b"
proof -
  let ?cfs = "cfs\<lparr>runtime_remaining := runtime_remaining cfs - delta\<rparr>"
  have s: "s64 (runtime_remaining cfs - delta) = runtime_remaining cfs - delta"
    using r d by (intro s64_small) (auto simp: time_fits_def)
  obtain ret b1 cfs1 where a: "assign_cfs_rq_runtime0 b ?cfs slice = (ret, b1, cfs1)" by (metis prod_cases3)
  have r': "\<bar>runtime_remaining ?cfs\<bar> < 2 ^ 62" using r d by (auto simp: time_fits_def)
  have "(b', cfs') = (b, ?cfs) \<or> (b', cfs') = (b1, cfs1)"
    using eq s a by (auto simp: account_cfs_rq_runtime0_def assign_cfs_rq_runtime_def Let_def split: if_splits)
  then show "bw_runtime b' + runtime_remaining cfs' = bw_runtime b + runtime_remaining cfs - delta"
    "0 \<le> bw_runtime b'" "bw_quota b' = bw_quota b" "bw_burst b' = bw_burst b"
    using assign_conserves(1-4) [OF p r' a] p by (auto simp: pool_fits_def)
qed

lemma throttle_conserves:
  assumes p: "pool_fits b" and r: "time_fits (runtime_remaining cfs)"
    and eq: "throttle_cfs_rq_self rq b cfs = (ret, b', cfs')"
  shows "bw_runtime b' + runtime_remaining cfs' = bw_runtime b + runtime_remaining cfs"
    "0 \<le> bw_runtime b'" "bw_quota b' = bw_quota b" "bw_burst b' = bw_burst b"
    "ret \<longleftrightarrow> runtime_remaining cfs' \<le> 0" "ret \<Longrightarrow> cfs_throttled cfs'"
proof -
  have r': "\<bar>runtime_remaining cfs\<bar> < 2 ^ 62" using r by (auto simp: time_fits_def)
  obtain ret1 b1 cfs1 where a: "assign_cfs_rq_runtime0 b cfs 1 = (ret1, b1, cfs1)" by (metis prod_cases3)
  have "b' = b1" "ret \<longleftrightarrow> \<not> ret1" "runtime_remaining cfs' = runtime_remaining cfs1" and th: "ret \<Longrightarrow> cfs_throttled cfs'"
    using eq a by (auto simp: throttle_cfs_rq_self_def tg_throttle_down_def Let_def split: if_splits)
  then show "bw_runtime b' + runtime_remaining cfs' = bw_runtime b + runtime_remaining cfs"
    "0 \<le> bw_runtime b'" "bw_quota b' = bw_quota b" "bw_burst b' = bw_burst b" "ret \<longleftrightarrow> runtime_remaining cfs' \<le> 0"
    "ret \<Longrightarrow> cfs_throttled cfs'"
    using assign_conserves [OF p r' a] by auto
qed

lemma return_conserves:
  assumes p: "pool_fits b" and r: "time_fits (runtime_remaining cfs)"
    and eq: "return_cfs_rq_runtime0 slice timer waiting b cfs = (b', cfs')"
  shows "bw_runtime b' + runtime_remaining cfs' = bw_runtime b + runtime_remaining cfs"
    "0 \<le> bw_runtime b'" "bw_quota b' = bw_quota b" "bw_burst b' = bw_burst b"
proof -
  let ?s = "runtime_remaining cfs - min_cfs_rq_runtime"
  have s: "s64 ?s = ?s" using r by (intro s64_small) (auto simp: time_fits_def min_cfs_rq_runtime_def)
  have s': "s64 (runtime_remaining cfs - ?s) = runtime_remaining cfs - ?s" by (simp add: min_cfs_rq_runtime_def s64_id)
  have u: "0 < ?s \<Longrightarrow> u64 (bw_runtime b + ?s) = bw_runtime b + ?s"
    using p r by (intro u64_id) (auto simp: pool_fits_def time_fits_def min_cfs_rq_runtime_def)
  have q: "bw_quota b \<noteq> RUNTIME_INF" using p by (auto simp: pool_fits_def RUNTIME_INF_def)
  have b': "bw_runtime (start_cfs_slack_bandwidth c t b) = bw_runtime b" "bw_quota (start_cfs_slack_bandwidth c t b) = bw_quota b"
    "bw_burst (start_cfs_slack_bandwidth c t b) = bw_burst b" for c t b by (simp_all add: start_cfs_slack_bandwidth_def Let_def)
  show "bw_runtime b' + runtime_remaining cfs' = bw_runtime b + runtime_remaining cfs"
    "0 \<le> bw_runtime b'" "bw_quota b' = bw_quota b" "bw_burst b' = bw_burst b"
    using eq s s' u q b' p unfolding return_cfs_rq_runtime0_def
    by (auto simp: Let_def pool_fits_def split: if_splits)
qed

lemma refill_bound:
  assumes p: "pool_fits b"
  shows "bw_runtime (refill_cfs_bandwidth_runtime b) \<le> bw_runtime b + bw_quota b"
    "0 \<le> bw_runtime (refill_cfs_bandwidth_runtime b)" "bw_quota (refill_cfs_bandwidth_runtime b) = bw_quota b"
    "bw_burst (refill_cfs_bandwidth_runtime b) = bw_burst b"
    "bw_runtime (refill_cfs_bandwidth_runtime b) \<le> bw_quota b + bw_burst b"
proof -
  have q: "bw_quota b \<noteq> RUNTIME_INF" using p by (auto simp: pool_fits_def RUNTIME_INF_def)
  have u: "u64 (bw_runtime b + bw_quota b) = bw_runtime b + bw_quota b" "u64 (bw_quota b + bw_burst b) = bw_quota b + bw_burst b"
    using p by (auto simp: pool_fits_def intro!: u64_id)
  show "bw_runtime (refill_cfs_bandwidth_runtime b) \<le> bw_runtime b + bw_quota b"
    "0 \<le> bw_runtime (refill_cfs_bandwidth_runtime b)" "bw_quota (refill_cfs_bandwidth_runtime b) = bw_quota b"
    "bw_burst (refill_cfs_bandwidth_runtime b) = bw_burst b"
    "bw_runtime (refill_cfs_bandwidth_runtime b) \<le> bw_quota b + bw_burst b"
    using p q u by (auto simp: refill_cfs_bandwidth_runtime_def Let_def pool_fits_def)
qed

definition thr_total :: "bw_entry list \<Rightarrow> int" where
  "thr_total es = (\<Sum>e\<leftarrow>es. runtime_remaining (be_cfs e))"

lemma distribute_give:
  assumes p: "pool_fits b" and r: "time_fits (runtime_remaining cfs)"
  defines "g \<equiv> distribute_amount b cfs" and "r \<equiv> runtime_remaining cfs"
  shows "0 \<le> g" "g \<le> bw_runtime b" "u64 (bw_runtime b - g) = bw_runtime b - g" "s64 (r + g) = r + g"
    "r + g \<le> 0 \<Longrightarrow> g = bw_runtime b" "pool_fits (b\<lparr>bw_runtime := bw_runtime b - g\<rparr>)"
proof -
  show g: "0 \<le> g" "g \<le> bw_runtime b" using p by (auto simp: g_def distribute_amount_def Let_def pool_fits_def)
  then show "u64 (bw_runtime b - g) = bw_runtime b - g" "s64 (r + g) = r + g" "pool_fits (b\<lparr>bw_runtime := bw_runtime b - g\<rparr>)"
    using p r by (auto simp: pool_fits_def time_fits_def r_def intro!: u64_id s64_small)
  assume rg: "r + g \<le> 0"
  then have "r \<le> 0" using g by linarith
  then have "u64 (- r + 1) = - r + 1" using r by (intro u64_id) (auto simp: time_fits_def r_def)
  with rg show "g = bw_runtime b" by (auto simp: g_def distribute_amount_def r_def Let_def split: if_splits)
qed

definition served :: "bool \<Rightarrow> bw_entry \<Rightarrow> bool" where
  "served used e \<longleftrightarrow> (cfs_rq_throttled used (be_cfs e) \<longrightarrow> be_csd e \<or> 0 < runtime_remaining (be_cfs e))"

definition distribute_inv :: "bool \<Rightarrow> cfs_bandwidth \<Rightarrow> bw_entry list \<Rightarrow> bool \<times> cfs_bandwidth \<times> bw_entry list \<times> nat option \<times> nat list \<Rightarrow> bool" where
  "distribute_inv used b es res \<longleftrightarrow>
     (case res of (t, b', es', l, now) \<Rightarrow>
        bw_runtime b' + thr_total es' = bw_runtime b + thr_total es \<and> pool_fits b' \<and>
        bw_quota b' = bw_quota b \<and> bw_burst b' = bw_burst b \<and>
        (t \<longrightarrow> bw_runtime b' = 0) \<and> (\<not> t \<longrightarrow> list_all (served used) es'))"

lemma distribute_inv_cons:
  assumes "distribute_inv used b1 es (t, b', es', l, now)" "bw_quota b1 = bw_quota b" "bw_burst b1 = bw_burst b"
    and "bw_runtime b1 + runtime_remaining (be_cfs e') = bw_runtime b + runtime_remaining (be_cfs e)" "t \<or> served used e'"
  shows "distribute_inv used b (e # es) (t, b', e' # es', l', now')"
  using assms by (auto simp: distribute_inv_def thr_total_def)

lemma distribute_loop_throttled: "fst (distribute_loop used cpu i es b remaining True loc)"
  by (induction es arbitrary: i b remaining loc) (auto simp: Let_def case_prod_unfold)

lemma distribute_loop_inv:
  assumes "pool_fits b" "list_all (\<lambda>e. time_fits (runtime_remaining (be_cfs e))) es"
    and "remaining = 0 \<or> throttled \<longrightarrow> bw_runtime b = 0"
  shows "distribute_inv used b es (distribute_loop used cpu i es b remaining throttled loc)"
  using assms
proof (induction es arbitrary: i b remaining throttled loc)
  case Nil
  then show ?case by (auto simp: distribute_inv_def)
next
  case (Cons e es)
  let ?r = "runtime_remaining (be_cfs e)"
  have r: "time_fits ?r" and fits: "list_all (\<lambda>e. time_fits (runtime_remaining (be_cfs e))) es" using Cons.prems(2) by auto
  consider "remaining = 0" | "remaining \<noteq> 0" "\<not> cfs_rq_throttled used (be_cfs e) \<or> be_csd e"
    | "remaining \<noteq> 0" "cfs_rq_throttled used (be_cfs e)" "\<not> be_csd e" by blast
  then show ?case
  proof cases
    case 1
    then show ?thesis using Cons.prems by (auto simp: distribute_inv_def)
  next
    case 2
    obtain t b' es' l now where d: "distribute_loop used cpu (Suc i) es b remaining throttled loc = (t, b', es', l, now)"
      by (metis prod_cases5)
    have "distribute_inv used b es (t, b', es', l, now)"
      using Cons.IH [OF Cons.prems(1) fits Cons.prems(3), of "Suc i" loc] d by simp
    then have "distribute_inv used b (e # es) (t, b', e # es', l, now)"
      using 2 by (auto intro: distribute_inv_cons simp: served_def)
    then show ?thesis using 2 d by (auto simp: Let_def)
  next
    case 3
    define g b1 e1 where "g = distribute_amount b (be_cfs e)"
      and "b1 = b\<lparr>bw_runtime := bw_runtime b - g\<rparr>" and "e1 = e\<lparr>be_cfs := (be_cfs e)\<lparr>runtime_remaining := ?r + g\<rparr>\<rparr>"
    note G = distribute_give [OF Cons.prems(1) r, folded g_def]
    have p1: "pool_fits b1" using G(6) by (simp add: b1_def)
    define thr loc1 where "thr = (throttled \<or> \<not> 0 < ?r + g)"
      and "loc1 = (if 0 < ?r + g \<and> \<not> (0 < ?r + g \<and> (be_cpu e \<noteq> cpu \<or> loc \<noteq> None)) then Some i else loc)"
    obtain t b' es' l now where d: "distribute_loop used cpu (Suc i) es b1 (bw_runtime b1) thr loc1 = (t, b', es', l, now)"
      by (metis prod_cases5)
    have "distribute_inv used b1 es (distribute_loop used cpu (Suc i) es b1 (bw_runtime b1) thr loc1)"
      using Cons.prems(3) 3 G(1,2,5) by (intro Cons.IH p1 fits) (auto simp: thr_def b1_def)
    then have I: "distribute_inv used b1 es (t, b', es', l, now)" using d by simp
    have t: "t \<or> 0 < ?r + g" using distribute_loop_throttled [of used cpu "Suc i" es b1 "bw_runtime b1" loc1] d by (auto simp: thr_def)
    obtain csd now' where unf: "distribute_loop used cpu i (e # es) b remaining throttled loc = (t, b', e1\<lparr>be_csd := csd\<rparr> # es', l, now')"
    proof -
      have "distribute_loop used cpu i (e # es) b remaining throttled loc =
        (let async = (0 < ?r + g \<and> (be_cpu e \<noteq> cpu \<or> loc \<noteq> None));
             (t, b', es', l, now) = distribute_loop used cpu (Suc i) es b1 (bw_runtime b1) thr loc1
         in (t, b', (if async \<and> be_cpu e \<noteq> cpu then e1\<lparr>be_csd := True\<rparr> else e1) # es', l, if async \<and> be_cpu e = cpu then i # now else now))"
        using 3 by (simp add: Let_def g_def [symmetric] G(3,4) b1_def e1_def thr_def loc1_def)
      then have "distribute_loop used cpu i (e # es) b remaining throttled loc =
        (t, b', e1\<lparr>be_csd := (be_csd e1 \<or> (0 < ?r + g \<and> be_cpu e \<noteq> cpu))\<rparr> # es', l,
         if 0 < ?r + g \<and> loc \<noteq> None \<and> be_cpu e = cpu then i # now else now)"
        using 3 by (auto simp: d Let_def e1_def)
      then show ?thesis by (rule that)
    qed
    show ?thesis
      unfolding unf using I t G(1) by (intro distribute_inv_cons [of used b1 es]) (auto simp: b1_def e1_def served_def)
  qed
qed


lemma bw_step_total:
  assumes "bw_step slice s e s'" "bw_fits s"
  shows "bw_total s' + consumed [e] \<le> bw_total s + refills [e] * bw_quota (st_b s) \<and>
    bw_quota (st_b s') = bw_quota (st_b s) \<and> 0 \<le> bw_runtime (st_b s')"
proof -
  have pool: "pool_fits (st_b s)" and run: "\<And>i. i < length (st_run s) \<Longrightarrow> time_fits (runtime_remaining (st_run s ! i))"
    and thr: "\<And>i. i < length (st_thr s) \<Longrightarrow> time_fits (runtime_remaining (be_cfs (st_thr s ! i)))"
    using assms(2) by (auto simp: bw_fits_def list_all_length)
  show ?thesis
    using assms(1)
proof (cases rule: bw_step.cases)
  case (exec i delta b cfs resched)
  note C = account_conserves [OF pool run [OF exec(3)] exec(4,5,6)]
  show ?thesis unfolding exec(1,2) using C exec(3) by (simp add: bw_total_def sum_list_update_int)
next
  case (exec_throttled i delta b cfs resched)
  note C = account_conserves [OF pool thr [OF exec_throttled(3)] exec_throttled(4,5,6)]
  show ?thesis unfolding exec_throttled(1,2) using C exec_throttled(3) by (simp add: bw_total_def sum_list_update_int)
next
  case (throttle i rq ret b cfs cpu)
  note C = throttle_conserves [OF pool run [OF throttle(2)] throttle(3)]
  show ?thesis unfolding throttle(1,4) using C(1-4) throttle(2)
    by (cases ret) (simp_all add: bw_total_def sum_list_update_int sum_list_remove_nth)
next
  case (give_back i timer b cfs)
  note C = return_conserves [OF pool run [OF give_back(3)] give_back(4)]
  show ?thesis unfolding give_back(1,2) using C give_back(3) by (simp add: bw_total_def sum_list_update_int)
next
  case (unthrottle i rq b cfs)
  have "bw_runtime b = bw_runtime (st_b s)" "bw_quota b = bw_quota (st_b s)"
    "runtime_remaining cfs = runtime_remaining (be_cfs (st_thr s ! i))"
    using unthrottle(4) by (auto simp: unthrottle_cfs_rq_self_def Let_def split: if_splits)
  then show ?thesis
    using assms(2) unthrottle by (simp add: bw_fits_def bw_total_def pool_fits_def sum_list_remove_nth)
next
  case (distribute this_cpu t b es l now)
  have "distribute_inv True (st_b s) (st_thr s) (t, b, es, l, now)"
    using distribute_loop_inv [of "st_b s" "st_thr s" 1 False True this_cpu 0 None] assms(2) distribute(3)
    by (simp add: bw_fits_def distribute_cfs_runtime_def)
  then show ?thesis
    using distribute(1,2) by (auto simp: distribute_inv_def bw_total_def thr_total_def pool_fits_def)
next
  case refill
  then show ?thesis
    using refill_bound [OF pool] by (auto simp: bw_total_def)
qed
qed

lemma sum_deficit: "- (\<Sum>x\<leftarrow>xs. f x) \<le> (\<Sum>x\<leftarrow>xs. max 0 (- f x :: int))"
  by (induction xs) auto

lemma bw_run_total:
  assumes "bw_run slice s evs s'"
  shows "bw_total s' + consumed evs \<le> bw_total s + refills evs * bw_quota (st_b s) \<and>
    (0 \<le> bw_runtime (st_b s) \<longrightarrow> 0 \<le> bw_runtime (st_b s'))"
  using assms
proof (induction rule: bw_run.induct)
  case (bw_next s e s1 es s2)
  have "bw_total s1 + consumed [e] \<le> bw_total s + refills [e] * bw_quota (st_b s)"
    "bw_quota (st_b s1) = bw_quota (st_b s)" "0 \<le> bw_runtime (st_b s1)"
    using bw_step_total [OF bw_next(2,1)] by auto
  moreover have "consumed (e # es) = consumed [e] + consumed es" "refills (e # es) = refills [e] + refills es" by simp_all
  ultimately show ?case using bw_next.IH by (simp add: distrib_right)
qed simp

text \<open>
  C13: bandwidth control limits a group.  Along any run of executions, throttlings, returns, distributions, unthrottlings and refills, the time
  the runqueues of the group have executed is at most the runtime there was at the start plus one quota for each refill, plus
  what runqueues are overdrawn by at the end.
\<close>

theorem bandwidth_limit:
  assumes "bw_run slice s evs s'" "bw_fits s"
  shows "consumed evs \<le> bw_total s + refills evs * bw_quota (st_b s) + deficit s'"
proof -
  have "- bw_total s' \<le> deficit s' - bw_runtime (st_b s')"
    using sum_deficit [of runtime_remaining "st_run s'"] sum_deficit [of "\<lambda>e. runtime_remaining (be_cfs e)" "st_thr s'"]
    by (simp add: bw_total_def deficit_def)
  with bw_run_total [OF assms(1)] assms(2) show ?thesis by (simp add: bw_fits_def pool_fits_def)
qed

definition example_bw :: cfs_bandwidth where
  "example_bw = \<lparr>bw_period = 100000000, bw_quota = 20000000, bw_runtime = 20000000, bw_burst = 0, bw_runtime_snap = 20000000,
     hierarchical_quota = - 1, bw_idle = False, bw_period_active = True, bw_slack_started = False, nr_periods = 0, nr_throttled = 0,
     nr_burst = 0, throttled_time = 0, burst_time = 0\<rparr>"

definition example_bw_state :: bw_state where
  "example_bw_state = \<lparr>st_b = example_bw, st_run = [example_cfs0\<lparr>runtime_enabled := True\<rparr>, example_cfs0\<lparr>runtime_enabled := True\<rparr>], st_thr = []\<rparr>"

theorem bandwidth_limit_witness:
  "\<exists>s'. bw_run 5000000 example_bw_state [Exec 0 7000000, Refill, Exec 1 3000000] s' \<and> 10000000 \<le> 40000000 + deficit s'"
proof -
  let ?s = example_bw_state
  obtain b1 c1 r1 where a1: "account_cfs_rq_runtime0 5000000 (st_b ?s) (st_run ?s ! 0) 7000000 = (b1, c1, r1)" by (metis prod_cases3)
  let ?s1 = "?s\<lparr>st_b := b1, st_run := (st_run ?s)[0 := c1]\<rparr>"
  let ?s2 = "?s1\<lparr>st_b := refill_cfs_bandwidth_runtime (st_b ?s1)\<rparr>"
  obtain b3 c3 r3 where a3: "account_cfs_rq_runtime0 5000000 (st_b ?s2) (st_run ?s2 ! 1) 3000000 = (b3, c3, r3)" by (metis prod_cases3)
  let ?s3 = "?s2\<lparr>st_b := b3, st_run := (st_run ?s2)[1 := c3]\<rparr>"
  have e1: "b1 = fst (account_cfs_rq_runtime0 5000000 (st_b ?s) (st_run ?s ! 0) 7000000)"
    "c1 = fst (snd (account_cfs_rq_runtime0 5000000 (st_b ?s) (st_run ?s ! 0) 7000000))" using a1 by simp_all
  have f: "bw_fits ?s" "bw_fits ?s1" "bw_fits ?s2" unfolding e1 by code_simp+
  have l: "0 < length (st_run ?s)" "1 < length (st_run ?s2)" by (simp_all add: example_bw_state_def)
  have s1: "bw_step 5000000 ?s (Exec 0 7000000) ?s1" by (rule bw_step.exec [OF l(1) _ _ a1]) simp_all
  have s3: "bw_step 5000000 ?s2 (Exec 1 3000000) ?s3" by (rule bw_step.exec [OF l(2) _ _ a3]) simp_all
  note run = bw_next [OF f(1) s1 bw_next [OF f(2) bw_step.refill bw_next [OF f(3) s3 bw_done]]]
  have "bw_total ?s = 20000000" "bw_quota (st_b ?s) = 20000000" by code_simp+
  with bandwidth_limit [OF run f(1)] have "10000000 \<le> 40000000 + deficit ?s3" by simp
  with run show ?thesis by blast
qed


definition example_thr :: "bw_entry list" where
  "example_thr =
     [\<lparr>be_cfs = example_cfs0\<lparr>cfs_throttled := True, runtime_remaining := - 3000000\<rparr>, be_cpu = 1, be_csd = False\<rparr>,
      \<lparr>be_cfs = example_cfs0\<lparr>cfs_throttled := True, runtime_remaining := - 40000000\<rparr>, be_cpu = 2, be_csd = False\<rparr>]"


section \<open>Nested throttling\<close>

text \<open>The nodes on the way from the root of a tree of groups to the group a path of child numbers leads to.\<close>

fun path_nodes :: "nat list \<Rightarrow> 'a tg_tree \<Rightarrow> 'a list" where
  "path_nodes [] (TG x ts) = [x]"
| "path_nodes (i # p) (TG x ts) = x # (if i < length ts then path_nodes p (ts ! i) else [])"

definition tg_path :: "nat list \<Rightarrow> 'a tg_tree \<Rightarrow> bool" where
  "tg_path p t \<longleftrightarrow> length (path_nodes p t) = Suc (length p)"

fun tg_at :: "nat list \<Rightarrow> ('a tg_tree \<Rightarrow> 'a tg_tree) \<Rightarrow> 'a tg_tree \<Rightarrow> 'a tg_tree" where
  "tg_at [] f t = f t"
| "tg_at (i # p) f (TG x ts) = TG x (if i < length ts then ts[i := tg_at p f (ts ! i)] else ts)"

text \<open>
  Histories of the groups of a CPU: a group is throttled or unthrottled with the groups below it, or a new group is
  added, which takes over the count of its parent.
\<close>

inductive throttle_reach :: "cfs_rq tg_tree \<Rightarrow> bool" where
  init: "throttle_count cfs = 0 \<Longrightarrow> \<not> cfs_throttled cfs \<Longrightarrow> throttle_reach (TG cfs [])"
| throttle: "throttle_reach t \<Longrightarrow> tg_path p t \<Longrightarrow> \<not> cfs_throttled (last (path_nodes p t)) \<Longrightarrow>
    throttle_reach (tg_at p (throttle_tg_tree rq) t)"
| unthrottle: "throttle_reach t \<Longrightarrow> tg_path p t \<Longrightarrow> cfs_throttled (last (path_nodes p t)) \<Longrightarrow>
    throttle_reach (tg_at p (unthrottle_tg_tree rq) t)"
| add_group: "throttle_reach t \<Longrightarrow> tg_path p t \<Longrightarrow> \<not> cfs_throttled cfs \<Longrightarrow>
    throttle_reach (tg_at p (\<lambda>s. TG (tg_node s) (tg_children s @ [TG (sync_throttle True rq (Some (tg_node s)) cfs) []])) t)"

fun counts_ok :: "int \<Rightarrow> cfs_rq tg_tree \<Rightarrow> bool" where
  "counts_ok n (TG cfs ts) \<longleftrightarrow>
     throttle_count cfs = n + (if cfs_throttled cfs then 1 else 0) \<and> (\<forall>t \<in> set ts. counts_ok (throttle_count cfs) t)"

lemma tg_nop_case: "case_prod g (tg_nop x) = g False x"
  by (simp add: tg_nop_def)

lemma walk_down_map: "walk_tg_tree_from (\<lambda>_ x. (False, f x)) tg_nop parent t = (False, map_tg_tree f t)"
proof (induction t arbitrary: parent)
  case (TG x ts)
  have "walk_tg_children (\<lambda>_ x. (False, f x)) tg_nop tg us = (False, map (map_tg_tree f) us)" if "set us \<subseteq> set ts" for tg us
    using that by (induction us) (auto simp: TG Let_def)
  then show ?case by (simp add: tg_nop_case Let_def)
qed

lemma walk_up_map: "walk_tg_tree_from (\<lambda>_. tg_nop) (\<lambda>x. (False, f x)) parent t = (False, map_tg_tree f t)"
proof (induction t arbitrary: parent)
  case (TG x ts)
  have "walk_tg_children (\<lambda>_. tg_nop) (\<lambda>x. (False, f x)) tg us = (False, map (map_tg_tree f) us)" if "set us \<subseteq> set ts" for tg us
    using that by (induction us) (auto simp: TG Let_def)
  then show ?case by (simp add: tg_nop_case Let_def)
qed

lemma throttle_down_simps [simp]:
  "throttle_count (tg_throttle_down rq cfs) = throttle_count cfs + 1" "cfs_throttled (tg_throttle_down rq cfs) = cfs_throttled cfs"
  "throttle_count (tg_unthrottle_up rq cfs) = throttle_count cfs - 1" "cfs_throttled (tg_unthrottle_up rq cfs) = cfs_throttled cfs"
  by (simp_all add: tg_throttle_down_def tg_unthrottle_up_def Let_def)

lemma counts_ok_down: "counts_ok n t \<Longrightarrow> counts_ok (n + 1) (map_tg_tree (tg_throttle_down rq) t)"
  by (induction n t rule: counts_ok.induct) auto

lemma counts_ok_up: "counts_ok n t \<Longrightarrow> counts_ok (n - 1) (map_tg_tree (tg_unthrottle_up rq) t)"
  by (induction n t rule: counts_ok.induct) auto

lemma counts_ok_throttle: "counts_ok n t \<Longrightarrow> \<not> cfs_throttled (tg_node t) \<Longrightarrow> counts_ok n (throttle_tg_tree rq t)"
proof (cases t)
  case (TG cfs ts)
  assume "counts_ok n t" "\<not> cfs_throttled (tg_node t)"
  then have "counts_ok (n + 1) (map_tg_tree (tg_throttle_down rq) (TG cfs ts))" "\<not> cfs_throttled cfs"
    using TG counts_ok_down by auto
  then show ?thesis unfolding TG throttle_tg_tree_def walk_down_map by auto
qed

lemma counts_ok_unthrottle: "counts_ok n t \<Longrightarrow> cfs_throttled (tg_node t) \<Longrightarrow> counts_ok n (unthrottle_tg_tree rq t)"
proof (cases t)
  case (TG cfs ts)
  assume "counts_ok n t" "cfs_throttled (tg_node t)"
  then have "counts_ok (n + 1) (TG (cfs\<lparr>cfs_throttled := False\<rparr>) ts)" using TG by auto
  from counts_ok_up [OF this, of rq] show ?thesis unfolding TG unthrottle_tg_tree_def walk_up_map by auto
qed

lemma counts_ok_at:
  assumes "\<And>n s. counts_ok n s \<Longrightarrow> tg_node s = last (path_nodes p t) \<Longrightarrow> counts_ok n (f s)" "counts_ok n t" "tg_path p t"
  shows "counts_ok n (tg_at p f t)"
  using assms
proof (induction p t arbitrary: n rule: path_nodes.induct)
  case (2 i p x ts)
  then have i: "i < length ts" "tg_path p (ts ! i)" by (auto simp: tg_path_def split: if_splits)
  have ne: "path_nodes p (ts ! i) \<noteq> []" using i(2) by (auto simp: tg_path_def)
  have "counts_ok (throttle_count x) (ts ! i)" using 2(3) i(1) unfolding counts_ok.simps by (meson nth_mem)
  then have "counts_ok (throttle_count x) (tg_at p f (ts ! i))"
    using 2(1) [OF i(1)] 2(2) i ne by auto
  moreover have "\<forall>s \<in> set ts. counts_ok (throttle_count x) s" using 2(3) unfolding counts_ok.simps by blast
  ultimately have "\<forall>s \<in> set (ts[i := tg_at p f (ts ! i)]). counts_ok (throttle_count x) s"
    using set_update_subset_insert [of ts i] by blast
  then show ?case using 2(3) i(1) by simp
qed auto

lemma throttle_reach_counts: "throttle_reach t \<Longrightarrow> counts_ok 0 t"
proof (induction rule: throttle_reach.induct)
  case (throttle t p rq)
  then show ?case by (intro counts_ok_at) (auto intro: counts_ok_throttle)
next
  case (unthrottle t p rq)
  then show ?case by (intro counts_ok_at) (auto intro: counts_ok_unthrottle)
next
  case (add_group t p cfs rq)
  show ?case
  proof (rule counts_ok_at [OF _ add_group.IH add_group.hyps(2)])
    fix n s assume "counts_ok n s"
    then show "counts_ok n (TG (tg_node s) (tg_children s @ [TG (sync_throttle True rq (Some (tg_node s)) cfs) []]))"
      using add_group.hyps(3) by (cases s) (auto simp: sync_throttle_def)
  qed
qed simp

lemma counts_ok_path:
  assumes "counts_ok n t" "tg_path p t"
  shows "throttle_count (last (path_nodes p t)) = n + int (length (filter cfs_throttled (path_nodes p t)))"
  using assms
proof (induction p t arbitrary: n rule: path_nodes.induct)
  case (2 i p x ts)
  then have i: "i < length ts" "tg_path p (ts ! i)" by (auto simp: tg_path_def split: if_splits)
  have ne: "path_nodes p (ts ! i) \<noteq> []" using i(2) by (auto simp: tg_path_def)
  have "counts_ok (throttle_count x) (ts ! i)" using 2(2) i(1) unfolding counts_ok.simps by (meson nth_mem)
  from 2(1) [OF i(1) this i(2)] show ?case using 2(2) i(1) ne by auto
qed auto

text \<open>
  C15: whatever the order in which groups of a hierarchy are throttled, unthrottled and created, the count of a runqueue is the number of throttled groups from
  the root down to it; so \<open>throttled_hierarchy\<close> tells whether the runqueue or one above it is throttled.
\<close>

theorem throttle_count_ancestors:
  assumes "throttle_reach t" "tg_path p t"
  shows "throttle_count (last (path_nodes p t)) = int (length (filter cfs_throttled (path_nodes p t))) \<and>
    (throttled_hierarchy True (last (path_nodes p t)) \<longleftrightarrow> (\<exists>cfs \<in> set (path_nodes p t). cfs_throttled cfs))"
  using counts_ok_path [OF throttle_reach_counts [OF assms(1)] assms(2)]
  by (auto simp: throttled_hierarchy_def filter_empty_conv)

theorem throttle_count_ancestors_witness:
  "\<exists>t. throttle_reach t \<and> tg_path [0] t \<and> throttle_count (last (path_nodes [0] t)) = 1 \<and> throttled_hierarchy True (last (path_nodes [0] t))"
proof -
  let ?rq = "\<lparr>prq_clock = 500, prq_clock_task = 400, clock_pelt = 300, lost_idle_time = 0, clock_pelt_idle = 0, clock_idle = 0,
     avg_rt = se_avg example_se, avg_dl = se_avg example_se, avg_thermal = se_avg example_se, avg_irq = se_avg example_se,
     prq_cfs_util_sum = 0, prq_curr_idle = False, freq_capacity = 1024, cpu_capacity = 1024\<rparr> :: pelt_rq"
  let ?add = "\<lambda>s. TG (tg_node s) (tg_children s @ [TG (sync_throttle True ?rq (Some (tg_node s)) example_cfs0) []])"
  let ?t = "tg_at [] ?add (TG example_cfs0 [])"
  let ?u = "tg_at [] (throttle_tg_tree ?rq) ?t"
  have z: "throttle_count example_cfs0 = 0" "\<not> cfs_throttled example_cfs0" by code_simp+
  have "throttle_reach ?t"
    by (rule throttle_reach.add_group [OF throttle_reach.init]) (use z in \<open>simp_all add: tg_path_def\<close>)
  then have r: "throttle_reach ?u" by (rule throttle_reach.throttle) (use z in \<open>simp_all add: tg_path_def\<close>)
  have p: "tg_path [0] ?u" and c: "filter cfs_throttled (path_nodes [0] ?u) = [hd (path_nodes [0] ?u)]" by code_simp+
  have "throttle_count (last (path_nodes [0] ?u)) = 1" using throttle_count_ancestors [OF r p] c by simp
  moreover have "throttled_hierarchy True (last (path_nodes [0] ?u))" using calculation by (simp add: throttled_hierarchy_def)
  ultimately show ?thesis using r p by blast
qed

section \<open>Feasible quotas\<close>

text \<open>\<open>-1\<close> is the value of \<open>RUNTIME_INF\<close> in \<open>hierarchical_quota\<close>.\<close>

definition quota_within :: "int \<Rightarrow> int \<Rightarrow> bool" where
  "quota_within child parent \<longleftrightarrow> parent = - 1 \<or> child \<noteq> - 1 \<and> child \<le> parent"

fun quotas_ok :: "(nat \<times> cfs_bandwidth) tg_tree \<Rightarrow> bool" where
  "quotas_ok (TG x ts) \<longleftrightarrow>
     (\<forall>t \<in> set ts. quota_within (hierarchical_quota (snd (tg_node t))) (hierarchical_quota (snd x)) \<and> quotas_ok t)"


lemma u64_inf: "is_s64 q \<Longrightarrow> u64 q = RUNTIME_INF \<longleftrightarrow> q = - 1"
proof
  assume "is_s64 q" "u64 q = RUNTIME_INF"
  then have "s64 (u64 q) = s64 RUNTIME_INF" "s64 (u64 q) = q" using s64_u64 [of q] by simp_all
  then show "q = - 1" by (simp add: RUNTIME_INF_def s64_def)
qed (simp add: u64_def RUNTIME_INF_def)

lemma schedulable_down_within:
  assumes "tg_cfs_schedulable_down on_dfl d_tg period quota (Some p) x = (False, x')" "is_s64 (hierarchical_quota (snd p))"
  shows "quota_within (hierarchical_quota (snd x')) (hierarchical_quota (snd p))" "is_s64 (hierarchical_quota (snd x'))"
proof -
  define q pq where "q = s64 (normalize_cfs_quota d_tg period quota x)" and "pq = hierarchical_quota (snd p)"
  have i: "u64 q = RUNTIME_INF \<longleftrightarrow> q = - 1" "u64 pq = RUNTIME_INF \<longleftrightarrow> pq = - 1" and s: "is_s64 q" "is_s64 pq"
    using assms(2) by (auto simp: u64_inf q_def pq_def)
  have "hierarchical_quota (snd x') = (if q = - 1 then pq else if on_dfl \<and> pq \<noteq> - 1 then min q pq else q)"
    "on_dfl \<or> q = - 1 \<or> pq = - 1 \<or> q \<le> pq"
    using assms(1) by (auto simp: tg_cfs_schedulable_down_def Let_def q_def [symmetric] pq_def [symmetric] i split: if_splits)
  then show "quota_within (hierarchical_quota (snd x')) (hierarchical_quota (snd p))" "is_s64 (hierarchical_quota (snd x'))"
    using s by (auto simp: quota_within_def pq_def [symmetric] min_def)
qed

lemma walk_children_all:
  assumes "\<And>u u'. u \<in> set us \<Longrightarrow> walk_tg_tree_from down up (Some x) u = (False, u') \<Longrightarrow> Q u'"
    "walk_tg_children down up x us = (False, us')"
  shows "\<forall>s \<in> set us'. Q s"
  using assms
proof (induction us arbitrary: us')
  case (Cons u us)
  obtain u1 us1 where u: "walk_tg_tree_from down up (Some x) u = (False, u1)" "walk_tg_children down up x us = (False, us1)"
    "us' = u1 # us1"
    using Cons.prems(2) by (cases "walk_tg_tree_from down up (Some x) u"; cases "walk_tg_children down up x us")
      (auto simp: Let_def split: if_splits)
  have "Q u1" using Cons.prems(1) [OF _ u(1)] by simp
  moreover have "\<forall>s \<in> set us1. Q s" by (rule Cons.IH [OF _ u(2)]) (use Cons.prems(1) in auto)
  ultimately show ?case using u(3) by simp
qed simp

lemma walk_node:
  assumes "walk_tg_tree_from down tg_nop parent (TG x ts) = (False, t')"
  obtains x' ts' where "down parent x = (False, x')" "walk_tg_children down tg_nop x' ts = (False, ts')" "t' = TG x' ts'"
proof -
  obtain r x' where d: "down parent x = (r, x')" by fastforce
  obtain r' ts' where c: "walk_tg_children down tg_nop x' ts = (r', ts')" by fastforce
  show ?thesis using assms d c that by (auto simp: Let_def tg_nop_case split: if_splits)
qed

lemma walk_schedulable:
  assumes "walk_tg_tree_from (tg_cfs_schedulable_down on_dfl d_tg period quota) tg_nop (Some p) t = (False, t')"
    "is_s64 (hierarchical_quota (snd p))"
  shows "quotas_ok t' \<and> quota_within (hierarchical_quota (snd (tg_node t'))) (hierarchical_quota (snd p))"
  using assms
proof (induction t arbitrary: p t')
  case (TG x ts)
  obtain x' ts' where t: "tg_cfs_schedulable_down on_dfl d_tg period quota (Some p) x = (False, x')"
    "walk_tg_children (tg_cfs_schedulable_down on_dfl d_tg period quota) tg_nop x' ts = (False, ts')" "t' = TG x' ts'"
    using walk_node [OF TG.prems(1)] .
  note W = schedulable_down_within [OF t(1) TG.prems(2)]
  have "\<forall>s \<in> set ts'. quotas_ok s \<and> quota_within (hierarchical_quota (snd (tg_node s))) (hierarchical_quota (snd x'))"
    using TG.IH W(2) by (intro walk_children_all [OF _ t(2)]) blast
  then show ?case using W(1) t(3) by simp
qed

text \<open>
  C30: a quota is accepted only when the hierarchy can honour it: after a successful check no group has a larger ratio than its parent, in either version
  of the cgroup hierarchy.
\<close>

theorem cfs_schedulable_feasible:
  assumes "cfs_schedulable on_dfl tg period quota root = (False, root')"
  shows "quotas_ok root'"
proof -
  obtain pd q where w: "walk_tg_tree_from (tg_cfs_schedulable_down on_dfl tg pd q) tg_nop None root = (False, root')"
    using assms by (auto simp: cfs_schedulable_def Let_def split: if_splits)
  obtain x ts where r: "root = TG x ts" by (cases root)
  obtain x' ts' where t: "tg_cfs_schedulable_down on_dfl tg pd q None x = (False, x')"
    "walk_tg_children (tg_cfs_schedulable_down on_dfl tg pd q) tg_nop x' ts = (False, ts')" "root' = TG x' ts'"
    using walk_node [OF w [unfolded r]] .
  have "is_s64 (hierarchical_quota (snd x'))" using t(1) by (auto simp: tg_cfs_schedulable_down_def)
  then have "\<forall>s \<in> set ts'. quotas_ok s \<and> quota_within (hierarchical_quota (snd (tg_node s))) (hierarchical_quota (snd x'))"
    by (intro walk_children_all [OF _ t(2)]) (rule walk_schedulable)
  then show ?thesis using t(3) by simp
qed

definition example_groups :: "(nat \<times> cfs_bandwidth) tg_tree" where
  "example_groups =
     TG (0, example_bw\<lparr>bw_quota := RUNTIME_INF\<rparr>)
       [TG (1, example_bw\<lparr>bw_quota := RUNTIME_INF\<rparr>) [TG (2, example_bw\<lparr>bw_quota := 50000000, hierarchical_quota := 524288\<rparr>) []]]"

theorem cfs_schedulable_feasible_witness:
  "\<exists>root'. cfs_schedulable False 1 100000000 60000000 example_groups = (False, root') \<and> quotas_ok root'"
proof -
  have "\<not> fst (cfs_schedulable False 1 100000000 60000000 example_groups)" by code_simp
  then have "cfs_schedulable False 1 100000000 60000000 example_groups =
    (False, snd (cfs_schedulable False 1 100000000 60000000 example_groups))" by (simp add: prod_eq_iff)
  with cfs_schedulable_feasible [OF this] show ?thesis by blast
qed


end
