(* ===== verification/Fair.thy ===== *)
theory Fair
  imports Eevdf_Props Bandwidth
begin

text \<open>
  The operations of the fair class on the entities of one \<open>cfs_rq\<close> (kernel/sched/fair.c): accounting of run time, weights,
  enqueue and dequeue, switching the current entity in and out, and the tick.

  A level is a \<open>cfs_rq\<close> with its task group and the bandwidth of that.  The entity handed to an operation is its value while it is
  not on the runqueue; the current entity is the one of \<open>cfs_curr\<close>, an entity of the tree the one of its node, and
  \<open>live_se\<close> and \<open>store_se\<close> read and write it where it is.  A group entity comes with the \<open>cfs_rq\<close> it owns and the task group
  of that.  The result of an operation on the tree is an option, as in the tree component: \<open>None\<close> stands for dereferencing a NULL
  pointer, and the lemmas show that it does not occur.

  Left out: \<open>schedstat\<close> counters, tracing, the accounting of cgroup CPU time, the lists \<open>rq->cfs_tasks\<close> and
  \<open>leaf_cfs_rq_list\<close>, and NUMA counters.  \<open>clear_buddies\<close> continues up the hierarchy; here it is its effect on the level.
\<close>

record fair_sys =
  fs_env :: fair_env
  fs_util_est :: bool           \<comment> \<open>\<open>sched_feat(UTIL_EST)\<close>\<close>
  fs_bw_used :: bool            \<comment> \<open>\<open>cfs_bandwidth_used()\<close>\<close>
  fs_bw_slice :: int            \<comment> \<open>\<open>sched_cfs_bandwidth_slice()\<close>\<close>
  fs_bw_timer :: "bool \<times> int"
  fs_bw_waiting :: bool

record fair_level =
  lv_cfs :: cfs_rq
  lv_tg :: task_group
  lv_bw :: cfs_bandwidth
  lv_resched :: bool            \<comment> \<open>\<open>resched_curr\<close> was called\<close>
  lv_util_change :: bool        \<comment> \<open>\<open>cfs_rq_util_change\<close> was called\<close>

type_synonym group_q = "(cfs_rq \<times> task_group) option"

section \<open>The entity of an operation\<close>

definition is_curr :: "cfs_rq \<Rightarrow> sched_entity \<Rightarrow> bool" where
  "is_curr cfs se \<longleftrightarrow> map_option se_id (cfs_curr cfs) = Some (se_id se)"

definition live_se :: "cfs_rq \<Rightarrow> sched_entity \<Rightarrow> sched_entity" where
  "live_se cfs se = (case cfs_curr cfs of Some c \<Rightarrow> if se_id c = se_id se then c else se | None \<Rightarrow> se)"

definition store_se :: "cfs_rq \<Rightarrow> sched_entity \<Rightarrow> cfs_rq" where
  "store_se cfs se = (if is_curr cfs se then cfs\<lparr>cfs_curr := Some se\<rparr> else cfs)"

text \<open>A write to an entity of the tree that concerns neither its deadline nor \<open>min_deadline\<close>.\<close>

definition store_node :: "cfs_rq \<Rightarrow> sched_entity \<Rightarrow> cfs_rq" where
  "store_node cfs se =
     cfs\<lparr>tasks_timeline := rb_write_node se_id (se_id se)
           (\<lambda>x. se\<lparr>se_min_deadline := se_min_deadline x\<rparr>) (tasks_timeline cfs)\<rparr>"

definition find_se :: "cfs_rq \<Rightarrow> nat \<Rightarrow> sched_entity option" where
  "find_se cfs i =
     (case cfs_curr cfs of
        Some c \<Rightarrow> if se_id c = i then Some c
                  else map_option (\<lambda>(c, l, x, r, ps). x) (rb_locate se_id i (rb_root (tasks_timeline cfs)) [])
      | None \<Rightarrow> map_option (\<lambda>(c, l, x, r, ps). x) (rb_locate se_id i (rb_root (tasks_timeline cfs)) []))"

section \<open>Run time\<close>

definition clear_buddies :: "cfs_rq \<Rightarrow> sched_entity \<Rightarrow> cfs_rq" where
  "clear_buddies cfs se = (if cfs_next cfs = Some (se_id se) then cfs\<lparr>cfs_next := None\<rparr> else cfs)"

text \<open>The entity-local part of \<open>update_curr\<close>; the second component is the result of \<open>update_deadline\<close>.\<close>

definition charge_curr :: "fair_env \<Rightarrow> int \<Rightarrow> int \<Rightarrow> int \<Rightarrow> sched_entity \<Rightarrow> sched_entity \<times> bool" where
  "charge_curr env nr_running now delta_exec cur =
     (let cur = cur\<lparr>se_exec_start := now, se_sum_exec_runtime := u64 (se_sum_exec_runtime cur + delta_exec)\<rparr>;
          (d, cur) = calc_delta_fair delta_exec cur;
          cur = cur\<lparr>se_vruntime := u64 (se_vruntime cur + d)\<rparr>
      in update_deadline env nr_running cur)"

definition update_curr :: "fair_sys \<Rightarrow> pelt_rq \<Rightarrow> fair_level \<Rightarrow> fair_level" where
  "update_curr sys rq lv =
     (let cfs = lv_cfs lv; now = prq_clock_task rq in
      case cfs_curr cfs of
        None \<Rightarrow> lv
      | Some cur \<Rightarrow>
          let delta_exec = u64 (now - se_exec_start cur) in
          if s64 delta_exec \<le> 0 then lv
          else
            let (cur, new_slice) = charge_curr (fs_env sys) (cfs_nr_running cfs) now delta_exec cur;
                cfs = cfs\<lparr>cfs_curr := Some cur\<rparr>;
                cfs = (if new_slice then clear_buddies cfs cur else cfs);
                cfs = update_min_vruntime cfs;
                (b, cfs, resched) = account_cfs_rq_runtime (fs_bw_used sys) (fs_bw_slice sys) (lv_bw lv) cfs delta_exec
            in lv\<lparr>lv_cfs := cfs, lv_bw := b, lv_resched := lv_resched lv \<or> new_slice \<or> resched\<rparr>)"

section \<open>Weight\<close>

definition account_entity_enqueue :: "cfs_rq \<Rightarrow> sched_entity \<Rightarrow> cfs_rq" where
  "account_entity_enqueue cfs se =
     (let cfs = cfs\<lparr>cfs_load := update_load_add (cfs_load cfs) (weight (se_load se))\<rparr>;
          cfs = cfs\<lparr>cfs_nr_running := u32 (cfs_nr_running cfs + 1)\<rparr>
      in if se_is_idle se then cfs\<lparr>cfs_idle_nr_running := u32 (cfs_idle_nr_running cfs + 1)\<rparr> else cfs)"

definition account_entity_dequeue :: "cfs_rq \<Rightarrow> sched_entity \<Rightarrow> cfs_rq" where
  "account_entity_dequeue cfs se =
     (let cfs = cfs\<lparr>cfs_load := update_load_sub (cfs_load cfs) (weight (se_load se))\<rparr>;
          cfs = cfs\<lparr>cfs_nr_running := u32 (cfs_nr_running cfs - 1)\<rparr>
      in if se_is_idle se then cfs\<lparr>cfs_idle_nr_running := u32 (cfs_idle_nr_running cfs - 1)\<rparr> else cfs)"

text \<open>The new weight of an entity and the scaling of its lag (off the runqueue) or its relative deadline (on it).\<close>

definition reweight_se :: "sched_entity \<Rightarrow> int \<Rightarrow> sched_entity" where
  "reweight_se se w =
     (let old_weight = weight (se_load se);
          se = se\<lparr>se_load := update_load_set (se_load se) w\<rparr>
      in if \<not> se_on_rq se
         then se\<lparr>se_vlag := div_s64 (s64 (se_vlag se * old_weight)) w\<rparr>
         else
           let deadline = s64 (se_deadline se - se_vruntime se);
               deadline = div_s64 (s64 (deadline * old_weight)) w
           in se\<lparr>se_deadline := u64 (se_vruntime se + deadline)\<rparr>)"

definition reweight_load_avg :: "sched_entity \<Rightarrow> sched_entity" where
  "reweight_load_avg se =
     se\<lparr>se_avg := (se_avg se)\<lparr>load_avg :=
       div_u64 (u64 (se_weight se * load_sum (se_avg se))) (get_pelt_divider (se_avg se))\<rparr>\<rparr>"

text \<open>
  The write of weight and deadline to an entity of the tree is followed by \<open>min_deadline_cb_propagate\<close>; the write of \<open>load_avg\<close>
  comes with it.
\<close>

definition reweight_entity ::
    "fair_sys \<Rightarrow> pelt_rq \<Rightarrow> fair_level \<Rightarrow> sched_entity \<Rightarrow> int \<Rightarrow> fair_level \<times> sched_entity" where
  "reweight_entity sys rq lv se w =
     (let cur = is_curr (lv_cfs lv) se;
          lv = (if se_on_rq se then
                  (if cur then update_curr sys rq lv else lv\<lparr>lv_cfs := avg_vruntime_sub (lv_cfs lv) se\<rparr>)
                else lv);
          cfs = lv_cfs lv;
          se = live_se cfs se;
          cfs = (if se_on_rq se then cfs\<lparr>cfs_load := update_load_sub (cfs_load cfs) (weight (se_load se))\<rparr> else cfs);
          cfs = dequeue_load_avg cfs se;
          se' = reweight_load_avg (reweight_se se w);
          cfs = (if se_on_rq se \<and> \<not> cur
                 then cfs\<lparr>tasks_timeline := rb_update_node min_deadline_cb se_id (se_id se)
                            (\<lambda>x. se'\<lparr>se_min_deadline := se_min_deadline x\<rparr>) (tasks_timeline cfs)\<rparr>
                 else store_se cfs se');
          cfs = enqueue_load_avg cfs se';
          cfs = (if se_on_rq se' then
                   let cfs = cfs\<lparr>cfs_load := update_load_add (cfs_load cfs) (weight (se_load se'))\<rparr>
                   in if \<not> cur then avg_vruntime_add cfs se' else cfs
                 else cfs)
      in (lv\<lparr>lv_cfs := cfs\<rparr>, se'))"

text \<open>\<open>prio\<close> is an index of the tables of 40 entries.\<close>

definition reweight_task ::
    "fair_sys \<Rightarrow> pelt_rq \<Rightarrow> fair_level \<Rightarrow> sched_entity \<Rightarrow> nat \<Rightarrow> fair_level \<times> sched_entity" where
  "reweight_task sys rq lv se prio =
     (let (lv, se) = reweight_entity sys rq lv se (scale_load (sched_prio_to_weight ! prio));
          se = se\<lparr>se_load := (se_load se)\<lparr>inv_weight := sched_prio_to_wmult ! prio\<rparr>\<rparr>;
          cfs = store_se (lv_cfs lv) se;
          cfs = (if se_on_rq se \<and> \<not> is_curr cfs se then store_node cfs se else cfs)
      in (lv\<lparr>lv_cfs := cfs\<rparr>, se))"

definition update_cfs_group ::
    "fair_sys \<Rightarrow> pelt_rq \<Rightarrow> fair_level \<Rightarrow> sched_entity \<Rightarrow> group_q \<Rightarrow> fair_level \<times> sched_entity" where
  "update_cfs_group sys rq lv se g =
     (case g of
        None \<Rightarrow> (lv, se)
      | Some (gcfs, gtg) \<Rightarrow>
          if throttled_hierarchy (fs_bw_used sys) gcfs then (lv, se)
          else reweight_entity sys rq lv se (calc_group_shares gcfs gtg))"

text \<open>\<open>update_load_avg\<close> on a level.\<close>

definition level_load_avg ::
    "fair_sys \<Rightarrow> pelt_rq \<Rightarrow> load_flags \<Rightarrow> fair_level \<Rightarrow> sched_entity \<Rightarrow> group_q \<Rightarrow> fair_level \<times> sched_entity \<times> group_q" where
  "level_load_avg sys rq flags lv se g =
     (let (cfs, tg, se, gcfs, ch) = update_load_avg (fs_util_est sys) rq flags (lv_cfs lv) (lv_tg lv) se (map_option fst g)
      in (lv\<lparr>lv_cfs := store_se cfs se, lv_tg := tg, lv_util_change := lv_util_change lv \<or> ch\<rparr>, se,
          case (gcfs, g) of (Some q, Some (_, gtg)) \<Rightarrow> Some (q, gtg) | _ \<Rightarrow> g))"

definition level_update_runnable :: "fair_level \<Rightarrow> sched_entity \<Rightarrow> group_q \<Rightarrow> fair_level \<times> sched_entity" where
  "level_update_runnable lv se g =
     (let se = se_update_runnable se (map_option fst g)
      in (lv\<lparr>lv_cfs := store_se (lv_cfs lv) se\<rparr>, se))"

section \<open>Enqueue and dequeue\<close>

record enqueue_flags =
  ENQUEUE_INITIAL :: bool
  ENQUEUE_MIGRATED :: bool

text \<open>
  The end of \<open>enqueue_entity\<close>, for the first entity of the runqueue.  The first component says that \<open>throttle_cfs_rq\<close>
  throttled the runqueue.
\<close>

definition first_enqueued :: "fair_sys \<Rightarrow> pelt_rq \<Rightarrow> fair_level \<Rightarrow> bool \<times> fair_level" where
  "first_enqueued sys rq lv =
     (let (thr, b, cfs) = check_enqueue_throttle (fs_bw_used sys) (fs_bw_slice sys) rq (lv_bw lv) (lv_cfs lv);
          cfs = (if \<not> throttled_hierarchy (fs_bw_used sys) cfs then cfs
                 else
                   let cfs = (if cfs_rq_throttled (fs_bw_used sys) cfs \<and> throttled_clock cfs = 0
                              then cfs\<lparr>throttled_clock := prq_clock rq\<rparr> else cfs)
                   in if throttled_clock_self cfs = 0 then cfs\<lparr>throttled_clock_self := prq_clock rq\<rparr> else cfs)
      in (thr, lv\<lparr>lv_cfs := cfs, lv_bw := b\<rparr>))"

definition ATTACH_FLAGS :: load_flags where
  "ATTACH_FLAGS = \<lparr>UPDATE_TG = True, SKIP_AGE_LOAD = False, DO_ATTACH = True, DO_DETACH = False\<rparr>"

text \<open>\<open>enqueue_entity\<close> up to the insertion into the tree, with the write of \<open>on_rq\<close> that follows it.\<close>

definition enqueue_prepare ::
    "fair_sys \<Rightarrow> pelt_rq \<Rightarrow> fair_level \<Rightarrow> sched_entity \<Rightarrow> group_q \<Rightarrow> enqueue_flags \<Rightarrow> fair_level \<times> sched_entity \<times> group_q" where
  "enqueue_prepare sys rq lv se g flags =
     (let cur = is_curr (lv_cfs lv) se;
          se = (if cur then place_entity (fs_env sys) (lv_cfs lv) se (ENQUEUE_INITIAL flags) else se);
          lv = update_curr sys rq (lv\<lparr>lv_cfs := store_se (lv_cfs lv) se\<rparr>);
          se = live_se (lv_cfs lv) se;
          (lv, se, g) = level_load_avg sys rq ATTACH_FLAGS lv se g;
          (lv, se) = level_update_runnable lv se g;
          (lv, se) = update_cfs_group sys rq lv se g;
          se = (if \<not> cur then place_entity (fs_env sys) (lv_cfs lv) se (ENQUEUE_INITIAL flags) else se);
          lv = lv\<lparr>lv_cfs := account_entity_enqueue (lv_cfs lv) se\<rparr>;
          se = (if ENQUEUE_MIGRATED flags then se\<lparr>se_exec_start := 0\<rparr> else se)
      in (lv, se\<lparr>se_on_rq := True\<rparr>, g))"

definition enqueue_entity ::
    "fair_sys \<Rightarrow> pelt_rq \<Rightarrow> fair_level \<Rightarrow> sched_entity \<Rightarrow> group_q \<Rightarrow> enqueue_flags
       \<Rightarrow> (bool \<times> fair_level \<times> sched_entity \<times> group_q) option" where
  "enqueue_entity sys rq lv se g flags =
     (let cur = is_curr (lv_cfs lv) se;
          (lv, se, g) = enqueue_prepare sys rq lv se g flags;
          cfs = lv_cfs lv
      in map_option (\<lambda>cfs.
           let lv = lv\<lparr>lv_cfs := cfs\<rparr>;
               (thr, lv) = (if cfs_nr_running cfs = 1 then first_enqueued sys rq lv else (False, lv))
           in (thr, lv, se, g))
         (if \<not> cur then enqueue_entity0 cfs se else Some (store_se cfs se)))"

record dequeue_flags =
  DEQUEUE_SLEEP :: bool
  DEQUEUE_SAVE :: bool
  DEQUEUE_MOVE :: bool

text \<open>
  \<open>dequeue_entity\<close> up to and from the removal from the tree.  \<open>migrating\<close>: the entity is a task that is
  \<open>task_on_rq_migrating\<close>.
\<close>

definition dequeue_prepare ::
    "fair_sys \<Rightarrow> pelt_rq \<Rightarrow> fair_level \<Rightarrow> sched_entity \<Rightarrow> group_q \<Rightarrow> bool \<Rightarrow> fair_level \<times> sched_entity \<times> group_q" where
  "dequeue_prepare sys rq lv se g migrating =
     (let action = \<lparr>UPDATE_TG = True, SKIP_AGE_LOAD = False, DO_ATTACH = False, DO_DETACH = se_is_task se \<and> migrating\<rparr>;
          lv = update_curr sys rq lv;
          se = live_se (lv_cfs lv) se;
          (lv, se, g) = level_load_avg sys rq action lv se g;
          (lv, se) = level_update_runnable lv se g;
          cfs = clear_buddies (lv_cfs lv) se
      in (lv\<lparr>lv_cfs := cfs\<rparr>, update_entity_lag (fs_env sys) cfs se, g))"

definition dequeue_finish ::
    "fair_sys \<Rightarrow> pelt_rq \<Rightarrow> fair_level \<Rightarrow> sched_entity \<Rightarrow> group_q \<Rightarrow> dequeue_flags \<Rightarrow> fair_level \<times> sched_entity \<times> group_q" where
  "dequeue_finish sys rq lv se g flags =
     (let se = se\<lparr>se_on_rq := False\<rparr>;
          cfs = account_entity_dequeue (store_se (lv_cfs lv) se) se;
          (b, cfs) = return_cfs_rq_runtime (fs_bw_used sys) (fs_bw_slice sys) (fs_bw_timer sys) (fs_bw_waiting sys) (lv_bw lv) cfs;
          (lv, se) = update_cfs_group sys rq (lv\<lparr>lv_cfs := cfs, lv_bw := b\<rparr>) se g;
          cfs = lv_cfs lv;
          cfs = (if \<not> (DEQUEUE_SAVE flags \<and> \<not> DEQUEUE_MOVE flags) then update_min_vruntime cfs else cfs);
          cfs = (if cfs_nr_running cfs = 0 then update_idle_cfs_rq_clock_pelt cfs else cfs)
      in (lv\<lparr>lv_cfs := cfs\<rparr>, se, g))"

definition dequeue_entity ::
    "fair_sys \<Rightarrow> pelt_rq \<Rightarrow> fair_level \<Rightarrow> sched_entity \<Rightarrow> group_q \<Rightarrow> bool \<Rightarrow> dequeue_flags
       \<Rightarrow> (fair_level \<times> sched_entity \<times> group_q) option" where
  "dequeue_entity sys rq lv se g migrating flags =
     (let (lv, se, g) = dequeue_prepare sys rq lv se g migrating;
          cfs = lv_cfs lv
      in map_option (\<lambda>cfs. dequeue_finish sys rq (lv\<lparr>lv_cfs := cfs\<rparr>) se g flags)
           (if \<not> is_curr cfs se then dequeue_entity0 cfs se else Some cfs))"

section \<open>The current entity\<close>

definition TG_FLAGS :: load_flags where
  "TG_FLAGS = \<lparr>UPDATE_TG = True, SKIP_AGE_LOAD = False, DO_ATTACH = False, DO_DETACH = False\<rparr>"

definition NO_FLAGS :: load_flags where
  "NO_FLAGS = \<lparr>UPDATE_TG = False, SKIP_AGE_LOAD = False, DO_ATTACH = False, DO_DETACH = False\<rparr>"

text \<open>With \<open>update_stats_curr_start\<close>.\<close>

definition start_curr :: "pelt_rq \<Rightarrow> sched_entity \<Rightarrow> sched_entity" where
  "start_curr rq se =
     se\<lparr>se_exec_start := prq_clock_task rq, se_prev_sum_exec_runtime := se_sum_exec_runtime se\<rparr>"

definition set_next_entity ::
    "fair_sys \<Rightarrow> pelt_rq \<Rightarrow> fair_level \<Rightarrow> sched_entity \<Rightarrow> group_q \<Rightarrow> (fair_level \<times> sched_entity \<times> group_q) option" where
  "set_next_entity sys rq lv se g =
     (let cfs = clear_buddies (lv_cfs lv) se in
      map_option (\<lambda>cfs.
        let lv = lv\<lparr>lv_cfs := cfs\<rparr>;
            (lv, se, g) = (if se_on_rq se then
                             let (lv, se, g) = level_load_avg sys rq TG_FLAGS lv se g
                             in (lv, se\<lparr>se_vlag := s64 (se_deadline se)\<rparr>, g)
                           else (lv, se, g));
            se = start_curr rq se
        in (lv\<lparr>lv_cfs := (lv_cfs lv)\<lparr>cfs_curr := Some se\<rparr>\<rparr>, se, g))
      (if se_on_rq se then dequeue_entity0 cfs se else Some cfs))"

definition pick_next_entity :: "fair_env \<Rightarrow> cfs_rq \<Rightarrow> sched_entity option" where
  "pick_next_entity env cfs =
     (case Option.bind (cfs_next cfs) (find_se cfs) of
        Some n \<Rightarrow> if NEXT_BUDDY env \<and> entity_eligible cfs n then Some n else pick_eevdf env cfs
      | None \<Rightarrow> pick_eevdf env cfs)"

text \<open>
  \<open>prev\<close> is the current entity, which stays \<open>cfs_curr\<close> until the last line.  The first component says that
  \<open>throttle_cfs_rq\<close> throttled the runqueue.
\<close>

definition put_prev_entity ::
    "fair_sys \<Rightarrow> pelt_rq \<Rightarrow> fair_level \<Rightarrow> sched_entity \<Rightarrow> group_q \<Rightarrow> (bool \<times> fair_level \<times> sched_entity \<times> group_q) option" where
  "put_prev_entity sys rq lv prev g =
     (let lv = (if se_on_rq prev then update_curr sys rq lv else lv);
          (_, thr, b, cfs) = check_cfs_rq_runtime (fs_bw_used sys) rq (lv_bw lv) (lv_cfs lv);
          prev = live_se cfs prev;
          lv = lv\<lparr>lv_bw := b\<rparr>
      in map_option (\<lambda>cfs.
           let lv = lv\<lparr>lv_cfs := cfs\<rparr>;
               (lv, prev, g) = (if se_on_rq prev then
                                  let (lv, prev, g) = level_load_avg sys rq NO_FLAGS lv prev g
                                  in (lv\<lparr>lv_cfs := store_node (lv_cfs lv) prev\<rparr>, prev, g)
                                else (lv, prev, g))
           in (thr, lv\<lparr>lv_cfs := (lv_cfs lv)\<lparr>cfs_curr := None\<rparr>\<rparr>, prev, g))
         (if se_on_rq prev then enqueue_entity0 cfs prev else Some cfs))"

text \<open>\<open>hrtick\<close> is the argument \<open>queued\<close>, set by the high-resolution tick.\<close>

definition entity_tick ::
    "fair_sys \<Rightarrow> pelt_rq \<Rightarrow> fair_level \<Rightarrow> sched_entity \<Rightarrow> group_q \<Rightarrow> bool \<Rightarrow> fair_level \<times> sched_entity \<times> group_q" where
  "entity_tick sys rq lv cur g hrtick =
     (let lv = update_curr sys rq lv;
          cur = live_se (lv_cfs lv) cur;
          (lv, cur, g) = level_load_avg sys rq TG_FLAGS lv cur g;
          (lv, cur) = update_cfs_group sys rq lv cur g;
          lv = (if hrtick then lv\<lparr>lv_resched := True\<rparr> else lv)
      in (lv, cur, g))"

end
