(* ===== verification/Fair_Frame.thy ===== *)
theory Fair_Frame
  imports Fair
begin

text \<open>
  What the operations on load averages and bandwidth leave alone in a runqueue, so that the lemmas on the queue of entities
  carry over.
\<close>

section \<open>What the averages and the bandwidth leave alone\<close>

text \<open>
  \<open>cfs_frame\<close> forgets the fields the load averages write, \<open>queue_frame\<close> also those of bandwidth control.
\<close>

definition se_frame :: "sched_entity \<Rightarrow> sched_entity" where
  "se_frame se = se\<lparr>se_avg := sched_avg0\<rparr>"

definition cfs_frame :: "cfs_rq \<Rightarrow> cfs_rq" where
  "cfs_frame cfs = cfs\<lparr>cfs_avg := sched_avg0, removed_nr := 0, removed_load_avg := 0, removed_util_avg := 0,
     removed_runnable_avg := 0, tg_load_avg_contrib := 0, propagate := False, prop_runnable_sum := 0\<rparr>"

definition queue_frame :: "cfs_rq \<Rightarrow> cfs_rq" where
  "queue_frame cfs = (cfs_frame cfs)\<lparr>runtime_remaining := 0, throttled_pelt_idle := 0, throttled_clock := 0, throttled_clock_pelt := 0,
     throttled_clock_pelt_time := 0, throttled_clock_self := 0, throttled_clock_self_time := 0, cfs_throttled := False,
     throttle_count := 0\<rparr>"

lemma frame_simps [simp]:
  "se_frame (se\<lparr>se_avg := a\<rparr>) = se_frame se"
  "cfs_frame (cfs\<lparr>cfs_avg := a\<rparr>) = cfs_frame cfs" "cfs_frame (cfs\<lparr>removed_nr := n\<rparr>) = cfs_frame cfs"
  "cfs_frame (cfs\<lparr>removed_load_avg := n\<rparr>) = cfs_frame cfs" "cfs_frame (cfs\<lparr>removed_util_avg := n\<rparr>) = cfs_frame cfs"
  "cfs_frame (cfs\<lparr>removed_runnable_avg := n\<rparr>) = cfs_frame cfs" "cfs_frame (cfs\<lparr>tg_load_avg_contrib := n\<rparr>) = cfs_frame cfs"
  "cfs_frame (cfs\<lparr>propagate := b\<rparr>) = cfs_frame cfs" "cfs_frame (cfs\<lparr>prop_runnable_sum := n\<rparr>) = cfs_frame cfs"
  by (simp_all add: se_frame_def cfs_frame_def)

lemma queue_frame_simps [simp]:
  "queue_frame (cfs\<lparr>runtime_remaining := n\<rparr>) = queue_frame cfs" "queue_frame (cfs\<lparr>throttled_pelt_idle := n\<rparr>) = queue_frame cfs"
  "queue_frame (cfs\<lparr>throttled_clock := n\<rparr>) = queue_frame cfs" "queue_frame (cfs\<lparr>throttled_clock_pelt := n\<rparr>) = queue_frame cfs"
  "queue_frame (cfs\<lparr>throttled_clock_pelt_time := n\<rparr>) = queue_frame cfs" "queue_frame (cfs\<lparr>throttled_clock_self := n\<rparr>) = queue_frame cfs"
  "queue_frame (cfs\<lparr>throttled_clock_self_time := n\<rparr>) = queue_frame cfs" "queue_frame (cfs\<lparr>cfs_throttled := b\<rparr>) = queue_frame cfs"
  "queue_frame (cfs\<lparr>throttle_count := n\<rparr>) = queue_frame cfs"
  by (simp_all add: queue_frame_def cfs_frame_def)

lemma cfs_queue_frame: "cfs_frame a = cfs_frame b \<Longrightarrow> queue_frame a = queue_frame b"
  by (simp add: queue_frame_def)

lemma queue_frameD:
  assumes "queue_frame a = queue_frame b"
  shows "cfs_load a = cfs_load b" "cfs_nr_running a = cfs_nr_running b" "cfs_h_nr_running a = cfs_h_nr_running b"
    "cfs_idle_nr_running a = cfs_idle_nr_running b" "cfs_idle_h_nr_running a = cfs_idle_h_nr_running b"
    "cfs_avg_vruntime a = cfs_avg_vruntime b" "cfs_avg_load a = cfs_avg_load b" "cfs_min_vruntime a = cfs_min_vruntime b"
    "tasks_timeline a = tasks_timeline b" "cfs_curr a = cfs_curr b" "cfs_next a = cfs_next b" "runtime_enabled a = runtime_enabled b"
  using assms by (cases a; cases b; simp add: queue_frame_def cfs_frame_def)+

lemma se_frameD:
  assumes "se_frame a = se_frame b"
  shows "se_id a = se_id b" "se_load a = se_load b" "se_deadline a = se_deadline b" "se_min_deadline a = se_min_deadline b"
    "se_on_rq a = se_on_rq b" "se_exec_start a = se_exec_start b" "se_sum_exec_runtime a = se_sum_exec_runtime b"
    "se_vruntime a = se_vruntime b" "se_vlag a = se_vlag b" "se_slice a = se_slice b" "se_is_task a = se_is_task b"
    "se_is_idle a = se_is_idle b"
  using assms by (cases a; cases b; simp add: se_frame_def)+

subsection \<open>The averages\<close>

lemma frame_load_avg [simp]:
  "cfs_frame (enqueue_load_avg cfs se) = cfs_frame cfs" "cfs_frame (dequeue_load_avg cfs se) = cfs_frame cfs"
  "cfs_frame (add_tg_cfs_propagate cfs s) = cfs_frame cfs" "cfs_frame (apply_removed cfs) = cfs_frame cfs"
  "cfs_frame (detach_entity_load_avg cfs se) = cfs_frame cfs"
  by (simp_all add: enqueue_load_avg_def dequeue_load_avg_def add_tg_cfs_propagate_def apply_removed_def
      detach_entity_load_avg_def Let_def)

lemma frame_update_load_avg_se [simp]: "se_frame (snd (update_load_avg_se feat now cfs se)) = se_frame se"
  by (simp add: update_load_avg_se_def split_def)

lemma frame_update_cfs_rq_load_avg [simp]: "cfs_frame (snd (update_cfs_rq_load_avg now cfs)) = cfs_frame cfs"
  by (simp add: update_cfs_rq_load_avg_def update_load_avg_cfs_rq_def split_def Let_def)

lemma frame_update_tg_load_avg [simp]: "cfs_frame (fst (update_tg_load_avg cfs tg)) = cfs_frame cfs"
  by (simp add: update_tg_load_avg_def Let_def)

lemma frame_attach_entity_load_avg [simp]:
  "cfs_frame (fst (attach_entity_load_avg cfs se)) = cfs_frame cfs"
  "se_frame (snd (attach_entity_load_avg cfs se)) = se_frame se"
  by (simp_all add: attach_entity_load_avg_def Let_def)

lemma frame_update_tg_cfs [simp]:
  "cfs_frame (fst (update_tg_cfs_util cfs se g)) = cfs_frame cfs" "se_frame (snd (update_tg_cfs_util cfs se g)) = se_frame se"
  "cfs_frame (fst (update_tg_cfs_runnable cfs se g)) = cfs_frame cfs" "se_frame (snd (update_tg_cfs_runnable cfs se g)) = se_frame se"
  "cfs_frame (fst (update_tg_cfs_load cfs se g)) = cfs_frame cfs" "se_frame (fst (snd (update_tg_cfs_load cfs se g))) = se_frame se"
  "cfs_frame (snd (snd (update_tg_cfs_load cfs se g))) = cfs_frame g"
  by (simp_all add: update_tg_cfs_util_def update_tg_cfs_runnable_def update_tg_cfs_load_def Let_def)

lemma frame_propagate_entity_load_avg:
  assumes "propagate_entity_load_avg cfs se g = (d, cfs', se', g')"
  shows "cfs_frame cfs' = cfs_frame cfs \<and> se_frame se' = se_frame se \<and> map_option cfs_frame g' = map_option cfs_frame g"
  using assms by (auto simp: propagate_entity_load_avg_def split_def Let_def split: option.splits if_splits)

lemma frame_update_load_avg:
  assumes "update_load_avg feat rq flags cfs tg se g = (cfs', tg', se', g', ch)"
  shows "cfs_frame cfs' = cfs_frame cfs \<and> se_frame se' = se_frame se \<and> map_option cfs_frame g' = map_option cfs_frame g"
proof -
  define now where "now = cfs_rq_clock_pelt rq cfs"
  define se1 where "se1 = (if last_update_time (se_avg se) \<noteq> 0 \<and> \<not> SKIP_AGE_LOAD flags
    then snd (update_load_avg_se feat now cfs se) else se)"
  define cfs1 where "cfs1 = snd (update_cfs_rq_load_avg now cfs)"
  obtain d cfs2 se2 g2 where p: "propagate_entity_load_avg cfs1 se1 g = (d, cfs2, se2, g2)"
    by (cases "propagate_entity_load_avg cfs1 se1 g") auto
  have 1: "se_frame se1 = se_frame se" "cfs_frame cfs1 = cfs_frame cfs" by (simp_all add: se1_def cfs1_def)
  note 2 = frame_propagate_entity_load_avg [OF p, unfolded 1]
  note c1 = cfs1_def [unfolded now_def] and s1 = se1_def [unfolded now_def]
  have "cfs_frame cfs' = cfs_frame cfs2 \<and> se_frame se' = se_frame se2 \<and> g' = g2"
    using assms unfolding update_load_avg_def Let_def split_def c1 [symmetric] s1 [symmetric] p
    by (auto simp: split: if_splits)
  with 2 show ?thesis by simp
qed

subsection \<open>Bandwidth\<close>

lemma frame_assign_cfs_rq_runtime0 [simp]: "queue_frame (snd (snd (assign_cfs_rq_runtime0 b cfs t))) = queue_frame cfs"
  by (simp add: assign_cfs_rq_runtime0_def split_def Let_def)

lemma frame_account_cfs_rq_runtime [simp]:
  "queue_frame (fst (snd (account_cfs_rq_runtime used slice b cfs d))) = queue_frame cfs"
  by (simp add: account_cfs_rq_runtime_def account_cfs_rq_runtime0_def assign_cfs_rq_runtime_def split_def Let_def)

lemma frame_throttle_cfs_rq_self [simp]: "queue_frame (snd (snd (throttle_cfs_rq_self rq b cfs))) = queue_frame cfs"
  by (simp add: throttle_cfs_rq_self_def tg_throttle_down_def split_def Let_def)

lemma frame_check_enqueue_throttle [simp]:
  "queue_frame (snd (snd (check_enqueue_throttle used slice rq b cfs))) = queue_frame cfs"
  by (simp add: check_enqueue_throttle_def split_def Let_def)

lemma frame_check_cfs_rq_runtime [simp]:
  "queue_frame (snd (snd (snd (check_cfs_rq_runtime used rq b cfs)))) = queue_frame cfs"
  by (simp add: check_cfs_rq_runtime_def split_def Let_def)

lemma frame_return_cfs_rq_runtime [simp]:
  "queue_frame (snd (return_cfs_rq_runtime used slice timer waiting b cfs)) = queue_frame cfs"
  by (simp add: return_cfs_rq_runtime_def return_cfs_rq_runtime0_def Let_def)

lemma frame_first_enqueued [simp]: "queue_frame (lv_cfs (snd (first_enqueued sys rq lv))) = queue_frame (lv_cfs lv)"
  by (simp add: first_enqueued_def split_def Let_def)

lemma frame_update_idle [simp]: "queue_frame (update_idle_cfs_rq_clock_pelt cfs) = queue_frame cfs"
  by (simp add: update_idle_cfs_rq_clock_pelt_def)

end
