(* ===== verification/Fair_Inv.thy ===== *)
theory Fair_Inv
  imports Fair_Frame
begin

text \<open>
  The invariant of the runqueue of a level, and that accounting of run time and of load averages keeps it.
\<close>

section \<open>The invariant of a level\<close>

definition tally :: "(sched_entity \<Rightarrow> int) \<Rightarrow> cfs_rq \<Rightarrow> int" where
  "tally f cfs = (\<Sum>x\<leftarrow>competing cfs. f x)"

definition idle_one :: "sched_entity \<Rightarrow> int" where
  "idle_one se = (if se_is_idle se then 1 else 0)"

definition load_of :: "sched_entity \<Rightarrow> int" where
  "load_of se = weight (se_load se)"

text \<open>The counters and the load of the runqueue, in the width they have, are those of the competing entities.\<close>

definition counts_ok :: "cfs_rq \<Rightarrow> bool" where
  "counts_ok cfs \<longleftrightarrow> cfs_nr_running cfs = u32 (tally (\<lambda>_. 1) cfs) \<and> cfs_idle_nr_running cfs = u32 (tally idle_one cfs) \<and>
     weight (cfs_load cfs) = u64 (tally load_of cfs)"

text \<open>
  The timeline is a well-formed tree with exact sums of entities that are on the runqueue, the current entity is not one of them,
  and virtual time stays in a window \<open>w\<close>.
\<close>

definition queue_ok :: "int \<Rightarrow> cfs_rq \<Rightarrow> bool" where
  "queue_ok w cfs \<longleftrightarrow> timeline_ok w cfs \<and> sums_ok cfs \<and> in_window w (cfs_min_vruntime cfs) \<and>
     (\<forall>x \<in> set (queued cfs). se_on_rq x) \<and>
     pred_option (\<lambda>c. (se_on_rq c \<longrightarrow> in_window w (se_vruntime c)) \<and> se_id c \<notin> se_id ` set (queued cfs)) (cfs_curr cfs)"

definition level_ok :: "int \<Rightarrow> cfs_rq \<Rightarrow> bool" where
  "level_ok w cfs \<longleftrightarrow> queue_ok w cfs \<and> counts_ok cfs"

definition curr_in :: "int \<Rightarrow> cfs_rq \<Rightarrow> bool" where
  "curr_in w cfs \<longleftrightarrow> pred_option (\<lambda>c. se_on_rq c \<longrightarrow> in_window w (se_vruntime c)) (cfs_curr cfs)"

lemma level_ok_frame:
  assumes "queue_frame a = queue_frame b"
  shows "queue_ok w a = queue_ok w b" "counts_ok a = counts_ok b" "level_ok w a = level_ok w b" "tally f a = tally f b"
    "queued a = queued b" "competing a = competing b"
proof -
  note f = queue_frameD [OF assms]
  show q: "queued a = queued b" by (simp add: queued_def f)
  show c: "competing a = competing b" by (simp add: competing_def f q split: option.split)
  then show t: "tally f a = tally f b" for f by (simp add: tally_def)
  show "queue_ok w a = queue_ok w b" by (simp add: queue_ok_def timeline_ok_def sums_ok_def f q)
  moreover show "counts_ok a = counts_ok b" by (simp add: counts_ok_def f t)
  ultimately show "level_ok w a = level_ok w b" by (simp add: level_ok_def)
qed

subsection \<open>Tallies\<close>

lemma tally_simps:
  "tally f cfs = (\<Sum>x\<leftarrow>queued cfs. f x) +
     (case cfs_curr cfs of Some c \<Rightarrow> if se_on_rq c then f c else 0 | None \<Rightarrow> 0)"
  by (simp add: tally_def competing_def split: option.split)

lemma sum_ins_after: "(\<Sum>x\<leftarrow>ins_after p k ks. f x) = f k + (\<Sum>x\<leftarrow>ks. f x :: int)"
proof -
  have "(\<Sum>x\<leftarrow>ks. f x) = (\<Sum>x\<leftarrow>takeWhile (\<lambda>j. p j \<le> p k) ks. f x) + (\<Sum>x\<leftarrow>dropWhile (\<lambda>j. p j \<le> p k) ks. f x)"
    by (metis map_append sum_list.append takeWhile_dropWhile_id)
  then show ?thesis by (simp add: ins_after_def)
qed

lemma sum_remove_id:
  assumes "distinct (map se_id ks)" "k \<in> set ks"
  shows "(\<Sum>x\<leftarrow>ks. f x) = f k + (\<Sum>x\<leftarrow>filter (\<lambda>j. se_id j \<noteq> se_id k) ks. f x :: int)"
proof -
  obtain xs ys where ks: "ks = xs @ k # ys" using assms(2) by (meson split_list)
  have "filter (\<lambda>j. se_id j \<noteq> se_id k) ks = xs @ ys"
    unfolding ks by (rule filter_remove1_key) (use assms(1) ks in simp)
  then show ?thesis by (simp add: ks)
qed

text \<open>What is tallied does not depend on the augmented data.\<close>

lemma sum_strip:
  assumes "\<And>x. f (se_strip x) = f x"
  shows "(\<Sum>x\<leftarrow>map se_strip xs. f x) = (\<Sum>x\<leftarrow>xs. f x :: int)"
  using assms by (induction xs) auto

lemma strip_tallied [simp]: "idle_one (se_strip x) = idle_one x" "load_of (se_strip x) = load_of x"
  by (simp_all add: idle_one_def load_of_def se_strip_def)

definition same_acct :: "sched_entity \<Rightarrow> sched_entity \<Rightarrow> bool" where
  "same_acct a b \<longleftrightarrow> se_id a = se_id b \<and> se_on_rq a = se_on_rq b \<and> se_is_idle a = se_is_idle b \<and>
     (se_on_rq a \<longrightarrow> load_of a = load_of b)"

lemma same_acct_refl [simp]: "same_acct a a"
  by (simp add: same_acct_def)

lemma same_acct_trans: "same_acct a b \<Longrightarrow> same_acct b c \<Longrightarrow> same_acct a c"
  by (simp add: same_acct_def)

lemma counts_ok_curr:
  assumes "counts_ok cfs" "cfs_curr cfs = Some c" "same_acct c c'"
  shows "counts_ok (cfs\<lparr>cfs_curr := Some c'\<rparr>)"
  using assms by (simp add: counts_ok_def tally_simps queued_def same_acct_def idle_one_def split: if_splits)

lemma queue_ok_curr:
  assumes "queue_ok w cfs" "cfs_curr cfs = Some c" "se_id c = se_id c'" "se_on_rq c' \<longrightarrow> in_window w (se_vruntime c')"
  shows "queue_ok w (cfs\<lparr>cfs_curr := Some c'\<rparr>)"
  using assms by (simp add: queue_ok_def timeline_ok_def sums_ok_def queued_def)

lemma queue_ok_next [simp]: "queue_ok w (cfs\<lparr>cfs_next := n\<rparr>) = queue_ok w cfs" "counts_ok (cfs\<lparr>cfs_next := n\<rparr>) = counts_ok cfs"
  by (simp_all add: queue_ok_def timeline_ok_def sums_ok_def queued_def counts_ok_def tally_simps)

lemma queue_ok_load [simp]: "queue_ok w (cfs\<lparr>cfs_load := l\<rparr>) = queue_ok w cfs"
  "queue_ok w (cfs\<lparr>cfs_nr_running := n\<rparr>) = queue_ok w cfs" "queue_ok w (cfs\<lparr>cfs_idle_nr_running := n\<rparr>) = queue_ok w cfs"
  by (simp_all add: queue_ok_def timeline_ok_def sums_ok_def queued_def)

subsection \<open>Minimum virtual runtime\<close>

lemma update_min_vruntime_fields [simp]:
  "tasks_timeline (update_min_vruntime cfs) = tasks_timeline cfs" "cfs_curr (update_min_vruntime cfs) = cfs_curr cfs"
  "cfs_nr_running (update_min_vruntime cfs) = cfs_nr_running cfs" "cfs_idle_nr_running (update_min_vruntime cfs) = cfs_idle_nr_running cfs"
  "cfs_load (update_min_vruntime cfs) = cfs_load cfs" "queued (update_min_vruntime cfs) = queued cfs"
  by (simp_all add: update_min_vruntime_def update_min_vruntime0_def avg_vruntime_update_def queued_def Let_def split_def)

lemma update_min_vruntime_cases:
  "\<exists>v. cfs_min_vruntime (update_min_vruntime cfs) = v \<and>
     (v = cfs_min_vruntime cfs \<or> (\<exists>c. cfs_curr cfs = Some c \<and> se_on_rq c \<and> v = se_vruntime c) \<or> (\<exists>s. pick_first_entity cfs = Some s \<and> v = se_vruntime s))"
  by (auto simp: update_min_vruntime_def update_min_vruntime0_def min_vruntime_def Let_def split: option.split)

lemma queue_ok_min_vruntime:
  assumes "queue_ok w cfs"
  shows "queue_ok w (update_min_vruntime cfs)"
proof -
  have tl: "timeline_ok w cfs" using assms by (simp add: queue_ok_def)
  have first: "pick_first_entity cfs = list_first (queued cfs)"
    using timeline.first_cached [OF tl [unfolded timeline_ok_def]] by (simp add: pick_first_entity_def queued_def)
  have "in_window w (se_vruntime x)" if "x \<in> set (queued cfs)" for x
    using timeline_tree_ok [OF tl] that by (simp add: se_tree_ok_def queued_def se_valid_def)
  then have "pick_first_entity cfs = Some s \<Longrightarrow> in_window w (se_vruntime s)" for s
    unfolding first by (cases "queued cfs") auto
  then have "in_window w (cfs_min_vruntime (update_min_vruntime cfs))"
    using update_min_vruntime_cases [of cfs] assms by (auto simp: queue_ok_def)
  with assms update_min_vruntime_sums [of cfs] show ?thesis by (simp add: queue_ok_def timeline_ok_def)
qed

lemma counts_ok_min_vruntime [simp]: "counts_ok (update_min_vruntime cfs) = counts_ok cfs"
  by (simp add: counts_ok_def tally_simps)

subsection \<open>Run time\<close>

lemma update_deadline_keeps:
  "same_acct cur (fst (update_deadline env n cur))" "se_vruntime (fst (update_deadline env n cur)) = se_vruntime cur"
  "se_exec_start (fst (update_deadline env n cur)) = se_exec_start cur"
proof -
  define s where "s = cur\<lparr>se_slice := sysctl_sched_base_slice env\<rparr>"
  obtain i where i: "snd (calc_delta_fair (sysctl_sched_base_slice env) s) = s\<lparr>se_load := (se_load s)\<lparr>inv_weight := i\<rparr>\<rparr>"
    using calc_delta_fair_se by blast
  show "same_acct cur (fst (update_deadline env n cur))" "se_vruntime (fst (update_deadline env n cur)) = se_vruntime cur"
    "se_exec_start (fst (update_deadline env n cur)) = se_exec_start cur"
    using i by (simp_all add: update_deadline_def split_def Let_def same_acct_def load_of_def s_def)
qed

lemma charge_curr_keeps:
  "same_acct cur (fst (charge_curr env n now d cur))" "se_exec_start (fst (charge_curr env n now d cur)) = now"
proof -
  define c where "c = cur\<lparr>se_exec_start := now, se_sum_exec_runtime := u64 (se_sum_exec_runtime cur + d)\<rparr>"
  obtain i where i: "snd (calc_delta_fair d c) = c\<lparr>se_load := (se_load c)\<lparr>inv_weight := i\<rparr>\<rparr>" using calc_delta_fair_se by blast
  define c' where "c' = c\<lparr>se_load := (se_load c)\<lparr>inv_weight := i\<rparr>, se_vruntime := u64 (se_vruntime c + fst (calc_delta_fair d c))\<rparr>"
  have e: "charge_curr env n now d cur = update_deadline env n c'"
    using i by (simp add: charge_curr_def Let_def split_def c'_def flip: c_def)
  have "same_acct cur c'" "se_exec_start c' = now" by (simp_all add: c'_def c_def same_acct_def load_of_def)
  then show "same_acct cur (fst (charge_curr env n now d cur))" "se_exec_start (fst (charge_curr env n now d cur)) = now"
    unfolding e using update_deadline_keeps [where cur = c' and env = env and n = n] same_acct_trans by auto
qed

definition synced :: "pelt_rq \<Rightarrow> cfs_rq \<Rightarrow> bool" where
  "synced rq cfs \<longleftrightarrow> pred_option (\<lambda>c. s64 (u64 (prq_clock_task rq - se_exec_start c)) \<le> 0) (cfs_curr cfs)"

lemma update_curr_synced: "synced rq (lv_cfs lv) \<Longrightarrow> update_curr sys rq lv = lv"
  by (auto simp: update_curr_def synced_def Let_def split: option.split)

lemma update_curr_cases:
  obtains (same) "update_curr sys rq lv = lv" "synced rq (lv_cfs lv)"
  | (run) c c' n where "cfs_curr (lv_cfs lv) = Some c" "same_acct c c'" "se_exec_start c' = prq_clock_task rq"
    "queue_frame (lv_cfs (update_curr sys rq lv)) =
       queue_frame (update_min_vruntime ((lv_cfs lv)\<lparr>cfs_curr := Some c', cfs_next := n\<rparr>))"
proof (cases "synced rq (lv_cfs lv)")
  case True
  then show ?thesis using that(1) update_curr_synced by blast
next
  case False
  then obtain c where c: "cfs_curr (lv_cfs lv) = Some c" "\<not> s64 (u64 (prq_clock_task rq - se_exec_start c)) \<le> 0"
    by (cases "cfs_curr (lv_cfs lv)") (auto simp: synced_def)
  define d where "d = u64 (prq_clock_task rq - se_exec_start c)"
  obtain c' ns where ch: "charge_curr (fs_env sys) (cfs_nr_running (lv_cfs lv)) (prq_clock_task rq) d c = (c', ns)" by fastforce
  have k: "same_acct c c'" "se_exec_start c' = prq_clock_task rq"
    using charge_curr_keeps [where cur = c and env = "fs_env sys" and n = "cfs_nr_running (lv_cfs lv)" and
      now = "prq_clock_task rq" and d = d] by (simp_all add: ch)
  define n where "n = (if ns \<and> cfs_next (lv_cfs lv) = Some (se_id c') then None else cfs_next (lv_cfs lv))"
  have n: "(if ns then clear_buddies ((lv_cfs lv)\<lparr>cfs_curr := Some c'\<rparr>) c' else (lv_cfs lv)\<lparr>cfs_curr := Some c'\<rparr>) =
      (lv_cfs lv)\<lparr>cfs_curr := Some c', cfs_next := n\<rparr>"
    by (simp add: n_def clear_buddies_def)
  have "lv_cfs (update_curr sys rq lv) = fst (snd (account_cfs_rq_runtime (fs_bw_used sys) (fs_bw_slice sys) (lv_bw lv)
      (update_min_vruntime ((lv_cfs lv)\<lparr>cfs_curr := Some c', cfs_next := n\<rparr>)) d))"
    using c n by (cases ns) (simp_all add: update_curr_def Let_def split_def d_def [symmetric] ch)
  then have "queue_frame (lv_cfs (update_curr sys rq lv)) =
      queue_frame (update_min_vruntime ((lv_cfs lv)\<lparr>cfs_curr := Some c', cfs_next := n\<rparr>))" by simp
  with c k show ?thesis using that(2) by blast
qed

lemma update_curr_ok:
  assumes "level_ok w (lv_cfs lv)" "curr_in w (lv_cfs (update_curr sys rq lv))"
  shows "level_ok w (lv_cfs (update_curr sys rq lv))"
proof (cases rule: update_curr_cases [of sys rq lv])
  case same
  then show ?thesis using assms by simp
next
  case (run c c' n)
  let ?q = "(lv_cfs lv)\<lparr>cfs_curr := Some c'\<rparr>"
  have "cfs_curr (lv_cfs (update_curr sys rq lv)) = Some c'" using queue_frameD(10) [OF run(4)] by simp
  then have "se_on_rq c' \<longrightarrow> in_window w (se_vruntime c')" using assms(2) by (simp add: curr_in_def)
  then have "queue_ok w ?q" "counts_ok ?q"
    using assms(1) run by (auto simp: level_ok_def same_acct_def intro: queue_ok_curr counts_ok_curr)
  then have "level_ok w (update_min_vruntime (?q\<lparr>cfs_next := n\<rparr>))"
    by (simp add: level_ok_def queue_ok_min_vruntime)
  then show ?thesis using level_ok_frame(3) [OF run(4)] by simp
qed

lemma update_curr_keeps:
  "tasks_timeline (lv_cfs (update_curr sys rq lv)) = tasks_timeline (lv_cfs lv)"
  "rel_option same_acct (cfs_curr (lv_cfs lv)) (cfs_curr (lv_cfs (update_curr sys rq lv)))"
  "synced rq (lv_cfs (update_curr sys rq lv))"
proof -
  have t: "tasks_timeline (lv_cfs (update_curr sys rq lv)) = tasks_timeline (lv_cfs lv) \<and>
    rel_option same_acct (cfs_curr (lv_cfs lv)) (cfs_curr (lv_cfs (update_curr sys rq lv))) \<and>
    synced rq (lv_cfs (update_curr sys rq lv))"
  proof (cases rule: update_curr_cases [of sys rq lv])
    case same
    then show ?thesis by (cases "cfs_curr (lv_cfs lv)") simp_all
  next
    case (run c c' n)
    then show ?thesis using queue_frameD(9,10) [OF run(4)] by (simp add: synced_def u64_def s64_def)
  qed
  then show "tasks_timeline (lv_cfs (update_curr sys rq lv)) = tasks_timeline (lv_cfs lv)"
    "rel_option same_acct (cfs_curr (lv_cfs lv)) (cfs_curr (lv_cfs (update_curr sys rq lv)))"
    "synced rq (lv_cfs (update_curr sys rq lv))" by simp_all
qed

subsection \<open>Writes to the entity of an operation\<close>

text \<open>\<open>at cfs se\<close>: if \<open>se\<close> is the current entity then it is the value kept in the runqueue.\<close>

definition at :: "cfs_rq \<Rightarrow> sched_entity \<Rightarrow> bool" where
  "at cfs se \<longleftrightarrow> (is_curr cfs se \<longrightarrow> cfs_curr cfs = Some se)"

definition sub_se :: "sched_entity \<Rightarrow> sched_entity \<Rightarrow> bool" where
  "sub_se a b \<longleftrightarrow> same_acct a b \<and> se_exec_start a = se_exec_start b \<and>
     (se_on_rq a \<longrightarrow> se_vruntime a = se_vruntime b \<and> se_deadline a = se_deadline b)"

text \<open>An operation that writes only to the load averages and to parts of the entity that are not accounted.\<close>

definition touch :: "cfs_rq \<Rightarrow> sched_entity \<Rightarrow> cfs_rq \<Rightarrow> sched_entity \<Rightarrow> bool" where
  "touch cfs se cfs' se' \<longleftrightarrow> sub_se se se' \<and> queue_frame cfs' = queue_frame (store_se cfs se')"

lemma live_at [simp]: "at cfs (live_se cfs se)"
  by (auto simp: at_def live_se_def is_curr_def split: option.splits)

lemma live_id [simp]: "se_id (live_se cfs se) = se_id se"
  by (auto simp: live_se_def split: option.splits)

lemma queue_frame_curr: "queue_frame (cfs\<lparr>cfs_curr := c\<rparr>) = (queue_frame cfs)\<lparr>cfs_curr := c\<rparr>"
  by (simp add: queue_frame_def cfs_frame_def)

lemma is_curr_frame: "queue_frame a = queue_frame b \<Longrightarrow> is_curr a se = is_curr b se"
  unfolding is_curr_def by (drule queue_frameD(10)) simp

lemma queue_frame_store:
  assumes "queue_frame a = queue_frame b"
  shows "queue_frame (store_se a se) = queue_frame (store_se b se)"
  using assms by (simp add: store_se_def is_curr_frame [OF assms] queue_frame_curr)

lemma store_se_simps:
  "tasks_timeline (store_se cfs se) = tasks_timeline cfs" "queued (store_se cfs se) = queued cfs"
  "cfs_curr (store_se cfs se) = (if is_curr cfs se then Some se else cfs_curr cfs)"
  "cfs_load (store_se cfs se) = cfs_load cfs" "cfs_nr_running (store_se cfs se) = cfs_nr_running cfs"
  "cfs_idle_nr_running (store_se cfs se) = cfs_idle_nr_running cfs" "cfs_min_vruntime (store_se cfs se) = cfs_min_vruntime cfs"
  by (simp_all add: store_se_def queued_def)

lemma is_curr_id: "se_id a = se_id b \<Longrightarrow> is_curr cfs a = is_curr cfs b"
  by (simp add: is_curr_def)

lemma store_store: "se_id a = se_id b \<Longrightarrow> store_se (store_se cfs a) b = store_se cfs b"
  by (cases "cfs_curr cfs") (simp_all add: store_se_def is_curr_def)

lemma touch_trans:
  assumes "touch cfs se cfs1 se1" "touch cfs1 se1 cfs2 se2"
  shows "touch cfs se cfs2 se2"
proof -
  have s: "sub_se se se1" "sub_se se1 se2" and f: "queue_frame cfs1 = queue_frame (store_se cfs se1)"
    "queue_frame cfs2 = queue_frame (store_se cfs1 se2)" using assms unfolding touch_def by blast+
  have i: "se_id se1 = se_id se2" "sub_se se se2" using s by (simp_all add: sub_se_def same_acct_def)
  have "queue_frame cfs2 = queue_frame (store_se cfs se2)"
    using trans [OF f(2) queue_frame_store [OF f(1)]] unfolding store_store [OF i(1)] .
  with i(2) show ?thesis unfolding touch_def by (rule conjI)
qed

lemma touch_at: "touch cfs se cfs' se' \<Longrightarrow> at cfs' se'"
  by (auto simp: touch_def at_def is_curr_def store_se_def dest!: queue_frameD(10) split: if_splits)

lemma touch_keeps:
  assumes "touch cfs se cfs' se'" "at cfs se"
  shows "tasks_timeline cfs' = tasks_timeline cfs" "queued cfs' = queued cfs" "is_curr cfs' x = is_curr cfs x"
    "synced rq cfs' = synced rq cfs" "\<not> is_curr cfs se \<Longrightarrow> cfs_curr cfs' = cfs_curr cfs"
    "curr_in w cfs' = curr_in w cfs"
proof -
  have f: "queue_frame cfs' = queue_frame (store_se cfs se')" and s: "sub_se se se'" using assms by (simp_all add: touch_def)
  have i: "is_curr cfs se' = is_curr cfs se" using s by (intro is_curr_id) (simp add: sub_se_def same_acct_def)
  show "tasks_timeline cfs' = tasks_timeline cfs" using queue_frameD(9) [OF f] by (simp add: store_se_simps)
  then show "queued cfs' = queued cfs" by (simp add: queued_def)
  have c: "cfs_curr cfs' = (if is_curr cfs se then Some se' else cfs_curr cfs)" "is_curr cfs se \<Longrightarrow> cfs_curr cfs = Some se"
    using queue_frameD(10) [OF f] assms(2) by (simp_all add: store_se_simps i at_def)
  then show "\<not> is_curr cfs se \<Longrightarrow> cfs_curr cfs' = cfs_curr cfs" by simp
  have "cfs_curr cfs' = cfs_curr cfs \<or> (cfs_curr cfs = Some se \<and> cfs_curr cfs' = Some se')" using c by auto
  then show "is_curr cfs' x = is_curr cfs x" "synced rq cfs' = synced rq cfs" "curr_in w cfs' = curr_in w cfs"
    using s by (elim disjE; simp add: is_curr_def synced_def sub_se_def same_acct_def curr_in_def)+
qed

lemma touch_ok:
  assumes "touch cfs se cfs' se'" "at cfs se" "level_ok w cfs"
  shows "level_ok w cfs'"
proof -
  have f: "queue_frame cfs' = queue_frame (store_se cfs se')" and s: "sub_se se se'" using assms by (simp_all add: touch_def)
  have "level_ok w (store_se cfs se')"
  proof (cases "is_curr cfs se")
    case True
    then have c: "cfs_curr cfs = Some se" using assms(2) by (simp add: at_def)
    then have "se_on_rq se' \<longrightarrow> in_window w (se_vruntime se')" using assms(3) s by (simp add: level_ok_def queue_ok_def sub_se_def same_acct_def)
    moreover have "is_curr cfs se'" using True s by (simp add: is_curr_def sub_se_def same_acct_def)
    ultimately show ?thesis using assms(3) s c
      by (auto simp: level_ok_def store_se_def sub_se_def same_acct_def intro!: queue_ok_curr counts_ok_curr)
  next
    case False
    then have "\<not> is_curr cfs se'" using s by (simp add: is_curr_def sub_se_def same_acct_def)
    then show ?thesis using assms(3) by (simp add: store_se_def)
  qed
  then show ?thesis using level_ok_frame(3) [OF f] by simp
qed

lemma frame_sub_se: "se_frame se' = se_frame se \<Longrightarrow> sub_se se se'"
  using se_frameD [of se' se] by (simp add: sub_se_def same_acct_def load_of_def)

lemma level_load_avg_touch:
  assumes "level_load_avg sys rq flags lv se g = (lv', se', g')"
  shows "touch (lv_cfs lv) se (lv_cfs lv') se'" "se_frame se' = se_frame se" "lv_bw lv' = lv_bw lv"
    "map_option (\<lambda>(q, tg). (cfs_frame q, tg)) g' = map_option (\<lambda>(q, tg). (cfs_frame q, tg)) g"
proof -
  obtain cfs tg s gc ch where u: "update_load_avg (fs_util_est sys) rq flags (lv_cfs lv) (lv_tg lv) se (map_option fst g) = (cfs, tg, s, gc, ch)"
    by (metis prod.exhaust)
  note fr = frame_update_load_avg [OF u]
  have r: "lv_cfs lv' = store_se cfs se'" "se' = s" "lv_bw lv' = lv_bw lv"
    "g' = (case (gc, g) of (Some q, Some (_, gtg)) \<Rightarrow> Some (q, gtg) | _ \<Rightarrow> g)"
    using assms by (auto simp: level_load_avg_def u)
  have q: "queue_frame cfs = queue_frame (lv_cfs lv)" using fr by (intro cfs_queue_frame) blast
  show "se_frame se' = se_frame se" "lv_bw lv' = lv_bw lv" using fr r by simp_all
  then show "touch (lv_cfs lv) se (lv_cfs lv') se'"
    unfolding touch_def r(1) by (intro conjI frame_sub_se queue_frame_store [OF q])
  show "map_option (\<lambda>(q, tg). (cfs_frame q, tg)) g' = map_option (\<lambda>(q, tg). (cfs_frame q, tg)) g"
    using fr r(4) by (cases gc; cases g) auto
qed

lemma level_update_runnable_touch:
  assumes "level_update_runnable lv se g = (lv', se')"
  shows "touch (lv_cfs lv) se (lv_cfs lv') se'" "lv_bw lv' = lv_bw lv"
proof -
  have "sub_se se (se_update_runnable se x)" for x
    by (simp add: se_update_runnable_def sub_se_def same_acct_def load_of_def split: option.split)
  then show "touch (lv_cfs lv) se (lv_cfs lv') se'" "lv_bw lv' = lv_bw lv"
    using assms by (auto simp: level_update_runnable_def Let_def touch_def)
qed

end
