(* ===== verification/Fair_Ops.thy ===== *)
theory Fair_Ops
  imports Fair_Inv
begin

text \<open>
  Every operation on the entities of a level returns, and keeps the invariant of the level.
\<close>

section \<open>Insertion into and removal from the timeline\<close>

definition stripped :: "(sched_entity \<Rightarrow> int) \<Rightarrow> bool" where
  "stripped f \<longleftrightarrow> (\<forall>x. f (se_strip x) = f x)"

lemma stripped_tallied [simp]: "stripped idle_one" "stripped load_of" "stripped (\<lambda>_. c)"
  by (simp_all add: stripped_def)

text \<open>The fields of a runqueue that insertion and removal do not write.\<close>

definition other_fields :: "cfs_rq \<Rightarrow> cfs_rq" where
  "other_fields cfs = cfs\<lparr>tasks_timeline := \<lparr>rb_root = E, rb_leftmost = None\<rparr>, cfs_avg_vruntime := 0, cfs_avg_load := 0\<rparr>"

lemma other_fieldsD:
  assumes "other_fields a = other_fields b"
  shows "cfs_load a = cfs_load b" "cfs_nr_running a = cfs_nr_running b" "cfs_idle_nr_running a = cfs_idle_nr_running b"
    "cfs_min_vruntime a = cfs_min_vruntime b" "cfs_curr a = cfs_curr b" "cfs_next a = cfs_next b"
  using assms by (cases a; cases b; simp add: other_fields_def)+

lemma other_fields_eqI:
  assumes "a = b\<lparr>tasks_timeline := t, cfs_avg_vruntime := v, cfs_avg_load := l\<rparr>"
  shows "other_fields a = other_fields b"
  using assms by (simp add: other_fields_def)

lemma set_strip_eq: "map se_strip xs = ys \<Longrightarrow> se_strip ` set xs = set ys"
  by (auto simp flip: set_map)

lemma insert_timeline:
  assumes "timeline_ok w cfs" "sums_ok cfs" "se_valid w se" "se_id se \<notin> se_id ` set (queued cfs)"
  shows "\<exists>cfs'. enqueue_entity0 cfs se = Some cfs' \<and> timeline_ok w cfs' \<and> sums_ok cfs' \<and> other_fields cfs' = other_fields cfs \<and>
    se_strip ` set (queued cfs') = insert (se_strip se) (se_strip ` set (queued cfs)) \<and>
    (\<forall>f. stripped f \<longrightarrow> (\<Sum>x\<leftarrow>queued cfs'. f x) = f se + (\<Sum>x\<leftarrow>queued cfs. f x))"
proof -
  from enqueue_entity0_ok [OF assms] obtain cfs' where 1: "enqueue_entity0 cfs se = Some cfs'" "timeline_ok w cfs'" "sums_ok cfs'"
      "map se_strip (queued cfs') = ins_after (se_pos w) (se_strip se) (map se_strip (queued cfs))"
      "cfs' = cfs\<lparr>tasks_timeline := tasks_timeline cfs', cfs_avg_vruntime := cfs_avg_vruntime cfs', cfs_avg_load := cfs_avg_load cfs'\<rparr>"
    by blast
  have ins: "set (ins_after p k ks) = insert k (set ks)" for p k and ks :: "sched_entity list"
  proof -
    have "set ks = set (takeWhile (\<lambda>j. p j \<le> p k) ks @ dropWhile (\<lambda>j. p j \<le> p k) ks)" by simp
    then show ?thesis by (simp only: ins_after_def set_append list.set) blast
  qed
  have "(\<Sum>x\<leftarrow>queued cfs'. f x) = f se + (\<Sum>x\<leftarrow>queued cfs. f x)" if f: "stripped f" for f
  proof -
    have s: "\<And>x. f (se_strip x) = f x" using f by (simp add: stripped_def)
    have "(\<Sum>x\<leftarrow>queued cfs'. f x) = (\<Sum>x\<leftarrow>ins_after (se_pos w) (se_strip se) (map se_strip (queued cfs)). f x)"
      using sum_strip [of f "queued cfs'", OF s] 1(4) by simp
    then show ?thesis by (simp only: sum_ins_after sum_strip [of f, OF s] s)
  qed
  then show ?thesis using 1 set_strip_eq [OF 1(4)] other_fields_eqI [OF 1(5)] by (intro exI [of _ cfs']) (simp add: ins)
qed

text \<open>The removal reads the identity, the weight and the virtual runtime of the entity.\<close>

lemma dequeue_entity0_cong:
  assumes "se_id a = se_id b" "load_of a = load_of b" "se_vruntime a = se_vruntime b"
  shows "dequeue_entity0 cfs a = dequeue_entity0 cfs b"
  using assms by (simp add: dequeue_entity0_def avg_vruntime_sub_def entity_key_def load_of_def)

lemma remove_timeline:
  assumes "timeline_ok w cfs" "sums_ok cfs" "x \<in> set (queued cfs)" "se_id se = se_id x" "load_of se = load_of x" "se_vruntime se = se_vruntime x"
  shows "\<exists>cfs'. dequeue_entity0 cfs se = Some cfs' \<and> timeline_ok w cfs' \<and> sums_ok cfs' \<and> other_fields cfs' = other_fields cfs \<and>
    se_strip ` set (queued cfs') = {y \<in> se_strip ` set (queued cfs). se_id y \<noteq> se_id x} \<and>
    (\<forall>f. stripped f \<longrightarrow> (\<Sum>x\<leftarrow>queued cfs. f x) = f x + (\<Sum>x\<leftarrow>queued cfs'. f x))"
proof -
  have "se_strip x \<in> se_strip ` set (queued cfs)" using assms(3) by blast
  from dequeue_entity0_ok [OF assms(1,2) this] obtain cfs' where 1: "dequeue_entity0 cfs x = Some cfs'" "timeline_ok w cfs'" "sums_ok cfs'"
      "map se_strip (queued cfs') = filter (\<lambda>k. se_id k \<noteq> se_id x) (map se_strip (queued cfs))"
      "cfs' = cfs\<lparr>tasks_timeline := tasks_timeline cfs', cfs_avg_vruntime := cfs_avg_vruntime cfs', cfs_avg_load := cfs_avg_load cfs'\<rparr>"
    by blast
  have e: "dequeue_entity0 cfs se = Some cfs'" using dequeue_entity0_cong [OF assms(4,5,6)] 1(1) by simp
  have d: "distinct (map se_id (map se_strip (queued cfs)))"
    using timeline.cached_okD(6) [OF assms(1) [unfolded timeline_ok_def]] by (simp add: queued_def)
  have "(\<Sum>x\<leftarrow>queued cfs. f x) = f x + (\<Sum>x\<leftarrow>queued cfs'. f x)" if f: "stripped f" for f
  proof -
    have s: "\<And>x. f (se_strip x) = f x" using f by (simp add: stripped_def)
    have "se_strip x \<in> set (map se_strip (queued cfs))" using assms(3) by simp
    from sum_remove_id [OF d this, of f] show ?thesis
      using sum_strip [of f "queued cfs'", OF s] sum_strip [of f "queued cfs", OF s] 1(4) s by simp
  qed
  then show ?thesis using 1 e set_strip_eq [OF 1(4)] other_fields_eqI [OF 1(5)] by (intro exI [of _ cfs']) auto
qed

lemma strip_ball:
  assumes "se_strip ` A \<subseteq> se_strip ` B" "\<And>x. P (se_strip x) = P x" "\<forall>x \<in> B. P x"
  shows "\<forall>x \<in> A. P x"
proof
  fix x assume "x \<in> A"
  then obtain y where "y \<in> B" "se_strip x = se_strip y" using assms(1) by (metis imageE image_eqI subsetD)
  then show "P x" using assms(2,3) by metis
qed

lemma strip_ids: "se_id ` set xs = se_id ` se_strip ` set xs"
  by (simp add: image_image)

section \<open>Accounting\<close>

lemma u32_absorb [cint_absorb]: "u32 (u32 a + b) = u32 (a + b)" "u32 (u32 a - b) = u32 (a - b)"
  by (simp_all add: u32_def mod_simps)

lemma u64_absorb_swap: "u64 (u64 a - b + c) = u64 (a - b + c)"
  unfolding u64_def by (metis mod_add_left_eq mod_diff_left_eq)

lemma account_frame:
  "queue_ok w (account_entity_enqueue cfs se) = queue_ok w cfs" "queue_ok w (account_entity_dequeue cfs se) = queue_ok w cfs"
  by (simp_all add: account_entity_enqueue_def account_entity_dequeue_def Let_def)

lemma account_fields [simp]:
  "tasks_timeline (account_entity_enqueue cfs se) = tasks_timeline cfs" "cfs_curr (account_entity_enqueue cfs se) = cfs_curr cfs"
  "tasks_timeline (account_entity_dequeue cfs se) = tasks_timeline cfs" "cfs_curr (account_entity_dequeue cfs se) = cfs_curr cfs"
  "queued (account_entity_enqueue cfs se) = queued cfs" "queued (account_entity_dequeue cfs se) = queued cfs"
  by (simp_all add: account_entity_enqueue_def account_entity_dequeue_def Let_def queued_def)

lemma account_enqueue_counts:
  assumes "counts_ok cfs"
  shows "cfs_nr_running (account_entity_enqueue cfs se) = u32 (tally (\<lambda>_. 1) cfs + 1)"
    "cfs_idle_nr_running (account_entity_enqueue cfs se) = u32 (tally idle_one cfs + idle_one se)"
    "weight (cfs_load (account_entity_enqueue cfs se)) = u64 (tally load_of cfs + load_of se)"
  using assms by (simp_all add: account_entity_enqueue_def counts_ok_def update_load_add_def load_of_def idle_one_def Let_def cint_absorb)

lemma account_dequeue_counts:
  assumes "cfs_nr_running cfs = u32 (n + 1)" "cfs_idle_nr_running cfs = u32 (i + idle_one se)" "weight (cfs_load cfs) = u64 (l + load_of se)"
  shows "cfs_nr_running (account_entity_dequeue cfs se) = u32 n"
    "cfs_idle_nr_running (account_entity_dequeue cfs se) = u32 i" "weight (cfs_load (account_entity_dequeue cfs se)) = u64 l"
  using assms by (simp_all add: account_entity_dequeue_def update_load_sub_def load_of_def idle_one_def Let_def cint_absorb)

section \<open>Weight\<close>

lemma at_live: "at cfs se \<Longrightarrow> live_se cfs se = se"
  by (auto simp: at_def live_se_def is_curr_def split: option.splits)

lemma at_store: "at cfs se \<Longrightarrow> store_se cfs se = cfs"
  by (simp add: at_def store_se_def)

lemma touch_refl: "at cfs se \<Longrightarrow> touch cfs se cfs se"
  by (simp add: touch_def sub_se_def at_store)

lemma reweighted_keeps:
  "se_id (reweight_load_avg (reweight_se se w)) = se_id se" "se_on_rq (reweight_load_avg (reweight_se se w)) = se_on_rq se"
  "se_is_idle (reweight_load_avg (reweight_se se w)) = se_is_idle se" "se_vruntime (reweight_load_avg (reweight_se se w)) = se_vruntime se"
  "se_exec_start (reweight_load_avg (reweight_se se w)) = se_exec_start se" "load_of (reweight_load_avg (reweight_se se w)) = w"
  "se_min_deadline (reweight_load_avg (reweight_se se w)) = se_min_deadline se"
  by (simp_all add: reweight_load_avg_def reweight_se_def update_load_set_def load_of_def Let_def)

lemma frame_load [simp]: "queue_frame (dequeue_load_avg cfs se) = queue_frame cfs" "queue_frame (enqueue_load_avg cfs se) = queue_frame cfs"
  by (rule cfs_queue_frame; simp)+

lemma reweight_off:
  assumes "reweight_entity sys rq lv se w = (lv', se')" "\<not> se_on_rq se" "at (lv_cfs lv) se"
  shows "touch (lv_cfs lv) se (lv_cfs lv') se'" "se_vruntime se' = se_vruntime se" "lv_bw lv' = lv_bw lv"
proof -
  define s where "s = reweight_load_avg (reweight_se se w)"
  note k = reweighted_keeps [of se w, folded s_def]
  have e: "se' = s" "lv' = lv\<lparr>lv_cfs := enqueue_load_avg (store_se (dequeue_load_avg (lv_cfs lv) se) s) s\<rparr>"
    using assms by (auto simp: reweight_entity_def Let_def at_live s_def reweighted_keeps)
  show "se_vruntime se' = se_vruntime se" "lv_bw lv' = lv_bw lv" using e k by simp_all
  have q: "queue_frame (dequeue_load_avg (lv_cfs lv) se) = queue_frame (lv_cfs lv)" by simp
  have "queue_frame (lv_cfs lv') = queue_frame (store_se (lv_cfs lv) s)" using e queue_frame_store [OF q, of s] by simp
  moreover have "sub_se se s" using assms(2) k by (simp add: sub_se_def same_acct_def)
  ultimately show "touch (lv_cfs lv) se (lv_cfs lv') se'" unfolding touch_def e(1) by (rule conjI [rotated])
qed

lemma queue_frame_load: "queue_frame (cfs\<lparr>cfs_load := l\<rparr>) = (queue_frame cfs)\<lparr>cfs_load := l\<rparr>"
  by (simp add: queue_frame_def cfs_frame_def)

lemma reweight_curr:
  assumes "reweight_entity sys rq lv se w = (lv', se')" "se_on_rq se" "cfs_curr (lv_cfs lv) = Some se" "synced rq (lv_cfs lv)"
  shows "\<exists>l. queue_frame (lv_cfs lv') = queue_frame ((lv_cfs lv)\<lparr>cfs_curr := Some se', cfs_load := l\<rparr>) \<and>
      weight l = u64 (weight (cfs_load (lv_cfs lv)) - load_of se + load_of se')"
    "se' = reweight_load_avg (reweight_se se w)"
proof -
  define s where "s = reweight_load_avg (reweight_se se w)"
  note k = reweighted_keeps [of se w, folded s_def]
  let ?cfs = "lv_cfs lv"
  define l0 where "l0 = update_load_sub (cfs_load ?cfs) (weight (se_load se))"
  define c1 where "c1 = dequeue_load_avg (?cfs\<lparr>cfs_load := l0\<rparr>) se"
  define c2 where "c2 = enqueue_load_avg (store_se c1 s) s"
  have cur: "is_curr ?cfs se" "at ?cfs se" using assms(3) by (simp_all add: is_curr_def at_def)
  have e: "se' = s" "lv_cfs lv' = c2\<lparr>cfs_load := update_load_add (cfs_load c2) (weight (se_load s))\<rparr>"
    using assms cur
    by (auto simp: reweight_entity_def Let_def update_curr_synced [OF assms(4)] at_live s_def c2_def c1_def l0_def reweighted_keeps)
  show "se' = reweight_load_avg (reweight_se se w)" using e by (simp add: s_def)
  have f1: "queue_frame c1 = queue_frame (?cfs\<lparr>cfs_load := l0\<rparr>)" by (simp add: c1_def)
  have "queue_frame c2 = queue_frame (store_se c1 s)" by (simp add: c2_def)
  also have "\<dots> = queue_frame (store_se (?cfs\<lparr>cfs_load := l0\<rparr>) s)" by (rule queue_frame_store [OF f1])
  also have "store_se (?cfs\<lparr>cfs_load := l0\<rparr>) s = ?cfs\<lparr>cfs_curr := Some s, cfs_load := l0\<rparr>"
    using assms(3) k(1) by (simp add: store_se_def is_curr_def)
  finally have f2: "queue_frame c2 = queue_frame (?cfs\<lparr>cfs_curr := Some s, cfs_load := l0\<rparr>)" .
  have l: "cfs_load c2 = l0" using queue_frameD(1) [OF f2] by simp
  let ?l = "update_load_add l0 (weight (se_load s))"
  have "queue_frame (lv_cfs lv') = queue_frame (?cfs\<lparr>cfs_curr := Some se', cfs_load := ?l\<rparr>)"
    unfolding e l queue_frame_load f2 by (simp add: queue_frame_def cfs_frame_def)
  moreover have "weight ?l = u64 (weight (cfs_load ?cfs) - load_of se + load_of se')"
    by (simp add: l0_def update_load_add_def update_load_sub_def load_of_def e cint_absorb)
  ultimately show "\<exists>l. queue_frame (lv_cfs lv') = queue_frame (?cfs\<lparr>cfs_curr := Some se', cfs_load := l\<rparr>) \<and>
      weight l = u64 (weight (cfs_load ?cfs) - load_of se + load_of se')" by blast
qed

lemma reweight_curr_ok:
  assumes "reweight_entity sys rq lv se w = (lv', se')" "se_on_rq se" "cfs_curr (lv_cfs lv) = Some se" "synced rq (lv_cfs lv)"
    "level_ok v (lv_cfs lv)"
  shows "level_ok v (lv_cfs lv')" "cfs_curr (lv_cfs lv') = Some se'" "se_vruntime se' = se_vruntime se"
proof -
  obtain l where l: "queue_frame (lv_cfs lv') = queue_frame ((lv_cfs lv)\<lparr>cfs_curr := Some se', cfs_load := l\<rparr>)"
      "weight l = u64 (weight (cfs_load (lv_cfs lv)) - load_of se + load_of se')" "se' = reweight_load_avg (reweight_se se w)"
    using reweight_curr [OF assms(1-4)] by blast
  note k = reweighted_keeps [of se w, folded l(3)]
  show "cfs_curr (lv_cfs lv') = Some se'" "se_vruntime se' = se_vruntime se" using queue_frameD(10) [OF l(1)] k by simp_all
  have "queue_ok v ((lv_cfs lv)\<lparr>cfs_curr := Some se'\<rparr>)"
    using assms(3,5) k by (intro queue_ok_curr) (auto simp: level_ok_def queue_ok_def)
  moreover have "counts_ok ((lv_cfs lv)\<lparr>cfs_curr := Some se', cfs_load := l\<rparr>)"
    using assms(2,3,5) k l(2) by (simp add: level_ok_def counts_ok_def tally_simps queued_def idle_one_def u64_absorb_swap)
  ultimately show "level_ok v (lv_cfs lv')"
    using level_ok_frame(3) [OF l(1)] by (simp add: level_ok_def)
qed

lemma update_cfs_group_off:
  assumes "update_cfs_group sys rq lv se g = (lv', se')" "\<not> se_on_rq se" "at (lv_cfs lv) se"
  shows "touch (lv_cfs lv) se (lv_cfs lv') se'" "se_vruntime se' = se_vruntime se" "lv_bw lv' = lv_bw lv"
  using assms reweight_off [of sys rq lv se _ lv' se'] touch_refl [of "lv_cfs lv" se]
  by (auto simp: update_cfs_group_def split: option.splits if_splits)

lemma update_cfs_group_curr:
  assumes "update_cfs_group sys rq lv se g = (lv', se')" "se_on_rq se" "cfs_curr (lv_cfs lv) = Some se" "synced rq (lv_cfs lv)"
    "level_ok v (lv_cfs lv)"
  shows "level_ok v (lv_cfs lv')" "cfs_curr (lv_cfs lv') = Some se'" "se_vruntime se' = se_vruntime se"
  using assms reweight_curr_ok [of sys rq lv se _ lv' se' v]
  by (auto simp: update_cfs_group_def split: option.splits if_splits)

section \<open>The members of a level\<close>

definition members :: "cfs_rq \<Rightarrow> nat set" where
  "members cfs = se_id ` set (competing cfs)"

lemma members_eq:
  "members cfs = se_id ` set (queued cfs) \<union> (case cfs_curr cfs of Some c \<Rightarrow> if se_on_rq c then {se_id c} else {} | None \<Rightarrow> {})"
  by (auto simp: members_def competing_def split: option.splits)

lemma members_frame: "queue_frame a = queue_frame b \<Longrightarrow> members a = members b"
  unfolding members_def by (drule level_ok_frame(6)) simp

lemma members_update_curr [simp]: "members (lv_cfs (update_curr sys rq lv)) = members (lv_cfs lv)"
  using update_curr_keeps(1,2) [where sys = sys and rq = rq and lv = lv]
  by (auto simp: members_eq queued_def same_acct_def elim!: option.rel_cases)

lemma members_touch:
  assumes "touch cfs se cfs' se'" "at cfs se"
  shows "members cfs' = members cfs"
proof -
  have "queue_frame cfs' = queue_frame (store_se cfs se')" and s: "sub_se se se'" using assms by (simp_all add: touch_def)
  then have "members cfs' = members (store_se cfs se')" using members_frame by blast
  also have "\<dots> = members cfs"
    using assms(2) s by (cases "is_curr cfs se'")
      (auto simp: members_eq store_se_def queued_def at_def is_curr_def sub_se_def same_acct_def)
  finally show ?thesis .
qed

lemma members_account [simp]: "members (account_entity_enqueue cfs se) = members cfs" "members (account_entity_dequeue cfs se) = members cfs"
  by (simp_all add: members_eq)

section \<open>Enqueue\<close>

lemma calc_delta_fair_keeps2 [simp]:
  "se_is_idle (snd (calc_delta_fair x s)) = se_is_idle s" "se_exec_start (snd (calc_delta_fair x s)) = se_exec_start s"
  using calc_delta_fair_se [of x s] by auto

lemma place_off:
  assumes "\<not> se_on_rq se"
  shows "sub_se se (place_entity env cfs se i)"
  using assms by (simp add: sub_se_def same_acct_def place_entity_def Let_def split_def)

lemma update_curr_live:
  assumes "at (lv_cfs lv) se"
  shows "same_acct se (live_se (lv_cfs (update_curr sys rq lv)) se)"
    "is_curr (lv_cfs (update_curr sys rq lv)) x = is_curr (lv_cfs lv) x"
    "\<not> is_curr (lv_cfs lv) se \<Longrightarrow> live_se (lv_cfs (update_curr sys rq lv)) se = se"
  using update_curr_keeps(2) [of lv sys rq] assms
  by (auto simp: live_se_def is_curr_def at_def same_acct_def elim!: option.rel_cases split: option.splits)

lemma enqueue_prepare_ok:
  assumes "level_ok w (lv_cfs lv)" "\<not> se_on_rq se" "at (lv_cfs lv) se"
    and prep: "enqueue_prepare sys rq lv se g flags = (lv', se', g')" and win: "curr_in w (lv_cfs lv')"
  shows "\<exists>cfs s. level_ok w cfs \<and> at cfs s \<and> lv_cfs lv' = account_entity_enqueue cfs se' \<and> se_id s = se_id se \<and> \<not> se_on_rq s \<and>
    se_id se' = se_id se \<and> se_on_rq se' \<and> se_is_idle se' = se_is_idle se \<and> queued cfs = queued (lv_cfs lv) \<and>
    (\<forall>x. is_curr cfs x = is_curr (lv_cfs lv) x) \<and> members cfs = members (lv_cfs lv)"
proof -
  let ?cfs = "lv_cfs lv"
  define cur where "cur = is_curr ?cfs se"
  define s1 where "s1 = (if cur then place_entity (fs_env sys) ?cfs se (ENQUEUE_INITIAL flags) else se)"
  define lv1 where "lv1 = lv\<lparr>lv_cfs := store_se ?cfs s1\<rparr>"
  define lv2 where "lv2 = update_curr sys rq lv1"
  define s2 where "s2 = live_se (lv_cfs lv2) s1"
  obtain lv3 s3 g3 where 3: "level_load_avg sys rq ATTACH_FLAGS lv2 s2 g = (lv3, s3, g3)" by (metis prod.exhaust)
  obtain lv4 s4 where 4: "level_update_runnable lv3 s3 g3 = (lv4, s4)" by fastforce
  obtain lv5 s5 where 5: "update_cfs_group sys rq lv4 s4 g3 = (lv5, s5)" by fastforce
  define s6 where "s6 = (if \<not> cur then place_entity (fs_env sys) (lv_cfs lv5) s5 (ENQUEUE_INITIAL flags) else s5)"
  have res: "lv_cfs lv' = account_entity_enqueue (lv_cfs lv5) s6"
    "se' = (if ENQUEUE_MIGRATED flags then s6\<lparr>se_exec_start := 0\<rparr> else s6)\<lparr>se_on_rq := True\<rparr>"
    using prep unfolding enqueue_prepare_def Let_def cur_def [symmetric] s1_def [symmetric] lv1_def [symmetric] lv2_def [symmetric]
      s2_def [symmetric] 3 4 5 split_def fst_conv snd_conv s6_def [symmetric] by auto
  have t1: "touch ?cfs se (lv_cfs lv1) s1" using assms(2) place_off
    by (simp add: touch_def s1_def lv1_def sub_se_def [of se se])
  note k1 = touch_keeps [OF t1 assms(3)]
  have a1: "at (lv_cfs lv1) s1" by (rule touch_at [OF t1])
  have o1: "\<not> se_on_rq s1" "se_id s1 = se_id se" "se_is_idle s1 = se_is_idle se"
    using t1 assms(2) by (simp_all add: touch_def sub_se_def same_acct_def)
  note u = update_curr_live [OF a1, of sys rq, folded lv2_def s2_def] and uk = update_curr_keeps [where lv = lv1 and sys = sys and rq = rq, folded lv2_def]
  have a2: "at (lv_cfs lv2) s2" by (simp add: s2_def)
  note t3 = level_load_avg_touch(1) [OF 3] and t4 = level_update_runnable_touch(1) [OF 4]
  have t34: "touch (lv_cfs lv2) s2 (lv_cfs lv4) s4" by (rule touch_trans [OF t3 t4])
  have off4: "\<not> se_on_rq s4" using t34 u(1) o1(1) by (simp add: touch_def sub_se_def same_acct_def)
  have t5: "touch (lv_cfs lv2) s2 (lv_cfs lv5) s5"
    by (rule touch_trans [OF t34 update_cfs_group_off(1) [OF 5 off4 touch_at [OF t34]]])
  note k5 = touch_keeps [OF t5 a2]
  have "curr_in w (lv_cfs lv5)" using win res(1) by (simp add: curr_in_def)
  then have "curr_in w (lv_cfs lv2)" using k5(6) by simp
  then have "level_ok w (lv_cfs lv2)"
    unfolding lv2_def by (intro update_curr_ok touch_ok [OF t1 assms(3,1)]) simp
  then have ok5: "level_ok w (lv_cfs lv5)" by (rule touch_ok [OF t5 a2])
  have s5: "se_id s5 = se_id se" "\<not> se_on_rq s5" "se_is_idle s5 = se_is_idle se"
    using t5 u(1) o1 by (simp_all add: touch_def sub_se_def same_acct_def)
  have "sub_se s5 s6" using place_off [OF s5(2)] by (simp add: s6_def sub_se_def [of s5 s5])
  then have s6: "se_id s6 = se_id se" "se_is_idle s6 = se_is_idle se" using s5 by (simp_all add: sub_se_def same_acct_def)
  have "account_entity_enqueue (lv_cfs lv5) s6 = account_entity_enqueue (lv_cfs lv5) se'"
    by (simp add: res(2) account_entity_enqueue_def Let_def)
  moreover have "queued (lv_cfs lv5) = queued ?cfs" using k5(2) uk(1) k1(1) by (simp add: queued_def)
  moreover have "is_curr (lv_cfs lv5) x = is_curr ?cfs x" for x using k5(3) u(2) k1(3) by simp
  moreover have "members (lv_cfs lv5) = members ?cfs"
    using members_touch [OF t5 a2] members_touch [OF t1 assms(3)] by (simp add: lv2_def)
  ultimately show ?thesis using ok5 s5 s6 touch_at [OF t5] res by (intro exI [of _ "lv_cfs lv5"] exI [of _ s5]) simp
qed

lemma level_insert:
  assumes "level_ok w cfs" "\<not> is_curr cfs se" "se_on_rq se" "se_valid w se" "se_id se \<notin> se_id ` set (queued cfs)"
  shows "\<exists>cfs'. enqueue_entity0 (account_entity_enqueue cfs se) se = Some cfs' \<and> level_ok w cfs' \<and> cfs_curr cfs' = cfs_curr cfs \<and>
    se_strip ` set (queued cfs') = insert (se_strip se) (se_strip ` set (queued cfs))"
proof -
  let ?c = "account_entity_enqueue cfs se"
  have q: "queue_ok w ?c" and c: "counts_ok cfs" using assms(1) by (simp_all add: level_ok_def account_frame)
  then have tl: "timeline_ok w ?c" "sums_ok ?c" by (simp_all add: queue_ok_def)
  have fr: "se_id se \<notin> se_id ` set (queued ?c)" using assms(5) by simp
  from insert_timeline [OF tl assms(4) fr] obtain cfs' where n: "enqueue_entity0 ?c se = Some cfs'" "timeline_ok w cfs'" "sums_ok cfs'"
      "other_fields cfs' = other_fields ?c" "se_strip ` set (queued cfs') = insert (se_strip se) (se_strip ` set (queued cfs))"
      "\<And>f. stripped f \<Longrightarrow> (\<Sum>x\<leftarrow>queued cfs'. f x) = f se + (\<Sum>x\<leftarrow>queued cfs. f x)"
    by auto
  note o = other_fieldsD [OF n(4)]
  have on: "\<forall>x \<in> set (queued cfs'). se_on_rq x"
  proof (rule strip_ball)
    show "se_strip ` set (queued cfs') \<subseteq> se_strip ` insert se (set (queued cfs))" using n(5) by simp
    show "\<forall>x \<in> insert se (set (queued cfs)). se_on_rq x" using assms(1,3) by (simp add: level_ok_def queue_ok_def)
  qed simp
  have ids: "se_id ` set (queued cfs') = insert (se_id se) (se_id ` set (queued cfs))"
    unfolding strip_ids [of "queued cfs'"] n(5) by (simp add: image_image)
  have "queue_ok w cfs'"
    using q n(2,3) on ids assms(2) o by (cases "cfs_curr cfs") (auto simp: queue_ok_def is_curr_def)
  moreover have "tally f cfs' = tally f cfs + f se" if "stripped f" for f
    using n(6) [OF that] o(5) by (simp add: tally_simps)
  then have "counts_ok cfs'"
    using account_enqueue_counts [OF c, of se] o by (simp add: counts_ok_def)
  ultimately show ?thesis using n o by (intro exI [of _ cfs']) (simp add: level_ok_def)
qed

lemma enqueue_entity_ok:
  assumes "level_ok w (lv_cfs lv)" "\<not> se_on_rq se" "at (lv_cfs lv) se" "se_id se \<notin> se_id ` set (queued (lv_cfs lv))"
    and prep: "enqueue_prepare sys rq lv se g flags = (lv1, se1, g1)" and win: "curr_in w (lv_cfs lv1)" "se_valid w se1"
  shows "\<exists>thr lv'. enqueue_entity sys rq lv se g flags = Some (thr, lv', se1, g1) \<and> level_ok w (lv_cfs lv') \<and>
    members (lv_cfs lv') = insert (se_id se) (members (lv_cfs lv)) \<and> se_on_rq se1"
proof -
  obtain cfs s where c: "level_ok w cfs" "at cfs s" "lv_cfs lv1 = account_entity_enqueue cfs se1" "se_id s = se_id se" "\<not> se_on_rq s"
      "se_id se1 = se_id se" "se_on_rq se1" "queued cfs = queued (lv_cfs lv)" "\<And>x. is_curr cfs x = is_curr (lv_cfs lv) x"
      "members cfs = members (lv_cfs lv)"
    using enqueue_prepare_ok [OF assms(1-3) prep win(1)] by blast
  have i: "is_curr cfs se1 = is_curr (lv_cfs lv) se" using c(6,9) by (simp add: is_curr_def)
  define tree where "tree = (if \<not> is_curr (lv_cfs lv) se then enqueue_entity0 (lv_cfs lv1) se1 else Some (store_se (lv_cfs lv1) se1))"
  have "\<exists>cfs'. tree = Some cfs' \<and> level_ok w cfs' \<and> members cfs' = insert (se_id se) (members cfs)"
  proof (cases "is_curr (lv_cfs lv) se")
    case False
    then have "\<not> is_curr cfs se1" "se_id se1 \<notin> se_id ` set (queued cfs)" using i c assms(4) by simp_all
    from level_insert [OF c(1) this(1) c(7) win(2) this(2)] obtain cfs' where
      n: "enqueue_entity0 (account_entity_enqueue cfs se1) se1 = Some cfs'" "level_ok w cfs'" "cfs_curr cfs' = cfs_curr cfs"
        "se_strip ` set (queued cfs') = insert (se_strip se1) (se_strip ` set (queued cfs))" by blast
    have "se_id ` set (queued cfs') = insert (se_id se) (se_id ` set (queued cfs))"
      unfolding strip_ids [of "queued cfs'"] n(4) by (simp add: image_image c(6))
    then have "members cfs' = insert (se_id se) (members cfs)" by (simp add: members_eq n(3))
    then show ?thesis using n(1,2) False by (simp add: tree_def c(3))
  next
    case True
    then have cur: "cfs_curr cfs = Some s" using c(2,4,9) by (simp add: at_def is_curr_def)
    let ?c = "store_se (lv_cfs lv1) se1"
    have e: "?c = (lv_cfs lv1)\<lparr>cfs_curr := Some se1\<rparr>" using cur c(3,4,6) by (simp add: store_se_def is_curr_def)
    have "queue_ok w ?c"
      unfolding e using c cur win(2) by (intro queue_ok_curr [of w _ s]) (simp_all add: level_ok_def account_frame se_valid_def)
    moreover have "tally f ?c = tally f cfs + f se1" for f
      unfolding e using cur c(3,5,7) by (simp add: tally_simps queued_def)
    then have "counts_ok ?c"
      using account_enqueue_counts [of cfs se1] c(1,3) by (simp add: counts_ok_def level_ok_def store_se_simps)
    moreover have "members ?c = insert (se_id se) (members cfs)"
      unfolding e using cur c(3,5,6,7) by (simp add: members_eq queued_def)
    ultimately show ?thesis using True by (simp add: tree_def level_ok_def)
  qed
  then obtain cfs' where t: "tree = Some cfs'" "level_ok w cfs'" "members cfs' = insert (se_id se) (members cfs)" by blast
  obtain thr lv' where f: "(if cfs_nr_running cfs' = 1 then first_enqueued sys rq (lv1\<lparr>lv_cfs := cfs'\<rparr>) else (False, lv1\<lparr>lv_cfs := cfs'\<rparr>)) = (thr, lv')"
    by fastforce
  have "lv' = (if cfs_nr_running cfs' = 1 then snd (first_enqueued sys rq (lv1\<lparr>lv_cfs := cfs'\<rparr>)) else lv1\<lparr>lv_cfs := cfs'\<rparr>)"
    using f by (simp split: if_splits)
  then have fr: "queue_frame (lv_cfs lv') = queue_frame cfs'" by simp
  have "enqueue_entity sys rq lv se g flags = Some (thr, lv', se1, g1)"
    using t(1) f by (simp add: enqueue_entity_def prep Let_def flip: tree_def)
  then show ?thesis using t(2,3) c(7,10) level_ok_frame(3) [OF fr, of w] members_frame [OF fr]
    by (intro exI [of _ thr] exI [of _ lv']) simp
qed

section \<open>Dequeue\<close>

lemma level_remove:
  assumes "queue_ok w cfs" "x \<in> set (queued cfs)" "se_id se = se_id x" "load_of se = load_of x" "se_vruntime se = se_vruntime x"
  shows "\<exists>cfs'. dequeue_entity0 cfs se = Some cfs' \<and> queue_ok w cfs' \<and> other_fields cfs' = other_fields cfs \<and>
    se_id ` set (queued cfs') = se_id ` set (queued cfs) - {se_id x} \<and>
    (\<forall>f. stripped f \<longrightarrow> (\<Sum>x\<leftarrow>queued cfs. f x) = f x + (\<Sum>x\<leftarrow>queued cfs'. f x))"
proof -
  have tl: "timeline_ok w cfs" "sums_ok cfs" using assms(1) by (simp_all add: queue_ok_def)
  from remove_timeline [OF tl assms(2-5)] obtain cfs' where n: "dequeue_entity0 cfs se = Some cfs'" "timeline_ok w cfs'" "sums_ok cfs'"
      "other_fields cfs' = other_fields cfs" "se_strip ` set (queued cfs') = {y \<in> se_strip ` set (queued cfs). se_id y \<noteq> se_id x}"
      "\<And>f. stripped f \<Longrightarrow> (\<Sum>x\<leftarrow>queued cfs. f x) = f x + (\<Sum>x\<leftarrow>queued cfs'. f x)"
    by auto
  note o = other_fieldsD [OF n(4)]
  have on: "\<forall>x \<in> set (queued cfs'). se_on_rq x"
    by (rule strip_ball [of _ "set (queued cfs)"]) (use n(5) assms(1) in \<open>auto simp: queue_ok_def\<close>)
  have ids: "se_id ` set (queued cfs') = se_id ` set (queued cfs) - {se_id x}"
    unfolding strip_ids [of "queued cfs'"] n(5) strip_ids [of "queued cfs"] by auto
  have "queue_ok w cfs'"
    using assms(1) n(2,3) on ids o by (cases "cfs_curr cfs") (auto simp: queue_ok_def)
  with n ids show ?thesis by blast
qed

lemma update_entity_lag_keeps:
  "se_id (update_entity_lag env cfs se) = se_id se" "load_of (update_entity_lag env cfs se) = load_of se"
  "se_vruntime (update_entity_lag env cfs se) = se_vruntime se" "se_is_idle (update_entity_lag env cfs se) = se_is_idle se"
  by (simp_all add: update_entity_lag_def Let_def split_def load_of_def)

lemma clear_buddies_simps [simp]:
  "queued (clear_buddies cfs se) = queued cfs" "cfs_curr (clear_buddies cfs se) = cfs_curr cfs"
  "level_ok w (clear_buddies cfs se) = level_ok w cfs" "members (clear_buddies cfs se) = members cfs"
  "is_curr (clear_buddies cfs se) x = is_curr cfs x"
  by (simp_all add: clear_buddies_def queued_def level_ok_def members_eq is_curr_def)

text \<open>The entity leaves the runqueue: out of the tree, or off as the current one.\<close>

lemma level_take_off:
  assumes "level_ok w cfs" "se_on_rq se" and s: "se_id s = se_id se" "load_of s = load_of se" "se_is_idle s = se_is_idle se" "\<not> se_on_rq s"
    and st: "\<not> is_curr cfs se \<Longrightarrow> se \<in> set (queued cfs) \<and> se_vruntime s = se_vruntime se" "is_curr cfs se \<Longrightarrow> cfs_curr cfs = Some se"
  shows "\<exists>cfs'. (if \<not> is_curr cfs se then dequeue_entity0 cfs s else Some cfs) = Some cfs' \<and>
    level_ok w (account_entity_dequeue (store_se cfs' s) s) \<and> members (account_entity_dequeue (store_se cfs' s) s) = members cfs - {se_id se} \<and>
    at (account_entity_dequeue (store_se cfs' s) s) s"
proof -
  have q: "queue_ok w cfs" "counts_ok cfs" using assms(1) by (simp_all add: level_ok_def)
  have i: "idle_one s = idle_one se" using s by (simp add: idle_one_def)
  have "\<exists>cfs'. (if \<not> is_curr cfs se then dequeue_entity0 cfs s else Some cfs) = Some cfs' \<and> queue_ok w (store_se cfs' s) \<and>
    (\<forall>f. stripped f \<longrightarrow> tally f cfs = tally f (store_se cfs' s) + f se) \<and> members (store_se cfs' s) = members cfs - {se_id se} \<and>
    cfs_nr_running cfs' = cfs_nr_running cfs \<and> cfs_idle_nr_running cfs' = cfs_idle_nr_running cfs \<and> cfs_load cfs' = cfs_load cfs \<and>
    is_curr cfs' s = is_curr cfs se"
  proof (cases "is_curr cfs se")
    case False
    from level_remove [OF q(1) _ s(1,2)] st(1) [OF False] obtain cfs' where n: "dequeue_entity0 cfs s = Some cfs'" "queue_ok w cfs'"
        "other_fields cfs' = other_fields cfs" "se_id ` set (queued cfs') = se_id ` set (queued cfs) - {se_id se}"
        "\<forall>f. stripped f \<longrightarrow> (\<Sum>x\<leftarrow>queued cfs. f x) = f se + (\<Sum>x\<leftarrow>queued cfs'. f x)" by blast
    note o = other_fieldsD [OF n(3)]
    have nc: "\<not> is_curr cfs' s" using False o(5) s(1) by (simp add: is_curr_def)
    have "members cfs' = members cfs - {se_id se}"
      using n(4) False o(5) by (cases "cfs_curr cfs") (auto simp: members_eq is_curr_def)
    with n o nc False show ?thesis by (intro exI [of _ cfs']) (simp add: store_se_def tally_simps)
  next
    case True
    then have c: "cfs_curr cfs = Some se" by (rule st(2))
    have e: "store_se cfs s = cfs\<lparr>cfs_curr := Some s\<rparr>" using c s(1) by (simp add: store_se_def is_curr_def)
    have "queue_ok w (store_se cfs s)" unfolding e using q(1) c s by (intro queue_ok_curr) simp_all
    moreover have "se_id se \<notin> se_id ` set (queued cfs)" using q(1) c by (simp add: queue_ok_def)
    ultimately show ?thesis using True c s assms(2)
      by (intro exI [of _ cfs]) (auto simp: e tally_simps members_eq queued_def is_curr_def)
  qed
  then obtain cfs' where c: "(if \<not> is_curr cfs se then dequeue_entity0 cfs s else Some cfs) = Some cfs'" "queue_ok w (store_se cfs' s)"
      "\<And>f. stripped f \<Longrightarrow> tally f cfs = tally f (store_se cfs' s) + f se" "members (store_se cfs' s) = members cfs - {se_id se}"
      "cfs_nr_running cfs' = cfs_nr_running cfs" "cfs_idle_nr_running cfs' = cfs_idle_nr_running cfs" "cfs_load cfs' = cfs_load cfs"
    by auto
  let ?c = "store_se cfs' s"
  have "cfs_nr_running ?c = u32 (tally (\<lambda>_. 1) ?c + 1)" "cfs_idle_nr_running ?c = u32 (tally idle_one ?c + idle_one s)"
    "weight (cfs_load ?c) = u64 (tally load_of ?c + load_of s)"
    using q(2) c(3,5-7) s(2) i by (simp_all add: counts_ok_def store_se_simps)
  from account_dequeue_counts [OF this] have "counts_ok (account_entity_dequeue ?c s)"
    by (simp add: counts_ok_def tally_simps)
  then have "level_ok w (account_entity_dequeue ?c s)" using c(2) by (simp add: level_ok_def account_frame)
  moreover have "at (account_entity_dequeue ?c s) s" by (auto simp: at_def is_curr_def store_se_def split: if_splits)
  ultimately show ?thesis using c(1,4) by (intro exI [of _ cfs']) simp
qed

lemma queue_ok_at_queued:
  assumes "queue_ok w cfs" "se \<in> set (queued cfs)"
  shows "\<not> is_curr cfs se" "at cfs se" "se_on_rq se" "se_valid w se"
proof -
  show "\<not> is_curr cfs se" using assms by (cases "cfs_curr cfs") (auto simp: queue_ok_def is_curr_def)
  then show "at cfs se" by (simp add: at_def)
  show "se_on_rq se" using assms by (simp add: queue_ok_def)
  show "se_valid w se" using assms timeline_tree_ok [of w cfs] by (simp add: queue_ok_def se_tree_ok_def queued_def)
qed

definition on_level :: "cfs_rq \<Rightarrow> sched_entity \<Rightarrow> bool" where
  "on_level cfs se \<longleftrightarrow> se_on_rq se \<and> (cfs_curr cfs = Some se \<or> se \<in> set (queued cfs))"

lemma on_level_competing: "on_level cfs se \<longleftrightarrow> se_on_rq se \<and> se \<in> set (competing cfs)"
  by (auto simp: on_level_def competing_iff)

lemma on_level_at: "queue_ok w cfs \<Longrightarrow> on_level cfs se \<Longrightarrow> at cfs se"
  using queue_ok_at_queued [of w cfs se] by (auto simp: on_level_def at_def)

text \<open>What \<open>update_curr\<close> and the update of the averages do to an entity of the level.\<close>

lemma sync_on_level:
  assumes ok: "level_ok w (lv_cfs lv)" and se: "on_level (lv_cfs lv) se" and win: "curr_in w (lv_cfs (update_curr sys rq lv))"
    and t: "touch (lv_cfs (update_curr sys rq lv)) (live_se (lv_cfs (update_curr sys rq lv)) se) cfs' se'"
  shows "level_ok w cfs'" "at cfs' se'" "members cfs' = members (lv_cfs lv)" "queued cfs' = queued (lv_cfs lv)" "synced rq cfs'"
    "is_curr cfs' se' = is_curr (lv_cfs lv) se" "same_acct se se'"
    "\<not> is_curr (lv_cfs lv) se \<Longrightarrow> se_vruntime se' = se_vruntime se"
proof -
  let ?u = "lv_cfs (update_curr sys rq lv)"
  have a: "at (lv_cfs lv) se" using ok se on_level_at by (auto simp: level_ok_def)
  note u = update_curr_live [OF a, of sys rq] and uk = update_curr_keeps [where lv = lv and sys = sys and rq = rq]
  note k = touch_keeps [OF t live_at]
  show "level_ok w cfs'" by (rule touch_ok [OF t live_at update_curr_ok [OF ok win]])
  show "at cfs' se'" by (rule touch_at [OF t])
  show "members cfs' = members (lv_cfs lv)" using members_touch [OF t live_at] by simp
  show "queued cfs' = queued (lv_cfs lv)" using k(2) uk(1) by (simp add: queued_def)
  show "synced rq cfs'" using k(4) uk(3) by simp
  have s: "sub_se (live_se ?u se) se'" using t by (simp add: touch_def)
  then have i: "se_id se' = se_id se" by (simp add: sub_se_def same_acct_def)
  show "is_curr cfs' se' = is_curr (lv_cfs lv) se" using k(3) u(2) is_curr_id [OF i] by simp
  show "same_acct se se'" using same_acct_trans [OF u(1)] s by (simp add: sub_se_def)
  show "\<not> is_curr (lv_cfs lv) se \<Longrightarrow> se_vruntime se' = se_vruntime se"
    using u(3) s se by (simp add: sub_se_def on_level_def)
qed

lemma dequeue_prepare_ok:
  assumes ok: "level_ok w (lv_cfs lv)" and se: "on_level (lv_cfs lv) se" and win: "curr_in w (lv_cfs (update_curr sys rq lv))"
    and p: "dequeue_prepare sys rq lv se g migrating = (lv', se', g')"
  shows "level_ok w (lv_cfs lv')" "members (lv_cfs lv') = members (lv_cfs lv)" "queued (lv_cfs lv') = queued (lv_cfs lv)"
    "is_curr (lv_cfs lv') se' = is_curr (lv_cfs lv) se" "se_id se' = se_id se" "load_of se' = load_of se" "se_is_idle se' = se_is_idle se"
    "\<not> is_curr (lv_cfs lv) se \<Longrightarrow> se_vruntime se' = se_vruntime se"
    "is_curr (lv_cfs lv) se \<Longrightarrow> \<exists>c. cfs_curr (lv_cfs lv') = Some c \<and> same_acct se c"
proof -
  define action where "action = \<lparr>UPDATE_TG = True, SKIP_AGE_LOAD = False, DO_ATTACH = False, DO_DETACH = se_is_task se \<and> migrating\<rparr>"
  define lv1 where "lv1 = update_curr sys rq lv"
  define s1 where "s1 = live_se (lv_cfs lv1) se"
  obtain lv3 s3 g3 where 3: "level_load_avg sys rq action lv1 s1 g = (lv3, s3, g3)" by (metis prod.exhaust)
  obtain lv4 s4 where 4: "level_update_runnable lv3 s3 g3 = (lv4, s4)" by fastforce
  have t: "touch (lv_cfs (update_curr sys rq lv)) (live_se (lv_cfs (update_curr sys rq lv)) se) (lv_cfs lv4) s4"
    using touch_trans [OF level_load_avg_touch(1) [OF 3] level_update_runnable_touch(1) [OF 4]] by (simp add: s1_def lv1_def)
  note y = sync_on_level [OF ok se win t]
  have r: "lv_cfs lv' = clear_buddies (lv_cfs lv4) s4" "se' = update_entity_lag (fs_env sys) (clear_buddies (lv_cfs lv4) s4) s4"
    using p unfolding dequeue_prepare_def Let_def action_def [symmetric] lv1_def [symmetric] s1_def [symmetric] 3 4 split_def fst_conv snd_conv
    by auto
  note k = update_entity_lag_keeps [of "fs_env sys" "clear_buddies (lv_cfs lv4) s4" s4, folded r(2)]
  have a: "same_acct se s4" "se_on_rq se" using y(7) se by (simp_all add: on_level_def)
  show "level_ok w (lv_cfs lv')" "members (lv_cfs lv') = members (lv_cfs lv)" "queued (lv_cfs lv') = queued (lv_cfs lv)"
    using y by (simp_all add: r(1))
  show "se_id se' = se_id se" "load_of se' = load_of se" "se_is_idle se' = se_is_idle se" using a k by (simp_all add: same_acct_def)
  show "is_curr (lv_cfs lv') se' = is_curr (lv_cfs lv) se" using y(6) is_curr_id [OF k(1)] by (simp add: r(1))
  show "\<not> is_curr (lv_cfs lv) se \<Longrightarrow> se_vruntime se' = se_vruntime se" using y(8) k(3) by simp
  show "is_curr (lv_cfs lv) se \<Longrightarrow> \<exists>c. cfs_curr (lv_cfs lv') = Some c \<and> same_acct se c"
    using y(2,6) a by (simp add: r(1) at_def)
qed

lemma dequeue_finish_ok:
  assumes f: "dequeue_finish sys rq lv se g flags = (lv', se', g')"
    and ok: "level_ok w (account_entity_dequeue (store_se (lv_cfs lv) (se\<lparr>se_on_rq := False\<rparr>)) (se\<lparr>se_on_rq := False\<rparr>))"
  shows "level_ok w (lv_cfs lv') \<and>
    members (lv_cfs lv') = members (account_entity_dequeue (store_se (lv_cfs lv) (se\<lparr>se_on_rq := False\<rparr>)) (se\<lparr>se_on_rq := False\<rparr>)) \<and>
    \<not> se_on_rq se' \<and> se_id se' = se_id se"
proof -
  define s where "s = se\<lparr>se_on_rq := False\<rparr>"
  define c1 where "c1 = account_entity_dequeue (store_se (lv_cfs lv) s) s"
  obtain b c2 where 2: "return_cfs_rq_runtime (fs_bw_used sys) (fs_bw_slice sys) (fs_bw_timer sys) (fs_bw_waiting sys) (lv_bw lv) c1 = (b, c2)"
    by fastforce
  obtain lv3 s3 where 3: "update_cfs_group sys rq (lv\<lparr>lv_cfs := c2, lv_bw := b\<rparr>) s g = (lv3, s3)" by fastforce
  define c4 where "c4 = (if \<not> (DEQUEUE_SAVE flags \<and> \<not> DEQUEUE_MOVE flags) then update_min_vruntime (lv_cfs lv3) else lv_cfs lv3)"
  have r: "lv_cfs lv' = (if cfs_nr_running c4 = 0 then update_idle_cfs_rq_clock_pelt c4 else c4)" "se' = s3"
    using f unfolding dequeue_finish_def Let_def s_def [symmetric] c1_def [symmetric] 2 3 split_def fst_conv snd_conv c4_def [symmetric]
    by auto
  have q2: "queue_frame c2 = queue_frame c1"
    using frame_return_cfs_rq_runtime [of "fs_bw_used sys" "fs_bw_slice sys" "fs_bw_timer sys" "fs_bw_waiting sys" "lv_bw lv" c1] unfolding 2 by simp
  have "at c1 s" by (auto simp: c1_def at_def is_curr_def store_se_def split: if_splits)
  then have a2: "at c2 s" using is_curr_frame [OF q2] queue_frameD(10) [OF q2] by (simp add: at_def)
  have t: "touch c2 s (lv_cfs lv3) s3" using update_cfs_group_off(1) [OF 3] a2 by (simp add: s_def)
  have "level_ok w c2" using ok level_ok_frame(3) [OF q2] by (simp add: c1_def s_def)
  then have "level_ok w (lv_cfs lv3)" by (rule touch_ok [OF t a2])
  then have l4: "level_ok w c4" by (simp add: c4_def level_ok_def queue_ok_min_vruntime)
  have m4: "members c4 = members c1"
    using members_touch [OF t a2] members_frame [OF q2] by (simp add: c4_def members_eq)
  have q: "queue_frame (lv_cfs lv') = queue_frame c4" by (simp add: r)
  have "sub_se s s3" using t by (simp add: touch_def)
  then show ?thesis using l4 m4 level_ok_frame(3) [OF q] members_frame [OF q] r(2) by (simp add: sub_se_def same_acct_def s_def c1_def)
qed

lemma dequeue_entity_ok:
  assumes ok: "level_ok w (lv_cfs lv)" and se: "on_level (lv_cfs lv) se" and win: "curr_in w (lv_cfs (update_curr sys rq lv))"
  shows "\<exists>lv' se' g'. dequeue_entity sys rq lv se g migrating flags = Some (lv', se', g') \<and> level_ok w (lv_cfs lv') \<and>
    members (lv_cfs lv') = members (lv_cfs lv) - {se_id se} \<and> \<not> se_on_rq se' \<and> se_id se' = se_id se"
proof -
  obtain lv1 s1 g1 where p: "dequeue_prepare sys rq lv se g migrating = (lv1, s1, g1)" by (metis prod.exhaust)
  note y = dequeue_prepare_ok [OF ok se win p]
  define s where "s = s1\<lparr>se_on_rq := False\<rparr>"
  let ?c = "lv_cfs lv1"
  have s: "se_id s = se_id se" "load_of s = load_of se" "se_is_idle s = se_is_idle se" "\<not> se_on_rq s"
    using y(5-7) by (simp_all add: s_def load_of_def)
  have on: "se_on_rq se" using se by (simp add: on_level_def)
  have dq: "dequeue_entity0 ?c s = dequeue_entity0 ?c s1" by (rule dequeue_entity0_cong) (simp_all add: s_def load_of_def)
  have "\<exists>x. se_id x = se_id se \<and> load_of x = load_of se \<and> se_is_idle x = se_is_idle se \<and> se_on_rq x \<and>
      (\<not> is_curr ?c x \<longrightarrow> x \<in> set (queued ?c) \<and> se_vruntime s = se_vruntime x) \<and> (is_curr ?c x \<longrightarrow> cfs_curr ?c = Some x)"
  proof (cases "is_curr (lv_cfs lv) se")
    case True
    then obtain c where "cfs_curr ?c = Some c" "same_acct se c" using y(9) by blast
    then show ?thesis using on by (intro exI [of _ c]) (simp add: same_acct_def is_curr_def)
  next
    case False
    then have "\<not> is_curr ?c se" using y(4) is_curr_id [OF y(5), of ?c] by simp
    then show ?thesis using False se y(3,8) on by (intro exI [of _ se]) (auto simp: on_level_def is_curr_def s_def)
  qed
  then obtain x where x: "se_id x = se_id se" "load_of x = load_of se" "se_is_idle x = se_is_idle se" "se_on_rq x"
      "\<not> is_curr ?c x \<Longrightarrow> x \<in> set (queued ?c) \<and> se_vruntime s = se_vruntime x" "is_curr ?c x \<Longrightarrow> cfs_curr ?c = Some x" by blast
  have ic: "is_curr ?c s1 = is_curr ?c x" using x(1) y(5) by (simp add: is_curr_def)
  obtain cfs' where c: "(if \<not> is_curr ?c x then dequeue_entity0 ?c s else Some ?c) = Some cfs'"
      "level_ok w (account_entity_dequeue (store_se cfs' s) s)" "members (account_entity_dequeue (store_se cfs' s) s) = members ?c - {se_id x}"
    using level_take_off [OF y(1) x(4), of s] s x by auto
  obtain lv' se' g' where f: "dequeue_finish sys rq (lv1\<lparr>lv_cfs := cfs'\<rparr>) s1 g1 flags = (lv', se', g')" by (metis prod.exhaust)
  have "dequeue_entity sys rq lv se g migrating flags = Some (lv', se', g')"
    using c(1) [unfolded dq] f by (cases "is_curr ?c x") (auto simp: dequeue_entity_def p Let_def ic)
  with dequeue_finish_ok [OF f, of w] c(2,3) y(2,5) x(1) show ?thesis by (simp add: s_def)
qed

section \<open>The current entity\<close>

lemma set_next_entity_ok:
  assumes ok: "level_ok w (lv_cfs lv)" and se: "se \<in> set (queued (lv_cfs lv))" "cfs_curr (lv_cfs lv) = None"
  shows "\<exists>lv' se' g'. set_next_entity sys rq lv se g = Some (lv', se', g') \<and> level_ok w (lv_cfs lv') \<and>
    members (lv_cfs lv') = members (lv_cfs lv) \<and> cfs_curr (lv_cfs lv') = Some se' \<and> same_acct se se' \<and> se_vruntime se' = se_vruntime se \<and>
    se_deadline se' = se_deadline se \<and> u64 (se_vlag se') = u64 (se_deadline se)"
proof -
  let ?c = "clear_buddies (lv_cfs lv) se"
  have q: "queue_ok w ?c" "counts_ok ?c" "se \<in> set (queued ?c)" using ok se clear_buddies_simps(3) [of w "lv_cfs lv" se] by (auto simp: level_ok_def)
  note sq = queue_ok_at_queued [OF q(1,3)]
  from level_remove [OF q(1,3), of se] obtain c1 where 1: "dequeue_entity0 ?c se = Some c1" "queue_ok w c1" "other_fields c1 = other_fields ?c"
      "se_id ` set (queued c1) = se_id ` set (queued ?c) - {se_id se}"
      "\<And>f. stripped f \<Longrightarrow> (\<Sum>x\<leftarrow>queued ?c. f x) = f se + (\<Sum>x\<leftarrow>queued c1. f x)" by blast
  note o = other_fieldsD [OF 1(3)]
  obtain lv2 s2 g2 where 2: "level_load_avg sys rq TG_FLAGS (lv\<lparr>lv_cfs := c1\<rparr>) se g = (lv2, s2, g2)" by (metis prod.exhaust)
  have nc: "cfs_curr c1 = None" using o(5) se(2) by simp
  have t: "touch c1 se (lv_cfs lv2) s2" using level_load_avg_touch(1) [OF 2] by simp
  then have q2: "queue_frame (lv_cfs lv2) = queue_frame c1" and s2: "sub_se se s2"
    using nc by (simp_all add: touch_def store_se_def is_curr_def)
  define s where "s = start_curr rq (s2\<lparr>se_vlag := s64 (se_deadline s2)\<rparr>)"
  define lv' where "lv' = lv2\<lparr>lv_cfs := (lv_cfs lv2)\<lparr>cfs_curr := Some s\<rparr>\<rparr>"
  have r: "set_next_entity sys rq lv se g = Some (lv', s, g2)"
    using sq(3) by (simp add: set_next_entity_def Let_def 1(1) 2 s_def lv'_def)
  have sa: "same_acct se s" "se_vruntime s = se_vruntime se" "se_deadline s = se_deadline se" "u64 (se_vlag s) = u64 (se_deadline se)"
    using s2 sq(3) by (simp_all add: sub_se_def same_acct_def s_def start_curr_def load_of_def cint_absorb)
  have q': "queue_frame (lv_cfs lv') = queue_frame (c1\<lparr>cfs_curr := Some s\<rparr>)" by (simp add: lv'_def queue_frame_curr q2)
  have v: "in_window w (se_vruntime s)" using sq(4) sa(2) by (simp add: se_valid_def)
  have "queue_ok w (c1\<lparr>cfs_curr := Some s\<rparr>)"
    using 1(2,4) v sa(1) by (simp add: queue_ok_def timeline_ok_def sums_ok_def queued_def same_acct_def)
  moreover have "tally f (c1\<lparr>cfs_curr := Some s\<rparr>) = tally f ?c" if "stripped f" "f s = f se" for f
    using 1(5) [OF that(1)] that(2) sa(1) sq(3) se(2) by (simp add: tally_simps queued_def same_acct_def)
  then have "counts_ok (c1\<lparr>cfs_curr := Some s\<rparr>)"
    using q(2) o sa(1) sq(3) by (simp add: counts_ok_def same_acct_def idle_one_def)
  ultimately have "level_ok w (lv_cfs lv')" using level_ok_frame(3) [OF q'] by (simp add: level_ok_def)
  moreover have "members (lv_cfs lv') = members (lv_cfs lv)"
  proof -
    have "members (c1\<lparr>cfs_curr := Some s\<rparr>) = insert (se_id se) (se_id ` set (queued c1))"
      using sa(1) sq(3) by (simp add: members_eq queued_def same_acct_def)
    also have "\<dots> = se_id ` set (queued (lv_cfs lv))" unfolding 1(4) using se(1) by auto
    finally show ?thesis using members_frame [OF q'] se(2) by (simp add: members_eq)
  qed
  ultimately show ?thesis using r sa by (intro exI [of _ lv'] exI [of _ s] exI [of _ g2]) (simp add: lv'_def)
qed

section \<open>Changes in the tree\<close>

lemma node_swap:
  assumes old: "map se_strip (queued cfs) = as @ se_strip x # bs" and new: "map se_strip (rb_inorder (rb_root tree)) = as @ se_strip y # bs"
    and xy: "se_id y = se_id x" "se_on_rq y" and on: "\<forall>x \<in> set (queued cfs). se_on_rq x"
  shows "se_id ` set (queued (cfs\<lparr>tasks_timeline := tree\<rparr>)) = se_id ` set (queued cfs)"
    "\<forall>x \<in> set (queued (cfs\<lparr>tasks_timeline := tree\<rparr>)). se_on_rq x"
    "stripped f \<Longrightarrow> (\<Sum>x\<leftarrow>queued (cfs\<lparr>tasks_timeline := tree\<rparr>). f x) = (\<Sum>x\<leftarrow>queued cfs. f x) - f x + f y"
proof -
  let ?q = "queued (cfs\<lparr>tasks_timeline := tree\<rparr>)"
  have q: "map se_strip ?q = as @ se_strip y # bs" using new by (simp add: queued_def)
  show "se_id ` set ?q = se_id ` set (queued cfs)"
    unfolding strip_ids [of ?q] strip_ids [of "queued cfs"] set_strip_eq [OF q] set_strip_eq [OF old] by (simp add: xy)
  show "\<forall>x \<in> set ?q. se_on_rq x"
  proof (rule strip_ball)
    have "set as \<union> set bs \<subseteq> se_strip ` set (queued cfs)" using set_strip_eq [OF old] by auto
    then show "se_strip ` set ?q \<subseteq> se_strip ` insert y (set (queued cfs))" using set_strip_eq [OF q] by auto
    show "\<forall>x \<in> insert y (set (queued cfs)). se_on_rq x" using on xy by simp
  qed simp
  assume "stripped f"
  then have s: "\<And>x. f (se_strip x) = f x" by (simp add: stripped_def)
  show "(\<Sum>x\<leftarrow>?q. f x) = (\<Sum>x\<leftarrow>queued cfs. f x) - f x + f y"
    using sum_strip [of f ?q, OF s] sum_strip [of f "queued cfs", OF s] unfolding q old by (simp add: s)
qed

lemma queued_unique:
  assumes "timeline_ok w cfs" "x \<in> set (queued cfs)" "y \<in> set (queued cfs)" "se_id x = se_id y"
  shows "x = y"
proof -
  have "distinct (map se_id (queued cfs))"
    using timeline.cached_okD(6) [OF assms(1) [unfolded timeline_ok_def]] by (simp add: queued_def comp_def)
  then show ?thesis using assms(2-4) by (auto simp: distinct_map inj_on_def)
qed

lemma queued_tkeys: "x \<in> set (queued cfs) \<Longrightarrow> se_id x \<in> set (map se_id (map se_strip (rb_inorder (rb_root (tasks_timeline cfs)))))"
  by (auto simp: queued_def)

lemma store_node_ok:
  assumes ok: "level_ok w cfs" and x: "x \<in> set (queued cfs)" and s: "sub_se x se"
  shows "level_ok w (store_node cfs se)" "members (store_node cfs se) = members cfs"
proof -
  have q: "queue_ok w cfs" and c: "counts_ok cfs" using ok by (simp_all add: level_ok_def)
  have tl: "timeline_ok w cfs" and on: "\<forall>x \<in> set (queued cfs). se_on_rq x" using q by (simp_all add: queue_ok_def)
  note v = queue_ok_at_queued [OF q x]
  have se: "se_id se = se_id x" "se_on_rq se" "load_of se = load_of x" "se_is_idle se = se_is_idle x" "se_vruntime se = se_vruntime x"
    "se_deadline se = se_deadline x" using s v(3) by (simp_all add: sub_se_def same_acct_def)
  let ?f = "\<lambda>y. se\<lparr>se_min_deadline := se_min_deadline y\<rparr>"
  let ?tl = "rb_write_node se_id (se_id se) ?f (tasks_timeline cfs)"
  have "\<exists>as y bs. y \<in> set (queued cfs) \<and> map se_strip (queued cfs) = as @ se_strip y # bs \<and> se_id y = se_id se \<and>
      timeline_ok w (cfs\<lparr>tasks_timeline := ?tl\<rparr>) \<and> map se_strip (rb_inorder (rb_root ?tl)) = as @ se_strip (?f y) # bs"
  proof -
    have "se_id (se_strip (?f y)) = se_id se \<and> se_pos w (se_strip (?f y)) = se_pos w (se_strip y) \<and> se_valid w (se_strip (?f y)) \<and>
        se_min_deadline (?f y) = se_min_deadline y \<and> (\<forall>u v. min_deadline_calc (se_strip (?f y)) u v = min_deadline_calc (se_strip y) u v)"
      if "y \<in> set (rb_inorder (rb_root (tasks_timeline cfs)))" "se_id (se_strip y) = se_id se" for y
    proof -
      have "y = x" using queued_unique [OF tl _ x, of y] that se(1) by (simp add: queued_def)
      then show ?thesis using se v(4) by (simp add: se_pos_def se_valid_def min_deadline_calc_def)
    qed
    from timeline.write_cached [OF tl [unfolded timeline_ok_def] queued_tkeys [OF x, folded se(1)] this]
    show ?thesis by (simp add: queued_def timeline_ok_def)
  qed
  then obtain as y bs where y: "y \<in> set (queued cfs)" "map se_strip (queued cfs) = as @ se_strip y # bs" "se_id y = se_id se"
      "timeline_ok w (cfs\<lparr>tasks_timeline := ?tl\<rparr>)" "map se_strip (rb_inorder (rb_root ?tl)) = as @ se_strip (?f y) # bs" by blast
  have yx: "y = x" using queued_unique [OF tl y(1) x] y(3) se(1) by simp
  have n: "map se_strip (rb_inorder (rb_root ?tl)) = as @ se_strip se # bs" using y(5) by simp
  note sw = node_swap [OF y(2) n y(3) [symmetric] se(2) on, unfolded yx]
  let ?c = "cfs\<lparr>tasks_timeline := ?tl\<rparr>"
  have same: "(\<Sum>x\<leftarrow>queued ?c. f x) = (\<Sum>x\<leftarrow>queued cfs. f x)" if "stripped f" "f se = f x" for f
    using sw(3) [OF that(1)] that(2) by simp
  have w: "se_w se = se_w x" using se(3) by (simp add: se_w_def load_of_def)
  have "vsum m (queued ?c) = vsum m (queued cfs)" "lsum (queued ?c) = lsum (queued cfs)" for m
    unfolding vsum_def lsum_def by (rule same; simp add: stripped_def w se(5))+
  then have "queue_ok w ?c" using q y(4) sw(1,2) by (simp add: queue_ok_def sums_ok_def)
  moreover have "tally f ?c = tally f cfs" if "stripped f" "f se = f x" for f using same [OF that] by (simp add: tally_simps)
  then have "counts_ok ?c" using c se by (simp add: counts_ok_def idle_one_def)
  ultimately show "level_ok w (store_node cfs se)" "members (store_node cfs se) = members cfs"
    using sw(1) by (simp_all add: level_ok_def store_node_def members_eq)
qed

end
