(* ===== verification/Fair_Switch.thy ===== *)
theory Fair_Switch
  imports Fair_Ops
begin

text \<open>
  Switching the current entity out, the tick, and the change of the weight of an entity of the tree keep the invariant of
  the level.
\<close>

section \<open>Switching out and the tick\<close>

lemma level_ok_drop_curr:
  assumes "level_ok w cfs" "cfs_curr cfs = Some c" "\<not> se_on_rq c"
  shows "level_ok w (cfs\<lparr>cfs_curr := None\<rparr>)" "members (cfs\<lparr>cfs_curr := None\<rparr>) = members cfs"
  using assms by (simp_all add: level_ok_def queue_ok_def counts_ok_def timeline_ok_def sums_ok_def queued_def tally_simps members_eq)

text \<open>The current entity goes back into the tree; its count stays as it is.\<close>

lemma level_put_back:
  assumes ok: "level_ok w cfs" and c: "cfs_curr cfs = Some se" "se_on_rq se" "se_valid w se"
  shows "\<exists>cfs'. enqueue_entity0 cfs se = Some cfs' \<and> level_ok w (cfs'\<lparr>cfs_curr := None\<rparr>) \<and> members (cfs'\<lparr>cfs_curr := None\<rparr>) = members cfs \<and>
    cfs_curr cfs' = Some se \<and> se_strip se \<in> se_strip ` set (queued cfs')"
proof -
  have q: "timeline_ok w cfs" "sums_ok cfs" "se_id se \<notin> se_id ` set (queued cfs)" using ok c by (simp_all add: level_ok_def queue_ok_def)
  from insert_timeline [OF q(1,2) c(3) q(3)] obtain cfs' where n: "enqueue_entity0 cfs se = Some cfs'" "timeline_ok w cfs'" "sums_ok cfs'"
      "other_fields cfs' = other_fields cfs" "se_strip ` set (queued cfs') = insert (se_strip se) (se_strip ` set (queued cfs))"
      "\<And>f. stripped f \<Longrightarrow> (\<Sum>x\<leftarrow>queued cfs'. f x) = f se + (\<Sum>x\<leftarrow>queued cfs. f x)" by auto
  note o = other_fieldsD [OF n(4)]
  have on: "\<forall>x \<in> set (queued cfs'). se_on_rq x"
  proof (rule strip_ball)
    show "se_strip ` set (queued cfs') \<subseteq> se_strip ` insert se (set (queued cfs))" using n(5) by simp
    show "\<forall>x \<in> insert se (set (queued cfs)). se_on_rq x" using ok c by (simp add: level_ok_def queue_ok_def)
  qed simp
  have ids: "se_id ` set (queued cfs') = insert (se_id se) (se_id ` set (queued cfs))"
    unfolding strip_ids [of "queued cfs'"] n(5) by (simp add: image_image)
  let ?c = "cfs'\<lparr>cfs_curr := None\<rparr>"
  have "queue_ok w ?c"
    using ok n(2,3) on o(4) by (simp add: level_ok_def queue_ok_def timeline_ok_def sums_ok_def queued_def)
  moreover have "tally f ?c = tally f cfs" if "stripped f" for f using n(6) [OF that] c by (simp add: tally_simps queued_def)
  then have "counts_ok ?c" using ok o by (simp add: level_ok_def counts_ok_def)
  moreover have "members ?c = members cfs" using ids c by (simp add: members_eq queued_def)
  ultimately show ?thesis using n(1,5) o(5) c(1) by (intro exI [of _ cfs']) (simp add: level_ok_def)
qed

lemma strip_sub_se: "se_strip x = se_strip y \<Longrightarrow> sub_se x y"
  by (cases x; cases y) (simp add: se_strip_def sub_se_def same_acct_def load_of_def)

lemma store_node_curr: "store_node (cfs\<lparr>cfs_curr := c\<rparr>) se = (store_node cfs se)\<lparr>cfs_curr := c\<rparr>"
  by (simp add: store_node_def)

lemma queue_frame_node:
  assumes "queue_frame a = queue_frame b"
  shows "queue_frame (store_node a se) = queue_frame (store_node b se)"
proof -
  have "queue_frame (c\<lparr>tasks_timeline := t\<rparr>) = (queue_frame c)\<lparr>tasks_timeline := t\<rparr>" for c t
    by (simp add: queue_frame_def cfs_frame_def)
  then show ?thesis using assms queue_frameD(9) [OF assms] by (simp add: store_node_def)
qed

lemma put_prev_tail:
  assumes ok: "level_ok w cfs" and c: "cfs_curr cfs = Some se" "se_on_rq se" "se_valid w se"
    and e: "enqueue_entity0 cfs se = Some cfs1" and l: "level_load_avg sys rq NO_FLAGS (lv\<lparr>lv_cfs := cfs1\<rparr>) se g = (lv2, se2, g2)"
  shows "level_ok w ((store_node (lv_cfs lv2) se2)\<lparr>cfs_curr := None\<rparr>)"
    "members ((store_node (lv_cfs lv2) se2)\<lparr>cfs_curr := None\<rparr>) = members cfs" "se_id se2 = se_id se"
proof -
  have 1: "level_ok w (cfs1\<lparr>cfs_curr := None\<rparr>)" "members (cfs1\<lparr>cfs_curr := None\<rparr>) = members cfs" "cfs_curr cfs1 = Some se"
      "se_strip se \<in> se_strip ` set (queued cfs1)" using level_put_back [OF ok c] e by auto
  then obtain x where x: "x \<in> set (queued (cfs1\<lparr>cfs_curr := None\<rparr>))" "se_strip x = se_strip se" by (auto simp: queued_def)
  have t: "touch cfs1 se (lv_cfs lv2) se2" using level_load_avg_touch(1) [OF l] by simp
  then have s: "sub_se se se2" and f: "queue_frame (lv_cfs lv2) = queue_frame (store_se cfs1 se2)" by (simp_all add: touch_def)
  show "se_id se2 = se_id se" using s by (simp add: sub_se_def same_acct_def)
  have "sub_se x se" by (rule strip_sub_se [OF x(2)])
  then have xs: "sub_se x se2" using s c(2) by (auto simp: sub_se_def same_acct_def)
  have "queue_frame ((store_node (lv_cfs lv2) se2)\<lparr>cfs_curr := None\<rparr>) = queue_frame (store_node (cfs1\<lparr>cfs_curr := None\<rparr>) se2)"
  proof -
    have "queue_frame ((lv_cfs lv2)\<lparr>cfs_curr := None\<rparr>) = queue_frame (cfs1\<lparr>cfs_curr := None\<rparr>)"
      unfolding queue_frame_curr f by (simp add: store_se_def queue_frame_curr)
    from queue_frame_node [OF this, of se2] show ?thesis by (simp add: store_node_curr)
  qed
  note q = this
  show "level_ok w ((store_node (lv_cfs lv2) se2)\<lparr>cfs_curr := None\<rparr>)"
    using level_ok_frame(3) [OF q] store_node_ok(1) [OF 1(1) x(1) xs] by simp
  show "members ((store_node (lv_cfs lv2) se2)\<lparr>cfs_curr := None\<rparr>) = members cfs"
    using members_frame [OF q] store_node_ok(2) [OF 1(1) x(1) xs] 1(2) by simp
qed

lemma put_prev_entity_ok:
  assumes ok: "level_ok w (lv_cfs lv)" and c: "cfs_curr (lv_cfs lv) = Some prev"
    and win: "se_on_rq prev \<Longrightarrow> pred_option (se_valid w) (cfs_curr (lv_cfs (update_curr sys rq lv)))"
  shows "\<exists>thr lv' se' g'. put_prev_entity sys rq lv prev g = Some (thr, lv', se', g') \<and> level_ok w (lv_cfs lv') \<and>
    members (lv_cfs lv') = members (lv_cfs lv) \<and> cfs_curr (lv_cfs lv') = None \<and> se_id se' = se_id prev"
proof -
  define lv1 where "lv1 = (if se_on_rq prev then update_curr sys rq lv else lv)"
  obtain r thr b cfs where k: "check_cfs_rq_runtime (fs_bw_used sys) rq (lv_bw lv1) (lv_cfs lv1) = (r, thr, b, cfs)" by (metis prod.exhaust)
  have a: "at (lv_cfs lv) prev" using c by (simp add: at_def)
  have ok1: "level_ok w (lv_cfs lv1)"
  proof (cases "se_on_rq prev")
    case True
    then have "curr_in w (lv_cfs (update_curr sys rq lv))"
      using win by (cases "cfs_curr (lv_cfs (update_curr sys rq lv))") (auto simp: curr_in_def se_valid_def)
    then show ?thesis using True ok by (simp add: lv1_def update_curr_ok)
  qed (use ok in \<open>simp add: lv1_def\<close>)
  have q: "queue_frame cfs = queue_frame (lv_cfs lv1)"
    using frame_check_cfs_rq_runtime [of "fs_bw_used sys" rq "lv_bw lv1" "lv_cfs lv1"] unfolding k by simp
  obtain p where p: "cfs_curr (lv_cfs lv1) = Some p" "same_acct prev p"
    using update_curr_keeps(2) [where lv = lv and sys = sys and rq = rq] c
    by (cases "se_on_rq prev") (auto simp: lv1_def option_rel_Some1)
  have okc: "level_ok w cfs" "cfs_curr cfs = Some p" "members cfs = members (lv_cfs lv)"
    using ok1 p(1) level_ok_frame(3) [OF q] queue_frameD(10) [OF q] members_frame [OF q] by (simp_all add: lv1_def split: if_splits)
  have live: "live_se cfs prev = p" using okc(2) p(2) by (simp add: live_se_def same_acct_def)
  have eq: "put_prev_entity sys rq lv prev g = map_option (\<lambda>cfs.
      case (if se_on_rq p then
              case level_load_avg sys rq NO_FLAGS (lv1\<lparr>lv_bw := b, lv_cfs := cfs\<rparr>) p g of
                (lv, prev, g) \<Rightarrow> (lv\<lparr>lv_cfs := store_node (lv_cfs lv) prev\<rparr>, prev, g)
            else (lv1\<lparr>lv_bw := b, lv_cfs := cfs\<rparr>, p, g)) of
        (lv, prev, g) \<Rightarrow> (thr, lv\<lparr>lv_cfs := (lv_cfs lv)\<lparr>cfs_curr := None\<rparr>\<rparr>, prev, g))
      (if se_on_rq p then enqueue_entity0 cfs p else Some cfs)"
    by (simp only: put_prev_entity_def Let_def lv1_def [symmetric] k live prod.case)
  show ?thesis
  proof (cases "se_on_rq prev")
    case False
    then have "\<not> se_on_rq p" using p(2) by (simp add: same_acct_def)
    with level_ok_drop_curr [OF okc(1,2)] show ?thesis using okc(3) p(2) by (simp add: eq same_acct_def)
  next
    case True
    then have pv: "se_on_rq p" "se_valid w p" using p win [OF True] by (simp_all add: same_acct_def lv1_def)
    obtain cfs1 where e: "enqueue_entity0 cfs p = Some cfs1" using level_put_back [OF okc(1,2) pv] by blast
    obtain lv2 p2 g2 where l: "level_load_avg sys rq NO_FLAGS (lv1\<lparr>lv_bw := b, lv_cfs := cfs1\<rparr>) p g = (lv2, p2, g2)" by (metis prod.exhaust)
    have "level_load_avg sys rq NO_FLAGS ((lv1\<lparr>lv_bw := b\<rparr>)\<lparr>lv_cfs := cfs1\<rparr>) p g = (lv2, p2, g2)" using l by simp
    note t = put_prev_tail [OF okc(1,2) pv e this]
    show ?thesis using t okc(3) p(2) pv(1) by (simp add: eq e l same_acct_def)
  qed
qed

lemma entity_tick_ok:
  assumes ok: "level_ok w (lv_cfs lv)" and c: "cfs_curr (lv_cfs lv) = Some cur" "se_on_rq cur"
    and win: "curr_in w (lv_cfs (update_curr sys rq lv))" and t: "entity_tick sys rq lv cur g hr = (lv', cur', g')"
  shows "level_ok w (lv_cfs lv') \<and> cfs_curr (lv_cfs lv') = Some cur'"
proof -
  define lv1 where "lv1 = update_curr sys rq lv"
  define c1 where "c1 = live_se (lv_cfs lv1) cur"
  obtain lv2 c2 g2 where 2: "level_load_avg sys rq TG_FLAGS lv1 c1 g = (lv2, c2, g2)" by (metis prod.exhaust)
  obtain lv3 c3 where 3: "update_cfs_group sys rq lv2 c2 g2 = (lv3, c3)" by fastforce
  have r: "lv_cfs lv' = lv_cfs lv3" "cur' = c3"
    using t by (auto simp: entity_tick_def Let_def lv1_def [symmetric] c1_def [symmetric] 2 3 split: if_splits)
  have ol: "on_level (lv_cfs lv) cur" using c by (simp add: on_level_def)
  have "touch (lv_cfs (update_curr sys rq lv)) (live_se (lv_cfs (update_curr sys rq lv)) cur) (lv_cfs lv2) c2"
    using level_load_avg_touch(1) [OF 2] by (simp add: c1_def lv1_def)
  note y = sync_on_level [OF ok ol win this]
  have "cfs_curr (lv_cfs lv2) = Some c2" "se_on_rq c2" using y(2,6,7) c by (simp_all add: at_def is_curr_def same_acct_def)
  from update_cfs_group_curr [OF 3 this(2,1) y(5,1)] show ?thesis by (simp add: r)
qed

section \<open>The weight of an entity of the tree\<close>

lemma avg_vruntime_simps:
  "avg_vruntime_sub cfs se = cfs\<lparr>cfs_avg_vruntime := s64 (cfs_avg_vruntime cfs - entity_key cfs se * se_w se),
     cfs_avg_load := u64 (cfs_avg_load cfs - se_w se)\<rparr>"
  "avg_vruntime_add cfs se = cfs\<lparr>cfs_avg_vruntime := s64 (cfs_avg_vruntime cfs + entity_key cfs se * se_w se),
     cfs_avg_load := u64 (cfs_avg_load cfs + se_w se)\<rparr>"
  by (simp_all add: avg_vruntime_sub_def avg_vruntime_add_def se_w_def Let_def)

lemma reweight_queued_eq:
  assumes r: "reweight_entity sys rq lv se wt = (lv', se')" and se: "se_on_rq se" "\<not> is_curr (lv_cfs lv) se"
  shows "se' = reweight_load_avg (reweight_se se wt)"
    "queue_frame (lv_cfs lv') = queue_frame ((lv_cfs lv)\<lparr>
       tasks_timeline := rb_update_node min_deadline_cb se_id (se_id se) (\<lambda>x. se'\<lparr>se_min_deadline := se_min_deadline x\<rparr>) (tasks_timeline (lv_cfs lv)),
       cfs_load := update_load_add (update_load_sub (cfs_load (lv_cfs lv)) (load_of se)) (load_of se'),
       cfs_avg_vruntime := s64 (s64 (cfs_avg_vruntime (lv_cfs lv) - entity_key (lv_cfs lv) se * se_w se) + entity_key (lv_cfs lv) se' * se_w se'),
       cfs_avg_load := u64 (u64 (cfs_avg_load (lv_cfs lv) - se_w se) + se_w se')\<rparr>)"
proof -
  define s where "s = reweight_load_avg (reweight_se se wt)"
  note k = reweighted_keeps [of se wt, folded s_def]
  let ?cfs = "lv_cfs lv"
  have live: "live_se (avg_vruntime_sub ?cfs se) se = se"
    using se(2) by (auto simp: live_se_def is_curr_def avg_vruntime_simps split: option.splits)
  show s: "se' = reweight_load_avg (reweight_se se wt)"
    using r se by (auto simp: reweight_entity_def Let_def live)
  define f where "f = (\<lambda>x :: sched_entity. s\<lparr>se_min_deadline := se_min_deadline x\<rparr>)"
  define c1 where "c1 = avg_vruntime_sub ?cfs se"
  define c2 where "c2 = dequeue_load_avg (c1\<lparr>cfs_load := update_load_sub (cfs_load c1) (load_of se)\<rparr>) se"
  define c3 where "c3 = enqueue_load_avg (c2\<lparr>tasks_timeline := rb_update_node min_deadline_cb se_id (se_id se) f (tasks_timeline c2)\<rparr>) s"
  have e: "lv_cfs lv' = avg_vruntime_add (c3\<lparr>cfs_load := update_load_add (cfs_load c3) (load_of s)\<rparr>) s"
    using r se reweighted_keeps(2) [of se wt]
    by (auto simp: reweight_entity_def Let_def live load_of_def s_def f_def c1_def c2_def c3_def)
  show "queue_frame (lv_cfs lv') = queue_frame (?cfs\<lparr>
       tasks_timeline := rb_update_node min_deadline_cb se_id (se_id se) (\<lambda>x. se'\<lparr>se_min_deadline := se_min_deadline x\<rparr>) (tasks_timeline ?cfs),
       cfs_load := update_load_add (update_load_sub (cfs_load ?cfs) (load_of se)) (load_of se'),
       cfs_avg_vruntime := s64 (s64 (cfs_avg_vruntime ?cfs - entity_key ?cfs se * se_w se) + entity_key ?cfs se' * se_w se'),
       cfs_avg_load := u64 (u64 (cfs_avg_load ?cfs - se_w se) + se_w se')\<rparr>)"
    unfolding e s s_def [symmetric] f_def [symmetric] avg_vruntime_simps c3_def c2_def c1_def enqueue_load_avg_def dequeue_load_avg_def Let_def
    by (simp add: queue_frame_def cfs_frame_def entity_key_def)
qed

lemma reweight_tree:
  assumes q: "queue_ok w cfs" and se: "se \<in> set (queued cfs)" and v: "se_valid w se'"
    and k: "se_id se' = se_id se" "se_vruntime se' = se_vruntime se"
  shows "\<exists>as bs. map se_strip (queued cfs) = as @ se_strip se # bs \<and>
    (let tree = rb_update_node min_deadline_cb se_id (se_id se) (\<lambda>x. se'\<lparr>se_min_deadline := se_min_deadline x\<rparr>) (tasks_timeline cfs) in
     timeline_ok w (cfs\<lparr>tasks_timeline := tree\<rparr>) \<and> map se_strip (rb_inorder (rb_root tree)) = as @ se_strip se' # bs)"
proof -
  have tl: "timeline_ok w cfs" using q by (simp add: queue_ok_def)
  let ?f = "\<lambda>x. se'\<lparr>se_min_deadline := se_min_deadline x\<rparr>"
  have "se_id (se_strip (?f y)) = se_id se \<and> se_pos w (se_strip (?f y)) = se_pos w (se_strip y) \<and> se_valid w (se_strip (?f y)) \<and>
      se_min_deadline (?f y) = se_min_deadline y"
    if "y \<in> set (rb_inorder (rb_root (tasks_timeline cfs)))" "se_id (se_strip y) = se_id se" for y
  proof -
    have "y = se" using queued_unique [OF tl _ se, of y] that by (simp add: queued_def)
    then show ?thesis using k v by (simp add: se_pos_def se_valid_def)
  qed
  from timeline.update_cached [OF tl [unfolded timeline_ok_def] queued_tkeys [OF se] this] obtain as y bs where
    y: "y \<in> set (queued cfs)" "map se_strip (queued cfs) = as @ se_strip y # bs" "se_id y = se_id se"
      "timeline_ok w (cfs\<lparr>tasks_timeline := rb_update_node min_deadline_cb se_id (se_id se) ?f (tasks_timeline cfs)\<rparr>)"
      "map se_strip (rb_inorder (rb_root (rb_update_node min_deadline_cb se_id (se_id se) ?f (tasks_timeline cfs)))) = as @ se_strip (?f y) # bs"
    by (auto simp: queued_def timeline_ok_def)
  then show ?thesis using queued_unique [OF tl y(1) se y(3)] by (auto simp: Let_def)
qed

lemma reweight_queued_ok:
  assumes ok: "level_ok w (lv_cfs lv)" and se: "se \<in> set (queued (lv_cfs lv))"
    and r: "reweight_entity sys rq lv se wt = (lv', se')" and v: "se_valid w se'"
  shows "level_ok w (lv_cfs lv') \<and> members (lv_cfs lv') = members (lv_cfs lv)"
proof -
  let ?cfs = "lv_cfs lv"
  have q: "queue_ok w ?cfs" and c: "counts_ok ?cfs" using ok by (simp_all add: level_ok_def)
  note sq = queue_ok_at_queued [OF q se]
  note e = reweight_queued_eq [OF r sq(3,1)]
  note k = reweighted_keeps [of se wt, folded e(1)]
  define tree where "tree = rb_update_node min_deadline_cb se_id (se_id se) (\<lambda>x. se'\<lparr>se_min_deadline := se_min_deadline x\<rparr>) (tasks_timeline ?cfs)"
  obtain as bs where t: "map se_strip (queued ?cfs) = as @ se_strip se # bs" "timeline_ok w (?cfs\<lparr>tasks_timeline := tree\<rparr>)"
      "map se_strip (rb_inorder (rb_root tree)) = as @ se_strip se' # bs"
    using reweight_tree [OF q se v k(1,4)] by (auto simp: Let_def tree_def)
  have on: "\<forall>x \<in> set (queued ?cfs). se_on_rq x" using q by (simp add: queue_ok_def)
  have on': "se_on_rq se'" using k(2) sq(3) by simp
  note sw = node_swap [OF t(1,3) k(1) on' on]
  define c1 where "c1 = ?cfs\<lparr>tasks_timeline := tree,
       cfs_load := update_load_add (update_load_sub (cfs_load ?cfs) (load_of se)) (load_of se'),
       cfs_avg_vruntime := s64 (s64 (cfs_avg_vruntime ?cfs - entity_key ?cfs se * se_w se) + entity_key ?cfs se' * se_w se'),
       cfs_avg_load := u64 (u64 (cfs_avg_load ?cfs - se_w se) + se_w se')\<rparr>"
  have f: "queue_frame (lv_cfs lv') = queue_frame c1" using e(2) by (simp add: c1_def tree_def)
  have qc: "queued c1 = queued (?cfs\<lparr>tasks_timeline := tree\<rparr>)" by (simp add: c1_def queued_def)
  have sum: "(\<Sum>x\<leftarrow>queued c1. g x) = (\<Sum>x\<leftarrow>queued ?cfs. g x) - g se + g se'" if "stripped g" for g using sw(3) [OF that] qc by simp
  let ?m = "cfs_min_vruntime ?cfs"
  have vs: "vsum ?m (queued c1) = vsum ?m (queued ?cfs) - (se_vruntime se - ?m) * se_w se + (se_vruntime se' - ?m) * se_w se'"
    "lsum (queued c1) = lsum (queued ?cfs) - se_w se + se_w se'"
    unfolding vsum_def lsum_def by (rule sum; simp add: stripped_def)+
  have s: "cfs_avg_vruntime ?cfs = s64 (vsum ?m (queued ?cfs))" "cfs_avg_load ?cfs = u64 (lsum (queued ?cfs))"
    using q by (simp_all add: queue_ok_def sums_ok_def)
  have "sums_ok c1"
    using vs by (simp add: sums_ok_def c1_def s entity_key_def cint_absorb k(4))
  then have "queue_ok w c1"
    using q sw(1,2) t(2) qc by (simp add: queue_ok_def timeline_ok_def c1_def)
  moreover have "tally g c1 = tally g ?cfs - g se + g se'" if "stripped g" for g
    using sum [OF that] by (simp add: tally_simps c1_def)
  then have "counts_ok c1"
    using c k(3,6) by (simp add: counts_ok_def c1_def update_load_add_def update_load_sub_def idle_one_def cint_absorb u64_absorb_swap)
  moreover have "members c1 = members ?cfs" using sw(1) qc by (simp add: members_eq c1_def)
  ultimately show ?thesis using level_ok_frame(3) [OF f] members_frame [OF f] by (simp add: level_ok_def)
qed

end
