(* ===== verification/Simulation.thy ===== *)
theory Simulation
  imports Main
begin

text \<open>
  Sequences of labelled steps, and what it takes to show that the sequences of a detailed component are sequences of an
  abstract one: the locale \<open>simulation\<close> asks for it step by step, under an invariant of the detailed component.  For operations
  that are functions, \<open>total_refinement\<close> asks in addition that an operation which is called as it may be returns.
\<close>

inductive steps :: "('s \<Rightarrow> 'l \<Rightarrow> 's \<Rightarrow> bool) \<Rightarrow> 's \<Rightarrow> 'l list \<Rightarrow> 's \<Rightarrow> bool" for step where
  steps_nil: "steps step s [] s"
| steps_cons: "step s l s1 \<Longrightarrow> steps step s1 ls s2 \<Longrightarrow> steps step s (l # ls) s2"

inductive_simps steps_Nil [simp]: "steps step s [] s'"
inductive_simps steps_Cons: "steps step s (l # ls) s'"

lemma steps_one: "step s l s' \<Longrightarrow> steps step s [l] s'"
  by (auto intro: steps.intros)

lemma steps_append: "steps step s ls s1 \<Longrightarrow> steps step s1 ms s2 \<Longrightarrow> steps step s (ls @ ms) s2"
  by (induction rule: steps.induct) (auto intro: steps.intros)

locale simulation =
  fixes step :: "'s \<Rightarrow> 'l \<Rightarrow> 's \<Rightarrow> bool"
    and spec :: "'a \<Rightarrow> 'l \<Rightarrow> 'a \<Rightarrow> bool"
    and inv :: "'s \<Rightarrow> bool"
    and abs :: "'s \<Rightarrow> 'a"
  assumes inv_step: "step s l s' \<Longrightarrow> inv s \<Longrightarrow> inv s'"
    and sim_step: "step s l s' \<Longrightarrow> inv s \<Longrightarrow> spec (abs s) l (abs s')"
begin

lemma inv_steps: "steps step s ls s' \<Longrightarrow> inv s \<Longrightarrow> inv s'"
  by (induction rule: steps.induct) (auto dest: inv_step)

lemma sim_steps: "steps step s ls s' \<Longrightarrow> inv s \<Longrightarrow> steps spec (abs s) ls (abs s')"
proof (induction rule: steps.induct)
  case (steps_cons s l s1 ls s2)
  then show ?case using inv_step sim_step by (blast intro: steps.steps_cons)
qed (simp add: steps.steps_nil)

end

primrec run :: "('s \<Rightarrow> 'l \<Rightarrow> 's option) \<Rightarrow> 's \<Rightarrow> 'l list \<Rightarrow> 's option" where
  "run exec s [] = Some s"
| "run exec s (l # ls) = (case exec s l of None \<Rightarrow> None | Some s' \<Rightarrow> run exec s' ls)"

locale total_refinement =
  fixes exec :: "'s \<Rightarrow> 'l \<Rightarrow> 's option"
    and spec :: "'a \<Rightarrow> 'l \<Rightarrow> 'a"
    and ready :: "'l \<Rightarrow> bool"
    and inv :: "'s \<Rightarrow> bool"
    and abs :: "'s \<Rightarrow> 'a"
  assumes exec_ok: "inv s \<Longrightarrow> ready l \<Longrightarrow> \<exists>s'. exec s l = Some s' \<and> inv s' \<and> abs s' = spec (abs s) l"
begin

lemma run_ok: "inv s \<Longrightarrow> list_all ready ls \<Longrightarrow> \<exists>s'. run exec s ls = Some s' \<and> inv s' \<and> abs s' = foldl spec (abs s) ls"
proof (induction ls arbitrary: s)
  case (Cons l ls)
  from exec_ok [OF Cons.prems(1)] Cons.prems(2) obtain s1 where "exec s l = Some s1" "inv s1" "abs s1 = spec (abs s) l" by auto
  with Cons.IH [of s1] Cons.prems(2) show ?case by simp
qed simp

end

end
