(* ===== verification/Fair_Props.thy ===== *)
theory Fair_Props
  imports Fair_Switch Simulation
begin

text \<open>
  The runqueue of a level as a state machine: the operations in any order, against a specification that knows the set of
  runnable entities and the current one only.
\<close>

section \<open>The current entity under the operations\<close>

definition curr_id :: "cfs_rq \<Rightarrow> nat option" where
  "curr_id cfs = map_option se_id (cfs_curr cfs)"

lemma curr_id_is_curr: "is_curr cfs se \<longleftrightarrow> curr_id cfs = Some (se_id se)"
  by (simp add: is_curr_def curr_id_def)

lemma curr_id_frame: "queue_frame a = queue_frame b \<Longrightarrow> curr_id a = curr_id b"
  unfolding curr_id_def by (drule queue_frameD(10)) simp

lemma curr_id_update_curr [simp]: "curr_id (lv_cfs (update_curr sys rq lv)) = curr_id (lv_cfs lv)"
  using update_curr_keeps(2) [where sys = sys and rq = rq and lv = lv]
  by (auto simp: curr_id_def same_acct_def elim!: option.rel_cases)

lemma curr_id_store [simp]: "curr_id (store_se cfs se) = curr_id cfs"
  by (cases "cfs_curr cfs") (auto simp: curr_id_def store_se_def is_curr_def)

lemma curr_id_touch: "touch cfs se cfs' se' \<Longrightarrow> curr_id cfs' = curr_id cfs"
  unfolding touch_def by (elim conjE, drule curr_id_frame) simp

lemma curr_id_account [simp]: "curr_id (account_entity_enqueue cfs se) = curr_id cfs" "curr_id (account_entity_dequeue cfs se) = curr_id cfs"
  "curr_id (clear_buddies cfs se) = curr_id cfs" "curr_id (update_min_vruntime cfs) = curr_id cfs"
  by (simp_all add: curr_id_def)

lemma curr_id_tree:
  "enqueue_entity0 cfs se = Some cfs' \<Longrightarrow> curr_id cfs' = curr_id cfs" "dequeue_entity0 cfs se = Some cfs' \<Longrightarrow> curr_id cfs' = curr_id cfs"
  by (auto simp: enqueue_entity0_def dequeue_entity0_def avg_vruntime_simps curr_id_def Let_def)

lemma curr_id_reweight: "curr_id (lv_cfs (fst (reweight_entity sys rq lv se w))) = curr_id (lv_cfs lv)"
proof -
  have a: "curr_id (avg_vruntime_sub c s) = curr_id c" "curr_id (avg_vruntime_add c s) = curr_id c"
    "curr_id (dequeue_load_avg c s) = curr_id c" "curr_id (enqueue_load_avg c s) = curr_id c"
    "curr_id (c\<lparr>cfs_load := l\<rparr>) = curr_id c" "curr_id (c\<lparr>tasks_timeline := t\<rparr>) = curr_id c" for c s l t
    by (simp_all add: curr_id_def avg_vruntime_simps dequeue_load_avg_def enqueue_load_avg_def Let_def)
  show ?thesis by (simp add: reweight_entity_def Let_def a)
qed

lemma curr_id_group: "update_cfs_group sys rq lv se g = (lv', se') \<Longrightarrow> curr_id (lv_cfs lv') = curr_id (lv_cfs lv)"
  using curr_id_reweight [of sys rq lv se] by (auto simp: update_cfs_group_def split: option.splits if_splits) (metis fst_conv)

lemma curr_id_enqueue:
  assumes "enqueue_entity sys rq lv se g flags = Some (thr, lv', se', g')"
  shows "curr_id (lv_cfs lv') = curr_id (lv_cfs lv)"
proof -
  obtain lv1 se1 g1 where p: "enqueue_prepare sys rq lv se g flags = (lv1, se1, g1)" by (metis prod.exhaust)
  have "curr_id (lv_cfs lv1) = curr_id (lv_cfs lv)"
  proof -
    define s1 where "s1 = (if is_curr (lv_cfs lv) se then place_entity (fs_env sys) (lv_cfs lv) se (ENQUEUE_INITIAL flags) else se)"
    define lv2 where "lv2 = update_curr sys rq (lv\<lparr>lv_cfs := store_se (lv_cfs lv) s1\<rparr>)"
    define s2 where "s2 = live_se (lv_cfs lv2) s1"
    obtain lv3 s3 g3 where 3: "level_load_avg sys rq ATTACH_FLAGS lv2 s2 g = (lv3, s3, g3)" by (metis prod.exhaust)
    obtain lv4 s4 where 4: "level_update_runnable lv3 s3 g3 = (lv4, s4)" by fastforce
    obtain lv5 s5 where 5: "update_cfs_group sys rq lv4 s4 g3 = (lv5, s5)" by fastforce
    have "curr_id (lv_cfs lv1) = curr_id (lv_cfs lv5)"
      using p unfolding enqueue_prepare_def Let_def s1_def [symmetric] lv2_def [symmetric] s2_def [symmetric] 3 4 5 split_def fst_conv snd_conv
      by auto
    also have "\<dots> = curr_id (lv_cfs lv2)"
      using curr_id_group [OF 5] curr_id_touch [OF level_update_runnable_touch(1) [OF 4]] curr_id_touch [OF level_load_avg_touch(1) [OF 3]] by simp
    finally show ?thesis by (simp add: lv2_def)
  qed
  moreover obtain cfs where t: "(if \<not> is_curr (lv_cfs lv) se then enqueue_entity0 (lv_cfs lv1) se1 else Some (store_se (lv_cfs lv1) se1)) = Some cfs"
      "lv_cfs lv' = lv_cfs (snd (if cfs_nr_running cfs = 1 then first_enqueued sys rq (lv1\<lparr>lv_cfs := cfs\<rparr>) else (False, lv1\<lparr>lv_cfs := cfs\<rparr>)))"
  proof -
    have "\<exists>cfs. (if \<not> is_curr (lv_cfs lv) se then enqueue_entity0 (lv_cfs lv1) se1 else Some (store_se (lv_cfs lv1) se1)) = Some cfs \<and>
        (case (if cfs_nr_running cfs = 1 then first_enqueued sys rq (lv1\<lparr>lv_cfs := cfs\<rparr>) else (False, lv1\<lparr>lv_cfs := cfs\<rparr>)) of
           (thr, lv) \<Rightarrow> (thr, lv, se1, g1)) = (thr, lv', se', g')"
      using assms unfolding enqueue_entity_def p Let_def prod.case map_option_eq_Some by blast
    then show thesis using that by (auto simp: case_prod_beta)
  qed
  moreover have "curr_id cfs = curr_id (lv_cfs lv1)" using t(1) curr_id_tree(1) by (auto split: if_splits)
  moreover have "curr_id (lv_cfs lv') = curr_id cfs"
    unfolding t(2) using curr_id_frame [OF frame_first_enqueued [of sys rq "lv1\<lparr>lv_cfs := cfs\<rparr>"]] by simp
  ultimately show ?thesis by simp
qed

lemma curr_id_dequeue:
  assumes "dequeue_entity sys rq lv se g mig flags = Some (lv', se', g')"
  shows "curr_id (lv_cfs lv') = curr_id (lv_cfs lv)"
proof -
  obtain lv1 s1 g1 where p: "dequeue_prepare sys rq lv se g mig = (lv1, s1, g1)" by (metis prod.exhaust)
  have c1: "curr_id (lv_cfs lv1) = curr_id (lv_cfs lv)"
  proof -
    define action where "action = \<lparr>UPDATE_TG = True, SKIP_AGE_LOAD = False, DO_ATTACH = False, DO_DETACH = se_is_task se \<and> mig\<rparr>"
    define lv2 where "lv2 = update_curr sys rq lv"
    obtain lv3 s3 g3 where 3: "level_load_avg sys rq action lv2 (live_se (lv_cfs lv2) se) g = (lv3, s3, g3)" by (metis prod.exhaust)
    obtain lv4 s4 where 4: "level_update_runnable lv3 s3 g3 = (lv4, s4)" by fastforce
    have "lv_cfs lv1 = clear_buddies (lv_cfs lv4) s4"
      using p unfolding dequeue_prepare_def Let_def action_def [symmetric] lv2_def [symmetric] 3 4 split_def fst_conv snd_conv by auto
    then show ?thesis
      using curr_id_touch [OF level_update_runnable_touch(1) [OF 4]] curr_id_touch [OF level_load_avg_touch(1) [OF 3]] by (simp add: lv2_def)
  qed
  obtain cfs where t: "(if \<not> is_curr (lv_cfs lv1) s1 then dequeue_entity0 (lv_cfs lv1) s1 else Some (lv_cfs lv1)) = Some cfs"
      "dequeue_finish sys rq (lv1\<lparr>lv_cfs := cfs\<rparr>) s1 g1 flags = (lv', se', g')"
    using assms by (auto simp: dequeue_entity_def p Let_def)
  have c2: "curr_id cfs = curr_id (lv_cfs lv1)" using t(1) curr_id_tree(2) by (auto split: if_splits)
  define s where "s = s1\<lparr>se_on_rq := False\<rparr>"
  define d where "d = account_entity_dequeue (store_se cfs s) s"
  obtain b e where r: "return_cfs_rq_runtime (fs_bw_used sys) (fs_bw_slice sys) (fs_bw_timer sys) (fs_bw_waiting sys) (lv_bw lv1) d = (b, e)" by fastforce
  obtain lv3 s3 where u: "update_cfs_group sys rq (lv1\<lparr>lv_cfs := e, lv_bw := b\<rparr>) s g1 = (lv3, s3)" by fastforce
  have "curr_id e = curr_id d"
    using curr_id_frame [OF frame_return_cfs_rq_runtime [of "fs_bw_used sys" "fs_bw_slice sys" "fs_bw_timer sys" "fs_bw_waiting sys" "lv_bw lv1" d]]
    unfolding r by simp
  then have "curr_id (lv_cfs lv3) = curr_id cfs" using curr_id_group [OF u] by (simp add: d_def)
  moreover have "curr_id (lv_cfs lv') = curr_id (lv_cfs lv3)"
    using t(2) unfolding dequeue_finish_def Let_def s_def [symmetric] by (auto simp: d_def [symmetric] r u curr_id_frame [OF frame_update_idle])
  ultimately show ?thesis using c1 c2 by simp
qed

lemma members_group_curr:
  assumes u: "update_cfs_group sys rq lv se g = (lv', se')" and se: "se_on_rq se" "cfs_curr (lv_cfs lv) = Some se" "synced rq (lv_cfs lv)"
  shows "members (lv_cfs lv') = members (lv_cfs lv)"
proof -
  have "members (lv_cfs lv1) = members (lv_cfs lv)" if r: "reweight_entity sys rq lv se wt = (lv1, se1)" for wt lv1 se1
  proof -
    obtain l where l: "queue_frame (lv_cfs lv1) = queue_frame ((lv_cfs lv)\<lparr>cfs_curr := Some se1, cfs_load := l\<rparr>)"
      using reweight_curr(1) [OF r se] by blast
    note k = reweighted_keeps [of se wt, folded reweight_curr(2) [OF r se]]
    show ?thesis using members_frame [OF l] se k(1,2) by (simp add: members_eq queued_def)
  qed
  then show ?thesis using u by (auto simp: update_cfs_group_def split: option.splits if_splits)
qed

lemma entity_tick_members:
  assumes ok: "level_ok w (lv_cfs lv)" and c: "cfs_curr (lv_cfs lv) = Some cur" "se_on_rq cur"
    and win: "curr_in w (lv_cfs (update_curr sys rq lv))" and t: "entity_tick sys rq lv cur g hr = (lv', cur', g')"
  shows "members (lv_cfs lv') = members (lv_cfs lv)" "curr_id (lv_cfs lv') = curr_id (lv_cfs lv)"
proof -
  define lv1 where "lv1 = update_curr sys rq lv"
  define c1 where "c1 = live_se (lv_cfs lv1) cur"
  obtain lv2 c2 g2 where 2: "level_load_avg sys rq TG_FLAGS lv1 c1 g = (lv2, c2, g2)" by (metis prod.exhaust)
  obtain lv3 c3 where 3: "update_cfs_group sys rq lv2 c2 g2 = (lv3, c3)" by fastforce
  have r: "lv_cfs lv' = lv_cfs lv3"
    using t by (auto simp: entity_tick_def Let_def lv1_def [symmetric] c1_def [symmetric] 2 3 split: if_splits)
  have ol: "on_level (lv_cfs lv) cur" using c by (simp add: on_level_def)
  have t2: "touch (lv_cfs (update_curr sys rq lv)) (live_se (lv_cfs (update_curr sys rq lv)) cur) (lv_cfs lv2) c2"
    using level_load_avg_touch(1) [OF 2] by (simp add: c1_def lv1_def)
  note y = sync_on_level [OF ok ol win t2]
  have "cfs_curr (lv_cfs lv2) = Some c2" "se_on_rq c2" using y(2,6,7) c by (simp_all add: at_def is_curr_def same_acct_def)
  from members_group_curr [OF 3 this(2,1) y(5)] show "members (lv_cfs lv') = members (lv_cfs lv)" using y(3) by (simp add: r)
  show "curr_id (lv_cfs lv') = curr_id (lv_cfs lv)" using curr_id_group [OF 3] curr_id_touch [OF t2] by (simp add: r)
qed

section \<open>The runqueue as a state machine\<close>

text \<open>
  One rule per operation, with the conditions under which the code calls it: what is enqueued is not on the runqueue, what is
  dequeued is, \<open>set_next_entity\<close> takes an entity of the tree while no entity is current, \<open>put_prev_entity\<close> and the tick take
  the current one.  The remaining premises ask that virtual times stay within a window of half the 64-bit range.  The clocks of
  \<open>rq\<close> and the group runqueue of the entity are arbitrary in every step.
\<close>

datatype fair_op = Enqueue nat | Dequeue nat | Set_Next nat | Put_Prev nat | Tick nat | Reweight nat

inductive fair_step :: "int \<Rightarrow> fair_sys \<Rightarrow> fair_level \<Rightarrow> fair_op \<Rightarrow> fair_level \<Rightarrow> bool" for w sys where
  enqueue: "enqueue_entity sys rq lv se g flags = Some (thr, lv', se', g') \<Longrightarrow>
    \<not> se_on_rq se \<Longrightarrow> at (lv_cfs lv) se \<Longrightarrow> se_id se \<notin> members (lv_cfs lv) \<Longrightarrow>
    enqueue_prepare sys rq lv se g flags = (lv1, se1, g1) \<Longrightarrow> curr_in w (lv_cfs lv1) \<Longrightarrow> se_valid w se1 \<Longrightarrow>
    fair_step w sys lv (Enqueue (se_id se)) lv'"
| dequeue: "dequeue_entity sys rq lv se g migrating flags' = Some (lv', se', g') \<Longrightarrow>
    on_level (lv_cfs lv) se \<Longrightarrow> curr_in w (lv_cfs (update_curr sys rq lv)) \<Longrightarrow>
    fair_step w sys lv (Dequeue (se_id se)) lv'"
| set_next: "set_next_entity sys rq lv se g = Some (lv', se', g') \<Longrightarrow>
    se \<in> set (queued (lv_cfs lv)) \<Longrightarrow> cfs_curr (lv_cfs lv) = None \<Longrightarrow>
    fair_step w sys lv (Set_Next (se_id se)) lv'"
| put_prev: "put_prev_entity sys rq lv se g = Some (thr, lv', se', g') \<Longrightarrow> cfs_curr (lv_cfs lv) = Some se \<Longrightarrow>
    (se_on_rq se \<Longrightarrow> pred_option (se_valid w) (cfs_curr (lv_cfs (update_curr sys rq lv)))) \<Longrightarrow>
    fair_step w sys lv (Put_Prev (se_id se)) lv'"
| tick: "entity_tick sys rq lv se g hrtick = (lv', se', g') \<Longrightarrow> cfs_curr (lv_cfs lv) = Some se \<Longrightarrow> se_on_rq se \<Longrightarrow>
    curr_in w (lv_cfs (update_curr sys rq lv)) \<Longrightarrow>
    fair_step w sys lv (Tick (se_id se)) lv'"
| reweight: "reweight_entity sys rq lv se wt = (lv', se') \<Longrightarrow> se \<in> set (queued (lv_cfs lv)) \<Longrightarrow> se_valid w se' \<Longrightarrow>
    fair_step w sys lv (Reweight (se_id se)) lv'"

text \<open>The specification: the set of runnable entities and the current entity, which need not be runnable.\<close>

inductive level_spec :: "nat set \<times> nat option \<Rightarrow> fair_op \<Rightarrow> nat set \<times> nat option \<Rightarrow> bool" where
  "i \<notin> R \<Longrightarrow> level_spec (R, c) (Enqueue i) (insert i R, c)"
| "i \<in> R \<Longrightarrow> level_spec (R, c) (Dequeue i) (R - {i}, c)"
| "i \<in> R \<Longrightarrow> level_spec (R, None) (Set_Next i) (R, Some i)"
| "level_spec (R, Some i) (Put_Prev i) (R, None)"
| "i \<in> R \<Longrightarrow> level_spec (R, Some i) (Tick i) (R, Some i)"
| "i \<in> R \<Longrightarrow> c \<noteq> Some i \<Longrightarrow> level_spec (R, c) (Reweight i) (R, c)"

definition abs_level :: "fair_level \<Rightarrow> nat set \<times> nat option" where
  "abs_level lv = (members (lv_cfs lv), curr_id (lv_cfs lv))"

lemma members_queued: "x \<in> set (queued cfs) \<Longrightarrow> se_id x \<in> members cfs" "se_id ` set (queued cfs) \<subseteq> members cfs"
  by (auto simp: members_eq)

lemma fair_step_sim:
  assumes "fair_step w sys lv op lv'" "level_ok w (lv_cfs lv)"
  shows "level_ok w (lv_cfs lv') \<and> level_spec (abs_level lv) op (abs_level lv')"
  using assms
proof (induction rule: fair_step.induct)
  case (enqueue rq lv se g flags thr lv' se' g' lv1 se1 g1)
  have "se_id se \<notin> se_id ` set (queued (lv_cfs lv))" using enqueue(4) members_queued(2) [of "lv_cfs lv"] by blast
  from enqueue_entity_ok [OF enqueue(8,2,3) this enqueue(5-7)] curr_id_enqueue [OF enqueue(1)] enqueue(1,4)
  show ?case by (auto simp: abs_level_def intro: level_spec.intros)
next
  case (dequeue rq lv se g mig flags lv' se' g')
  have "se_id se \<in> members (lv_cfs lv)" using dequeue(2) by (auto simp: on_level_competing members_def)
  with dequeue_entity_ok [OF dequeue(4,2,3), of g mig flags] curr_id_dequeue [OF dequeue(1)] dequeue(1)
  show ?case by (auto simp: abs_level_def intro: level_spec.intros)
next
  case (set_next rq lv se g lv' se' g')
  with set_next_entity_ok [OF set_next(4,2,3), of sys rq g] members_queued(1) [OF set_next(2)] show ?case
    by (auto simp: abs_level_def curr_id_def same_acct_def intro: level_spec.intros)
next
  case (put_prev rq lv se g thr lv' se' g')
  with put_prev_entity_ok [OF put_prev(4,2,3), of g] show ?case
    by (auto simp: abs_level_def curr_id_def intro: level_spec.intros)
next
  case (tick rq lv se g hr lv' se' g')
  have "se_id se \<in> members (lv_cfs lv)" using tick(2,3) by (simp add: members_eq)
  with entity_tick_ok [OF tick(5,2,3,4,1)] entity_tick_members [OF tick(5,2,3,4,1)] tick(2) show ?case
    by (auto simp: abs_level_def curr_id_def intro: level_spec.intros)
next
  case (reweight rq lv se wt lv' se')
  have "queue_ok w (lv_cfs lv)" using reweight(4) by (simp add: level_ok_def)
  from queue_ok_at_queued(1) [OF this reweight(2)] have "curr_id (lv_cfs lv) \<noteq> Some (se_id se)" by (simp add: curr_id_is_curr)
  with reweight_queued_ok [OF reweight(4,2,1,3)] curr_id_reweight [of sys rq lv se wt] reweight(1) members_queued(1) [OF reweight(2)] show ?case
    by (auto simp: abs_level_def intro: level_spec.intros)
qed

interpretation fair_sim: simulation "fair_step w sys" level_spec "\<lambda>lv. level_ok w (lv_cfs lv)" abs_level for w sys
  by unfold_locales (use fair_step_sim in blast)+

section \<open>The initial runqueue\<close>

text \<open>A runqueue as it is allocated: zeroed memory.\<close>

definition zeroed :: "cfs_rq \<Rightarrow> bool" where
  "zeroed cfs \<longleftrightarrow> cfs_curr cfs = None \<and> cfs_nr_running cfs = 0 \<and> cfs_idle_nr_running cfs = 0 \<and> weight (cfs_load cfs) = 0 \<and>
     cfs_avg_vruntime cfs = 0 \<and> cfs_avg_load cfs = 0"

lemma init_level_ok:
  assumes "zeroed cfs" "in_window w (u64 (- (2 ^ 20)))"
  shows "level_ok w (init_cfs_rq cfs)" "members (init_cfs_rq cfs) = {}" "curr_id (init_cfs_rq cfs) = None"
  using assms
  by (simp_all add: zeroed_def init_cfs_rq_def level_ok_def queue_ok_def counts_ok_def tally_simps timeline_ok_def rb_cached_ok_def
      rb_wf_def sums_ok_def queued_def members_eq curr_id_def u32_def u64_def s64_def)

lemma level_counts:
  assumes "level_ok w cfs"
  shows "cfs_nr_running cfs = u32 (int (card (members cfs)))" "weight (cfs_load cfs) = u64 (\<Sum>se\<leftarrow>competing cfs. weight (se_load se))"
    "cfs_idle_nr_running cfs = u32 (int (length (filter se_is_idle (competing cfs))))"
proof -
  have q: "queue_ok w cfs" and c: "counts_ok cfs" using assms by (simp_all add: level_ok_def)
  have "distinct (map se_id (queued cfs))"
    using q timeline.cached_okD(6) [of w "tasks_timeline cfs"] by (simp add: queue_ok_def timeline_ok_def queued_def comp_def)
  then have "distinct (map se_id (competing cfs))"
    using q by (cases "cfs_curr cfs") (auto simp: queue_ok_def competing_def)
  then have "card (members cfs) = length (competing cfs)"
    unfolding members_def using distinct_card [of "map se_id (competing cfs)"] by simp
  moreover have "tally (\<lambda>_. 1) cfs = int (length (competing cfs))" by (simp add: tally_def sum_list_triv)
  ultimately show "cfs_nr_running cfs = u32 (int (card (members cfs)))" using c by (simp add: counts_ok_def)
  have "(\<Sum>x\<leftarrow>xs. idle_one x) = int (length (filter se_is_idle xs))" for xs by (induction xs) (simp_all add: idle_one_def)
  then show "cfs_idle_nr_running cfs = u32 (int (length (filter se_is_idle (competing cfs))))" using c by (simp add: counts_ok_def tally_def)
  show "weight (cfs_load cfs) = u64 (\<Sum>se\<leftarrow>competing cfs. weight (se_load se))"
    using c by (simp add: counts_ok_def tally_def load_of_def [abs_def])
qed

definition example_sys :: fair_sys where
  "example_sys = \<lparr>fs_env = example_env, fs_util_est = True, fs_bw_used = False, fs_bw_slice = 5000000, fs_bw_timer = (False, 0), fs_bw_waiting = False\<rparr>"

definition example_clock :: "int \<Rightarrow> pelt_rq" where
  "example_clock t = \<lparr>prq_clock = t, prq_clock_task = t, clock_pelt = t, lost_idle_time = 0, clock_pelt_idle = 0, clock_idle = 0,
     avg_rt = sched_avg0, avg_dl = sched_avg0, avg_thermal = sched_avg0, avg_irq = sched_avg0, prq_cfs_util_sum = 0, prq_curr_idle = False,
     freq_capacity = 1024, cpu_capacity = 1024\<rparr>"

definition example_level :: fair_level where
  "example_level = \<lparr>lv_cfs = init_cfs_rq example_cfs0, lv_tg = \<lparr>tg_shares = 1048576, tg_load_avg = 0, tg_is_root = True\<rparr>,
     lv_bw = \<lparr>bw_period = 100000000, bw_quota = RUNTIME_INF, bw_runtime = 0, bw_burst = 0, bw_runtime_snap = 0,
       hierarchical_quota = RUNTIME_INF, bw_idle = False, bw_period_active = False, bw_slack_started = False, nr_periods = 0,
       nr_throttled = 0, nr_burst = 0, throttled_time = 0, burst_time = 0\<rparr>,
     lv_resched = False, lv_util_change = False\<rparr>"

definition new_task :: "nat \<Rightarrow> sched_entity" where
  "new_task i = (example_task i 1024 0 0)\<lparr>se_on_rq := False\<rparr>"

definition initial_flags :: enqueue_flags where
  "initial_flags = \<lparr>ENQUEUE_INITIAL = True, ENQUEUE_MIGRATED = False\<rparr>"

definition example_prep :: "fair_level \<times> sched_entity \<times> group_q" where
  "example_prep = enqueue_prepare example_sys (example_clock 5000000) example_level (new_task 1) None initial_flags"

lemma example_enqueue: "curr_in 0 (lv_cfs (fst example_prep))" "se_valid 0 (fst (snd example_prep))"
proof -
  have "cfs_curr (lv_cfs (fst example_prep)) = None" by code_simp
  then show "curr_in 0 (lv_cfs (fst example_prep))" by (simp add: curr_in_def)
  show "se_valid 0 (fst (snd example_prep))" by code_simp
qed

lemma example_window: "in_window 0 (u64 (- (2 ^ 20)))" "zeroed example_cfs0" "members (lv_cfs example_level) = {}" "at (lv_cfs example_level) (new_task 1)"
  "\<not> se_on_rq (new_task 1)" "lv_cfs example_level = init_cfs_rq example_cfs0" "se_id (new_task 1) = 1"
  by (code_simp, simp add: example_cfs0_def init_cfs_rq_def zeroed_def, code_simp, code_simp, code_simp, simp add: example_level_def, code_simp)

text \<open>A runqueue with one task of nice level 0 in the tree.\<close>

definition one_task :: sched_entity where
  "one_task = (example_task 1 1024 0 750000)\<lparr>se_min_deadline := 750000\<rparr>"

definition one_task_cfs :: cfs_rq where
  "one_task_cfs = (the (enqueue_entity0 example_cfs0 one_task))\<lparr>cfs_nr_running := 1, cfs_load := \<lparr>weight = 1048576, inv_weight = 0\<rparr>\<rparr>"

lemma one_task_ok: "level_ok 0 one_task_cfs"
proof -
  have "timeline_ok 0 one_task_cfs" "sums_ok one_task_cfs" "in_window 0 (cfs_min_vruntime one_task_cfs)" "counts_ok one_task_cfs"
    "cfs_curr one_task_cfs = None" "\<forall>x \<in> set (queued one_task_cfs). se_on_rq x" by code_simp+
  then show ?thesis by (simp add: level_ok_def queue_ok_def)
qed

section \<open>Time\<close>

lemma update_curr_run:
  assumes c: "cfs_curr (lv_cfs lv) = Some c" "s64 (u64 (prq_clock_task rq - se_exec_start c)) > 0"
    and ch: "charge_curr (fs_env sys) (cfs_nr_running (lv_cfs lv)) (prq_clock_task rq) (u64 (prq_clock_task rq - se_exec_start c)) c = (c', ns)"
  shows "cfs_curr (lv_cfs (update_curr sys rq lv)) = Some c'" "ns \<Longrightarrow> lv_resched (update_curr sys rq lv)"
proof -
  define d where "d = u64 (prq_clock_task rq - se_exec_start c)"
  define q where "q = update_min_vruntime (if ns then clear_buddies ((lv_cfs lv)\<lparr>cfs_curr := Some c'\<rparr>) c' else (lv_cfs lv)\<lparr>cfs_curr := Some c'\<rparr>)"
  obtain b cfs r where a: "account_cfs_rq_runtime (fs_bw_used sys) (fs_bw_slice sys) (lv_bw lv) q d = (b, cfs, r)" by (metis prod.exhaust)
  have "\<not> s64 d \<le> 0" using c(2) by (simp add: d_def)
  then have e: "update_curr sys rq lv = lv\<lparr>lv_cfs := cfs, lv_bw := b, lv_resched := lv_resched lv \<or> ns \<or> r\<rparr>"
    using c(1) ch unfolding update_curr_def Let_def by (simp add: d_def [symmetric] q_def [symmetric] a)
  have f: "queue_frame cfs = queue_frame q"
    using frame_account_cfs_rq_runtime [of "fs_bw_used sys" "fs_bw_slice sys" "lv_bw lv" q d] unfolding a by simp
  show "cfs_curr (lv_cfs (update_curr sys rq lv)) = Some c'" using queue_frameD(10) [OF f] by (simp add: e q_def)
  show "ns \<Longrightarrow> lv_resched (update_curr sys rq lv)" by (simp add: e)
qed

lemma update_deadline_cases:
  assumes "update_deadline env n c = (c', ns)"
  shows "se_vruntime c' = se_vruntime c" "se_sum_exec_runtime c' = se_sum_exec_runtime c"
    "s64 (se_vruntime c - se_deadline c) < 0 \<Longrightarrow> se_deadline c' = se_deadline c \<and> se_vlag c' = se_vlag c"
    "\<not> s64 (se_vruntime c - se_deadline c) < 0 \<Longrightarrow> ns = (n > 1)"
proof -
  define s where "s = c\<lparr>se_slice := sysctl_sched_base_slice env\<rparr>"
  obtain i where "snd (calc_delta_fair (sysctl_sched_base_slice env) s) = s\<lparr>se_load := (se_load s)\<lparr>inv_weight := i\<rparr>\<rparr>"
    using calc_delta_fair_se by blast
  then show "se_vruntime c' = se_vruntime c" "se_sum_exec_runtime c' = se_sum_exec_runtime c"
    "s64 (se_vruntime c - se_deadline c) < 0 \<Longrightarrow> se_deadline c' = se_deadline c \<and> se_vlag c' = se_vlag c"
    "\<not> s64 (se_vruntime c - se_deadline c) < 0 \<Longrightarrow> ns = (n > 1)"
    using assms by (auto simp: update_deadline_def Let_def split_def s_def split: if_splits)
qed

lemma charge_curr_cases:
  assumes "charge_curr env n now d c = (c', ns)"
  shows "se_sum_exec_runtime c' = u64 (se_sum_exec_runtime c + d)"
    "weight (se_load c) = NICE_0_LOAD \<Longrightarrow> se_vruntime c' = u64 (se_vruntime c + d)"
    "s64 (se_vruntime c' - se_deadline c) < 0 \<Longrightarrow> se_deadline c' = se_deadline c \<and> se_vlag c' = se_vlag c"
    "\<not> s64 (se_vruntime c' - se_deadline c) < 0 \<Longrightarrow> ns = (n > 1)" "is_u64 (se_vruntime c')"
proof -
  define s where "s = c\<lparr>se_exec_start := now, se_sum_exec_runtime := u64 (se_sum_exec_runtime c + d)\<rparr>"
  obtain i where i: "snd (calc_delta_fair d s) = s\<lparr>se_load := (se_load s)\<lparr>inv_weight := i\<rparr>\<rparr>" using calc_delta_fair_se by blast
  define v where "v = u64 (se_vruntime c + fst (calc_delta_fair d s))"
  have "update_deadline env n (s\<lparr>se_load := (se_load s)\<lparr>inv_weight := i\<rparr>, se_vruntime := v\<rparr>) = (c', ns)"
    using assms i by (simp add: charge_curr_def Let_def split_def s_def [symmetric] v_def) (simp add: s_def)
  note u = update_deadline_cases [OF this]
  show "se_sum_exec_runtime c' = u64 (se_sum_exec_runtime c + d)" "is_u64 (se_vruntime c')" using u(1,2) by (simp_all add: s_def v_def)
  show "weight (se_load c) = NICE_0_LOAD \<Longrightarrow> se_vruntime c' = u64 (se_vruntime c + d)"
    using u(1) by (simp add: v_def calc_delta_fair_def s_def)
  show "s64 (se_vruntime c' - se_deadline c) < 0 \<Longrightarrow> se_deadline c' = se_deadline c \<and> se_vlag c' = se_vlag c"
    "\<not> s64 (se_vruntime c' - se_deadline c) < 0 \<Longrightarrow> ns = (n > 1)"
    using u(1,3,4) by (simp_all add: s_def)
qed

text \<open>The clock of the runqueue read at successive updates.\<close>

definition update_curr_at :: "fair_sys \<Rightarrow> pelt_rq \<Rightarrow> int list \<Rightarrow> fair_level \<Rightarrow> fair_level" where
  "update_curr_at sys rq ts lv = fold (\<lambda>t. update_curr sys (rq\<lparr>prq_clock_task := t\<rparr>)) ts lv"

lemma update_curr_at_step:
  assumes c: "cfs_curr (lv_cfs lv) = Some c" and win: "in_window w (se_exec_start c)" "in_window w t" and u: "is_u64 (se_sum_exec_runtime c)" "is_u64 (se_vruntime c)"
  shows "\<exists>c'. cfs_curr (lv_cfs (update_curr sys (rq\<lparr>prq_clock_task := t\<rparr>) lv)) = Some c' \<and> se_id c' = se_id c \<and>
    se_exec_start c' = (if clock_off w (se_exec_start c) < clock_off w t then t else se_exec_start c) \<and>
    se_sum_exec_runtime c' = u64 (se_sum_exec_runtime c + (clock_off w (se_exec_start c') - clock_off w (se_exec_start c))) \<and>
    (se_on_rq c \<longrightarrow> weight (se_load c') = weight (se_load c)) \<and> se_on_rq c' = se_on_rq c \<and> is_u64 (se_vruntime c') \<and>
    (weight (se_load c) = NICE_0_LOAD \<longrightarrow> se_vruntime c' = u64 (se_vruntime c + (clock_off w (se_exec_start c') - clock_off w (se_exec_start c))))"
proof -
  let ?rq = "rq\<lparr>prq_clock_task := t\<rparr>" and ?d = "u64 (t - se_exec_start c)" and ?o = "clock_off w t - clock_off w (se_exec_start c)"
  have s: "s64 (u64 (t - se_exec_start c)) = ?o" using win by (simp add: s64_u64 window_diff [of w])
  show ?thesis
  proof (cases "?o > 0")
    case False
    then have "synced ?rq (lv_cfs lv)" using c s by (simp add: synced_def)
    then show ?thesis using c u False by (simp add: update_curr_synced u64_id)
  next
    case True
    obtain c' ns where ch: "charge_curr (fs_env sys) (cfs_nr_running (lv_cfs lv)) t ?d c = (c', ns)" by fastforce
    have d: "u64 (a + ?d) = u64 (a + ?o)" for a
      by (rule u64_cong_add [OF refl u64_s64 [of ?d, unfolded s, symmetric]])
    have "s64 (u64 (prq_clock_task ?rq - se_exec_start c)) > 0" using s True by simp
    from update_curr_run(1) [OF c this] ch have "cfs_curr (lv_cfs (update_curr sys ?rq lv)) = Some c'" by simp
    moreover have "same_acct c c'" "se_exec_start c' = t"
      using charge_curr_keeps [where cur = c and env = "fs_env sys" and n = "cfs_nr_running (lv_cfs lv)" and now = t and d = ?d] by (simp_all add: ch)
    ultimately show ?thesis using charge_curr_cases(1,2,5) [OF ch] True by (simp add: d same_acct_def load_of_def)
  qed
qed

section \<open>Properties\<close>

text \<open>
  C3: From a freshly initialised runqueue, any sequence of enqueue, dequeue, \<open>set_next_entity\<close>, \<open>put_prev_entity\<close>, tick and reweight
  is a sequence of the specification that keeps the set of runnable entities and the current one; on the way the tree stays balanced,
  ordered and correctly augmented and its sums exact.
\<close>

theorem fair_trace_refines:
  assumes "zeroed c" "lv_cfs lv = init_cfs_rq c" "in_window w (u64 (- (2 ^ 20)))" "steps (fair_step w sys) lv ops lv'"
  shows "steps level_spec ({}, None) ops (se_id ` set (competing (lv_cfs lv')), map_option se_id (cfs_curr (lv_cfs lv'))) \<and>
    timeline_ok w (lv_cfs lv') \<and> sums_ok (lv_cfs lv')"
proof -
  note i = init_level_ok [OF assms(1,3), folded assms(2)]
  have "level_ok w (lv_cfs lv')" by (rule fair_sim.inv_steps [OF assms(4) i(1)])
  then have "timeline_ok w (lv_cfs lv')" "sums_ok (lv_cfs lv')" by (simp_all add: level_ok_def queue_ok_def)
  with fair_sim.sim_steps [OF assms(4) i(1)] i(2,3) show ?thesis by (simp add: abs_level_def members_def curr_id_def)
qed

lemma example_steps:
  "\<exists>lv2. steps (fair_step 0 example_sys) example_level [Enqueue 1, Set_Next 1] lv2"
proof -
  obtain lv1 se1 g1 where p: "enqueue_prepare example_sys (example_clock 5000000) example_level (new_task 1) None initial_flags = (lv1, se1, g1)"
    by (metis prod.exhaust)
  then have v: "curr_in 0 (lv_cfs lv1)" "se_valid 0 se1" using example_enqueue by (simp_all add: example_prep_def)
  note i = init_level_ok(1) [OF example_window(2,1), folded example_window(6)]
  have f: "se_id (new_task 1) \<notin> se_id ` set (queued (lv_cfs example_level))"
    using example_window(3) members_queued(2) [of "lv_cfs example_level"] by simp
  from enqueue_entity_ok [OF i example_window(5,4) f p v] obtain thr lv' where
    e: "enqueue_entity example_sys (example_clock 5000000) example_level (new_task 1) None initial_flags = Some (thr, lv', se1, g1)"
      "level_ok 0 (lv_cfs lv')" "members (lv_cfs lv') = {1}" using example_window(3,7) by auto
  have s1: "fair_step 0 example_sys example_level (Enqueue 1) lv'"
    using fair_step.enqueue [OF e(1) example_window(5,4) _ p v] example_window(3,7) by simp
  have nc: "cfs_curr (lv_cfs lv') = None"
    using curr_id_enqueue [OF e(1)] init_level_ok(3) [OF example_window(2,1), folded example_window(6)] by (simp add: curr_id_def)
  then have "se_id ` set (queued (lv_cfs lv')) = {1}" using e(3) by (simp add: members_eq)
  then obtain x where x: "x \<in> set (queued (lv_cfs lv'))" "se_id x = 1" by (metis imageE insertI1)
  from set_next_entity_ok [OF e(2) x(1) nc, of example_sys "example_clock 6000000" None] obtain lv2 se2 g2 where
    "set_next_entity example_sys (example_clock 6000000) lv' x None = Some (lv2, se2, g2)" by blast
  then have "fair_step 0 example_sys lv' (Set_Next 1) lv2" using fair_step.set_next [OF _ x(1) nc] x(2) by metis
  with s1 show ?thesis by (blast intro: steps.intros)
qed

theorem fair_trace_refines_witness:
  "\<exists>lv2. steps (fair_step 0 example_sys) example_level [Enqueue 1, Set_Next 1] lv2 \<and> timeline_ok 0 (lv_cfs lv2)"
proof -
  obtain lv2 where s: "steps (fair_step 0 example_sys) example_level [Enqueue 1, Set_Next 1] lv2" using example_steps by blast
  from fair_trace_refines [OF example_window(2,6,1) s] s show ?thesis by blast
qed

text \<open>
  C10: In every state so reached the counters of the runqueue are those of its entities, in the width they have: \<open>nr_running\<close> and
  \<open>idle_nr_running\<close> count the runnable entities and the idle ones among them, the load is the sum of their weights; the current entity is
  not in the tree, and what is in the tree is on the runqueue.
\<close>

theorem fair_counters:
  assumes "zeroed c" "lv_cfs lv = init_cfs_rq c" "in_window w (u64 (- (2 ^ 20)))" "steps (fair_step w sys) lv ops lv'"
  shows "let cfs = lv_cfs lv' in
    cfs_nr_running cfs = u32 (int (card (se_id ` set (competing cfs)))) \<and>
    cfs_idle_nr_running cfs = u32 (int (length (filter se_is_idle (competing cfs)))) \<and>
    weight (cfs_load cfs) = u64 (\<Sum>se\<leftarrow>competing cfs. weight (se_load se)) \<and>
    (\<forall>se \<in> set (queued cfs). se_on_rq se \<and> map_option se_id (cfs_curr cfs) \<noteq> Some (se_id se))"
proof -
  have ok: "level_ok w (lv_cfs lv')"
    by (rule fair_sim.inv_steps [OF assms(4) init_level_ok(1) [OF assms(1,3), folded assms(2)]])
  then have "queue_ok w (lv_cfs lv')" by (simp add: level_ok_def)
  from queue_ok_at_queued(1,3) [OF this] level_counts [OF ok] show ?thesis by (simp add: Let_def members_def is_curr_def)
qed

theorem fair_counters_witness:
  "\<exists>lv2. steps (fair_step 0 example_sys) example_level [Enqueue 1, Set_Next 1] lv2 \<and>
     cfs_nr_running (lv_cfs lv2) = u32 (int (card (se_id ` set (competing (lv_cfs lv2)))))"
proof -
  obtain lv2 where s: "steps (fair_step 0 example_sys) example_level [Enqueue 1, Set_Next 1] lv2" using example_steps by blast
  from fair_counters [OF example_window(2,6,1) s] s show ?thesis by (auto simp: Let_def)
qed

text \<open>
  C4: The operations are sound on a well-formed runqueue.  Each of them returns (the tree code never follows a NULL pointer) and leaves a
  well-formed runqueue, for every entity the code may call it with: one off the runqueue for enqueue, one on it for dequeue, one of the
  tree for \<open>set_next_entity\<close>, the current one for \<open>put_prev_entity\<close>.
\<close>

theorem fair_ops_total:
  assumes "level_ok w (lv_cfs lv)"
  shows "(\<not> se_on_rq se \<and> at (lv_cfs lv) se \<and> se_id se \<notin> se_id ` set (queued (lv_cfs lv)) \<and>
      curr_in w (lv_cfs (fst (enqueue_prepare sys rq lv se g eflags))) \<and> se_valid w (fst (snd (enqueue_prepare sys rq lv se g eflags))) \<longrightarrow>
      (\<exists>thr lv' se' g'. enqueue_entity sys rq lv se g eflags = Some (thr, lv', se', g') \<and> level_ok w (lv_cfs lv'))) \<and>
    (on_level (lv_cfs lv) se \<and> curr_in w (lv_cfs (update_curr sys rq lv)) \<longrightarrow>
      (\<exists>lv' se' g'. dequeue_entity sys rq lv se g migrating dflags = Some (lv', se', g') \<and> level_ok w (lv_cfs lv'))) \<and>
    (se \<in> set (queued (lv_cfs lv)) \<and> cfs_curr (lv_cfs lv) = None \<longrightarrow>
      (\<exists>lv' se' g'. set_next_entity sys rq lv se g = Some (lv', se', g') \<and> level_ok w (lv_cfs lv'))) \<and>
    (cfs_curr (lv_cfs lv) = Some se \<and> pred_option (se_valid w) (cfs_curr (lv_cfs (update_curr sys rq lv))) \<longrightarrow>
      (\<exists>thr lv' se' g'. put_prev_entity sys rq lv se g = Some (thr, lv', se', g') \<and> level_ok w (lv_cfs lv')))"
proof (intro conjI impI)
  assume a: "\<not> se_on_rq se \<and> at (lv_cfs lv) se \<and> se_id se \<notin> se_id ` set (queued (lv_cfs lv)) \<and>
      curr_in w (lv_cfs (fst (enqueue_prepare sys rq lv se g eflags))) \<and> se_valid w (fst (snd (enqueue_prepare sys rq lv se g eflags)))"
  obtain lv1 se1 g1 where p: "enqueue_prepare sys rq lv se g eflags = (lv1, se1, g1)" by (metis prod.exhaust)
  from enqueue_entity_ok [OF assms _ _ _ p] a show "\<exists>thr lv' se' g'. enqueue_entity sys rq lv se g eflags = Some (thr, lv', se', g') \<and> level_ok w (lv_cfs lv')"
    by (auto simp: p)
next
  assume "on_level (lv_cfs lv) se \<and> curr_in w (lv_cfs (update_curr sys rq lv))"
  with dequeue_entity_ok [OF assms] show "\<exists>lv' se' g'. dequeue_entity sys rq lv se g migrating dflags = Some (lv', se', g') \<and> level_ok w (lv_cfs lv')"
    by blast
next
  assume "se \<in> set (queued (lv_cfs lv)) \<and> cfs_curr (lv_cfs lv) = None"
  with set_next_entity_ok [OF assms] show "\<exists>lv' se' g'. set_next_entity sys rq lv se g = Some (lv', se', g') \<and> level_ok w (lv_cfs lv')" by blast
next
  assume "cfs_curr (lv_cfs lv) = Some se \<and> pred_option (se_valid w) (cfs_curr (lv_cfs (update_curr sys rq lv)))"
  with put_prev_entity_ok [OF assms] show "\<exists>thr lv' se' g'. put_prev_entity sys rq lv se g = Some (thr, lv', se', g') \<and> level_ok w (lv_cfs lv')" by blast
qed

theorem fair_ops_total_witness:
  "\<exists>thr lv' se' g'. enqueue_entity example_sys (example_clock 5000000) example_level (new_task 1) None initial_flags = Some (thr, lv', se', g') \<and>
     level_ok 0 (lv_cfs lv')"
proof -
  have "se_id (new_task 1) \<notin> se_id ` set (queued (lv_cfs example_level))"
    using example_window(3) members_queued(2) [of "lv_cfs example_level"] by simp
  then show ?thesis
    using fair_ops_total [OF init_level_ok(1) [OF example_window(2,1), folded example_window(6)], where se = "new_task 1" and sys = example_sys and
        rq = "example_clock 5000000" and g = None and eflags = initial_flags] example_window(4,5) example_enqueue by (simp add: example_prep_def)
qed



text \<open>
  C11: Run time is neither lost nor counted twice.  However often and at whatever readings of the clock, in whatever order, the run time is updated,
  the current entity is charged the time from the start of its period to the latest reading; its virtual runtime advances by the same
  when it has nice level 0.
\<close>

theorem update_curr_time:
  assumes c: "cfs_curr (lv_cfs lv) = Some cur" and win: "in_window w (se_exec_start cur)" "\<forall>t \<in> set ts. in_window w t"
    and u: "is_u64 (se_sum_exec_runtime cur)" "is_u64 (se_vruntime cur)" and on: "se_on_rq cur"
  shows "\<exists>c. cfs_curr (lv_cfs (update_curr_at sys rq ts lv)) = Some c \<and> se_id c = se_id cur \<and>
    clock_off w (se_exec_start c) = Max (clock_off w ` insert (se_exec_start cur) (set ts)) \<and>
    se_sum_exec_runtime c = u64 (se_sum_exec_runtime cur + (clock_off w (se_exec_start c) - clock_off w (se_exec_start cur))) \<and>
    (weight (se_load cur) = NICE_0_LOAD \<longrightarrow>
      se_vruntime c = u64 (se_vruntime cur + (clock_off w (se_exec_start c) - clock_off w (se_exec_start cur))))"
  using assms
proof (induction ts arbitrary: lv cur)
  case Nil
  then show ?case by (simp add: update_curr_at_def u64_id)
next
  case (Cons t ts)
  define lv1 where "lv1 = update_curr sys (rq\<lparr>prq_clock_task := t\<rparr>) lv"
  have t: "in_window w t" "\<forall>t \<in> set ts. in_window w t" using Cons.prems(3) by simp_all
  from update_curr_at_step [OF Cons.prems(1,2) t(1) Cons.prems(4,5), of sys rq] obtain c1 where
    c1: "cfs_curr (lv_cfs lv1) = Some c1" "se_id c1 = se_id cur"
      "se_exec_start c1 = (if clock_off w (se_exec_start cur) < clock_off w t then t else se_exec_start cur)"
      "se_sum_exec_runtime c1 = u64 (se_sum_exec_runtime cur + (clock_off w (se_exec_start c1) - clock_off w (se_exec_start cur)))"
      "weight (se_load c1) = weight (se_load cur)" "se_on_rq c1"
      "weight (se_load cur) = NICE_0_LOAD \<Longrightarrow>
        se_vruntime c1 = u64 (se_vruntime cur + (clock_off w (se_exec_start c1) - clock_off w (se_exec_start cur)))"
      "is_u64 (se_vruntime c1)"
    unfolding lv1_def using Cons.prems(6) by blast
  have w1: "in_window w (se_exec_start c1)" "is_u64 (se_sum_exec_runtime c1)" using c1(3,4) t(1) Cons.prems(2) by auto
  from Cons.IH [OF c1(1) w1(1) t(2) w1(2) c1(8,6)] obtain c where
    c: "cfs_curr (lv_cfs (update_curr_at sys rq ts lv1)) = Some c" "se_id c = se_id c1"
      "clock_off w (se_exec_start c) = Max (clock_off w ` insert (se_exec_start c1) (set ts))"
      "se_sum_exec_runtime c = u64 (se_sum_exec_runtime c1 + (clock_off w (se_exec_start c) - clock_off w (se_exec_start c1)))"
      "weight (se_load c1) = NICE_0_LOAD \<longrightarrow> se_vruntime c = u64 (se_vruntime c1 + (clock_off w (se_exec_start c) - clock_off w (se_exec_start c1)))"
    by blast
  have "update_curr_at sys rq (t # ts) lv = update_curr_at sys rq ts lv1" by (simp add: update_curr_at_def lv1_def)
  moreover have "clock_off w (se_exec_start c1) = max (clock_off w (se_exec_start cur)) (clock_off w t)" using c1(3) by auto
  then have "clock_off w (se_exec_start c) = Max (clock_off w ` insert (se_exec_start cur) (set (t # ts)))"
    unfolding c(3) by (cases "ts = []") (auto simp: max.assoc)
  ultimately show ?case using c c1 by (intro exI [of _ c]) (simp add: cint_absorb add.assoc)
qed

theorem update_curr_time_witness:
  "\<exists>c. cfs_curr (lv_cfs (update_curr_at example_sys (example_clock 0) [500, 300, 900] (example_level\<lparr>lv_cfs := one_task_cfs\<lparr>cfs_curr := Some one_task\<rparr>\<rparr>))) = Some c \<and>
     se_sum_exec_runtime c = 900"
proof -
  have "in_window 0 (se_exec_start one_task)" "\<forall>t \<in> set [500, 300, 900]. in_window 0 t" "is_u64 (se_sum_exec_runtime one_task)"
    "is_u64 (se_vruntime one_task)" "se_on_rq one_task" by code_simp+
  note t = update_curr_time [OF _ this, of "example_level\<lparr>lv_cfs := one_task_cfs\<lparr>cfs_curr := Some one_task\<rparr>\<rparr>" example_sys "example_clock 0"]
  have "Max (clock_off 0 ` insert (se_exec_start one_task) (set [500, 300, 900])) = 900" "clock_off 0 (se_exec_start one_task) = 0"
    "se_sum_exec_runtime one_task = 0" "u64 (0 + (900 - 0)) = 900" by code_simp+
  with t show ?thesis by auto
qed

end
