(* ===== verification/Cpudl.thy ===== *)
theory Cpudl
  imports Sched_Prelude Simulation
begin

text \<open>
  The max-heap of the earliest deadlines of the CPUs (kernel/sched/cpudeadline.c), which the deadline class uses to push a task to
  the CPU whose running task has the latest deadline.

  The array \<open>elements\<close> holds two things: entry \<open>i\<close> below \<open>size\<close> is a node of the heap (\<open>dl\<close>, \<open>cpu\<close>), and entry \<open>c\<close> holds in
  \<open>idx\<close> the place of CPU \<open>c\<close> in the heap.  A write outside the array is \<open>None\<close>; entries are read below \<open>size\<close>, which the invariant
  keeps within the array.  The lock is left out: an operation runs alone.
\<close>

section \<open>Definitions\<close>

definition dl_time_before :: "int \<Rightarrow> int \<Rightarrow> bool" where
  "dl_time_before a b \<longleftrightarrow> s64 (u64 (a - b)) < 0"

definition IDX_INVALID :: int where
  "IDX_INVALID = - 1"

record cpudl_item =
  ci_dl :: int
  ci_cpu :: nat
  ci_idx :: int

record cpudl =
  cp_size :: nat
  free_cpus :: "nat set"
  elements :: "cpudl_item list"

abbreviation nr_cpus :: "cpudl \<Rightarrow> nat" where
  "nr_cpus cp \<equiv> length (elements cp)"

definition dl_at :: "cpudl \<Rightarrow> nat \<Rightarrow> int" where
  "dl_at cp i = ci_dl (elements cp ! i)"

definition cpu_at :: "cpudl \<Rightarrow> nat \<Rightarrow> nat" where
  "cpu_at cp i = ci_cpu (elements cp ! i)"

definition idx_at :: "cpudl \<Rightarrow> nat \<Rightarrow> int" where
  "idx_at cp c = ci_idx (elements cp ! c)"

definition parent :: "nat \<Rightarrow> nat" where
  "parent i = (i - 1) div 2"

definition left_child :: "nat \<Rightarrow> nat" where
  "left_child i = 2 * i + 1"

definition right_child :: "nat \<Rightarrow> nat" where
  "right_child i = 2 * i + 2"

text \<open>The three assignments that write a node and the place of its CPU.\<close>

definition cpudl_place :: "cpudl \<Rightarrow> nat \<Rightarrow> nat \<Rightarrow> int \<Rightarrow> cpudl option" where
  "cpudl_place cp i c d =
     (if i < nr_cpus cp \<and> c < nr_cpus cp then
        let es = (elements cp)[i := (elements cp ! i)\<lparr>ci_cpu := c, ci_dl := d\<rparr>];
            es = es[c := (es ! c)\<lparr>ci_idx := int i\<rparr>]
        in Some (cp\<lparr>elements := es\<rparr>)
      else None)"

lemma cpudl_place_size: "cpudl_place cp i c d = Some cp' \<Longrightarrow> cp_size cp' = cp_size cp"
  by (auto simp: cpudl_place_def Let_def split: if_splits)

text \<open>\<open>largest\<close> of one round of the loop.\<close>

definition cpudl_largest :: "cpudl \<Rightarrow> nat \<Rightarrow> int \<Rightarrow> nat" where
  "cpudl_largest cp idx orig_dl =
     (let l = left_child idx;
          r = right_child idx;
          (largest, largest_dl) = (if l < cp_size cp \<and> dl_time_before orig_dl (dl_at cp l)
                                   then (l, dl_at cp l) else (idx, orig_dl))
      in if r < cp_size cp \<and> dl_time_before largest_dl (dl_at cp r) then r else largest)"

lemma cpudl_largest_bounds:
  "cpudl_largest cp idx d \<noteq> idx \<Longrightarrow> idx < cpudl_largest cp idx d \<and> cpudl_largest cp idx d < cp_size cp"
  by (auto simp: cpudl_largest_def left_child_def right_child_def Let_def split: if_splits)

function cpudl_heapify_down_loop :: "cpudl \<Rightarrow> nat \<Rightarrow> nat \<Rightarrow> int \<Rightarrow> cpudl option" where
  "cpudl_heapify_down_loop cp idx orig_cpu orig_dl =
     (let largest = cpudl_largest cp idx orig_dl
      in if largest = idx then cpudl_place cp idx orig_cpu orig_dl
         else (case cpudl_place cp idx (cpu_at cp largest) (dl_at cp largest) of
                 None \<Rightarrow> None
               | Some cp \<Rightarrow> cpudl_heapify_down_loop cp largest orig_cpu orig_dl))"
  by pat_completeness auto
termination
  by (relation "measure (\<lambda>(cp, idx, _, _). cp_size cp - idx)")
    (simp, metis (no_types, lifting) cpudl_largest_bounds cpudl_place_size diff_less_mono2 less_trans case_prod_conv in_measure)

function cpudl_heapify_up_loop :: "cpudl \<Rightarrow> nat \<Rightarrow> nat \<Rightarrow> int \<Rightarrow> cpudl option" where
  "cpudl_heapify_up_loop cp idx orig_cpu orig_dl =
     (let p = parent idx
      in if dl_time_before orig_dl (dl_at cp p) then cpudl_place cp idx orig_cpu orig_dl
         else (case cpudl_place cp idx (cpu_at cp p) (dl_at cp p) of
                 None \<Rightarrow> None
               | Some cp \<Rightarrow> if p \<noteq> 0 then cpudl_heapify_up_loop cp p orig_cpu orig_dl
                            else cpudl_place cp p orig_cpu orig_dl))"
  by pat_completeness auto
termination
  by (relation "measure (\<lambda>(cp, idx, _, _). idx)") (auto simp: parent_def)

declare cpudl_heapify_down_loop.simps [simp del] cpudl_heapify_up_loop.simps [simp del]

definition cpudl_heapify_down :: "cpudl \<Rightarrow> nat \<Rightarrow> cpudl option" where
  "cpudl_heapify_down cp idx =
     (if left_child idx \<ge> cp_size cp then Some cp
      else cpudl_heapify_down_loop cp idx (cpu_at cp idx) (dl_at cp idx))"

definition cpudl_heapify_up :: "cpudl \<Rightarrow> nat \<Rightarrow> cpudl option" where
  "cpudl_heapify_up cp idx =
     (if idx = 0 then Some cp else cpudl_heapify_up_loop cp idx (cpu_at cp idx) (dl_at cp idx))"

definition cpudl_heapify :: "cpudl \<Rightarrow> nat \<Rightarrow> cpudl option" where
  "cpudl_heapify cp idx =
     (if idx > 0 \<and> dl_time_before (dl_at cp (parent idx)) (dl_at cp idx)
      then cpudl_heapify_up cp idx else cpudl_heapify_down cp idx)"

definition cpudl_maximum :: "cpudl \<Rightarrow> nat" where
  "cpudl_maximum cp = cpu_at cp 0"

definition set_idx :: "cpudl \<Rightarrow> nat \<Rightarrow> int \<Rightarrow> cpudl" where
  "set_idx cp c i = cp\<lparr>elements := (elements cp)[c := (elements cp ! c)\<lparr>ci_idx := i\<rparr>]\<rparr>"

definition cpudl_clear :: "cpudl \<Rightarrow> nat \<Rightarrow> cpudl option" where
  "cpudl_clear cp cpu =
     (if cpu \<ge> nr_cpus cp then None
      else if idx_at cp cpu = IDX_INVALID then Some cp
      else
        let old_idx = nat (idx_at cp cpu);
            new_cpu = cpu_at cp (cp_size cp - 1)
        in case cpudl_place cp old_idx new_cpu (dl_at cp (cp_size cp - 1)) of
             None \<Rightarrow> None
           | Some cp \<Rightarrow>
               let cp = set_idx (cp\<lparr>cp_size := cp_size cp - 1\<rparr>) cpu IDX_INVALID
               in map_option (\<lambda>cp. cp\<lparr>free_cpus := insert cpu (free_cpus cp)\<rparr>) (cpudl_heapify cp old_idx))"

definition cpudl_set :: "cpudl \<Rightarrow> nat \<Rightarrow> int \<Rightarrow> cpudl option" where
  "cpudl_set cp cpu dl =
     (if cpu \<ge> nr_cpus cp then None
      else if idx_at cp cpu = IDX_INVALID then
        let new_idx = cp_size cp
        in case cpudl_place (cp\<lparr>cp_size := cp_size cp + 1\<rparr>) new_idx cpu dl of
             None \<Rightarrow> None
           | Some cp \<Rightarrow>
               map_option (\<lambda>cp. cp\<lparr>free_cpus := free_cpus cp - {cpu}\<rparr>) (cpudl_heapify_up cp new_idx)
      else
        let old_idx = nat (idx_at cp cpu);
            cp = cp\<lparr>elements := (elements cp)[old_idx := (elements cp ! old_idx)\<lparr>ci_dl := dl\<rparr>]\<rparr>
        in cpudl_heapify cp old_idx)"

definition cpudl_set_freecpu :: "cpudl \<Rightarrow> nat \<Rightarrow> cpudl" where
  "cpudl_set_freecpu cp cpu = cp\<lparr>free_cpus := insert cpu (free_cpus cp)\<rparr>"

definition cpudl_clear_freecpu :: "cpudl \<Rightarrow> nat \<Rightarrow> cpudl" where
  "cpudl_clear_freecpu cp cpu = cp\<lparr>free_cpus := free_cpus cp - {cpu}\<rparr>"

text \<open>
  \<open>mem\<close> says which of the two allocations succeed; a failure is \<open>-ENOMEM\<close>, here \<open>None\<close>.  \<open>possible\<close> is the mask of the possible
  CPUs; \<open>kcalloc\<close> zeroes the array.
\<close>

definition cpudl_init :: "bool \<times> bool \<Rightarrow> nat \<Rightarrow> nat set \<Rightarrow> cpudl option" where
  "cpudl_init mem nr_cpu_ids possible =
     (if \<not> fst mem then None
      else if \<not> snd mem then None
      else Some \<lparr>cp_size = 0, free_cpus = {},
             elements = map (\<lambda>i. \<lparr>ci_dl = 0, ci_cpu = 0, ci_idx = if i \<in> possible then IDX_INVALID else 0\<rparr>) [0..<nr_cpu_ids]\<rparr>)"

text \<open>A task of the deadline class, and the capacities of the CPUs.\<close>

record dl_task =
  dt_deadline :: int
  dt_density :: int
  dt_cpus_mask :: "nat set"
  dt_cpu :: nat

record cpu_caps =
  asym_cpucap_active :: bool
  arch_scale_cpu_capacity :: "nat \<Rightarrow> int"
  capacity_orig_of :: "nat \<Rightarrow> int"

definition dl_task_fits_capacity :: "cpu_caps \<Rightarrow> dl_task \<Rightarrow> nat \<Rightarrow> bool" where
  "dl_task_fits_capacity caps p cpu \<longleftrightarrow> arch_scale_cpu_capacity caps cpu \<ge> shr (dt_density p) (20 - 10)"

text \<open>
  The loop over the CPUs of the mask; a CPU is cleared when the loop is at it, so the loop sees every CPU of the mask it starts with.
  \<open>max_cpu\<close> starts at \<open>-1\<close>, here \<open>None\<close>.
\<close>

primrec fit_loop ::
    "cpu_caps \<Rightarrow> dl_task \<Rightarrow> nat list \<Rightarrow> nat set \<times> int \<times> nat option \<Rightarrow> nat set \<times> int \<times> nat option" where
  "fit_loop caps p [] s = s"
| "fit_loop caps p (cpu # cpus) s =
     fit_loop caps p cpus
       (case s of (later_mask, max_cap, max_cpu) \<Rightarrow>
          if \<not> dl_task_fits_capacity caps p cpu then
            let cap = capacity_orig_of caps cpu
            in if cap > max_cap \<or> (cpu = dt_cpu p \<and> cap = max_cap)
               then (later_mask - {cpu}, cap, Some cpu) else (later_mask - {cpu}, max_cap, max_cpu)
          else s)"

text \<open>
  \<open>later_mask\<close> is \<open>None\<close> for a NULL pointer; the result is the return value and the mask.  The whole result is \<open>None\<close> where
  CPU \<open>-1\<close> would be set in the mask.
\<close>

definition cpudl_find :: "cpu_caps \<Rightarrow> cpudl \<Rightarrow> dl_task \<Rightarrow> nat set option \<Rightarrow> (bool \<times> nat set option) option" where
  "cpudl_find caps cp p later_mask =
     (let later_mask = map_option (\<lambda>_. free_cpus cp \<inter> dt_cpus_mask p) later_mask in
      case later_mask of
        Some m \<Rightarrow>
          if m \<noteq> {} then
            if \<not> asym_cpucap_active caps then Some (True, Some m)
            else
              let (m, max_cap, max_cpu) = fit_loop caps p (filter (\<lambda>c. c \<in> m) [0..<nr_cpus cp]) (m, 0, None)
              in if m = {} then map_option (\<lambda>c. (True, Some {c})) max_cpu else Some (True, Some m)
          else
            let best_cpu = cpudl_maximum cp in
            if best_cpu \<in> dt_cpus_mask p \<and> dl_time_before (dt_deadline p) (dl_at cp 0)
            then Some (True, Some (insert best_cpu m)) else Some (False, Some m)
      | None \<Rightarrow>
          let best_cpu = cpudl_maximum cp in
          if best_cpu \<in> dt_cpus_mask p \<and> dl_time_before (dt_deadline p) (dl_at cp 0)
          then Some (True, None) else Some (False, None))"

end
