(* ===== verification/Cpudl_Props.thy ===== *)
theory Cpudl_Props
  imports Cpudl
begin

text \<open>
  The heap of deadlines: the agreement of its nodes with the places of the CPUs, the two sift loops as swaps of nodes, and the operations
  as those of a map from CPUs to deadlines.
\<close>

section \<open>Invariant\<close>

text \<open>
  The places and the nodes agree: the \<open>idx\<close> of a possible CPU is its place in the heap or \<open>IDX_INVALID\<close>.
\<close>

definition places_ok :: "nat set \<Rightarrow> cpudl \<Rightarrow> bool" where
  "places_ok possible cp \<longleftrightarrow> possible \<subseteq> {..<nr_cpus cp} \<and> cp_size cp \<le> nr_cpus cp \<and>
     (\<forall>i<cp_size cp. cpu_at cp i \<in> possible \<and> idx_at cp (cpu_at cp i) = int i) \<and>
     (\<forall>c\<in>possible. idx_at cp c \<noteq> IDX_INVALID \<longrightarrow> (\<exists>i<cp_size cp. idx_at cp c = int i \<and> cpu_at cp i = c))"

definition heap_except :: "int \<Rightarrow> cpudl \<Rightarrow> (nat \<Rightarrow> bool) \<Rightarrow> bool" where
  "heap_except w cp X \<longleftrightarrow> (\<forall>i<cp_size cp. in_window w (dl_at cp i)) \<and>
     (\<forall>i<cp_size cp. 0 < i \<longrightarrow> \<not> X i \<longrightarrow> clock_off w (dl_at cp i) \<le> clock_off w (dl_at cp (parent i)))"

definition over_hole :: "int \<Rightarrow> cpudl \<Rightarrow> nat \<Rightarrow> bool" where
  "over_hole w cp k \<longleftrightarrow> (\<forall>i<cp_size cp. 0 < i \<longrightarrow> parent i = k \<longrightarrow> 0 < k \<longrightarrow>
     clock_off w (dl_at cp i) \<le> clock_off w (dl_at cp (parent k)))"

definition cpudl_ok :: "nat set \<Rightarrow> int \<Rightarrow> cpudl \<Rightarrow> bool" where
  "cpudl_ok possible w cp \<longleftrightarrow> places_ok possible cp \<and> heap_except w cp (\<lambda>_. False)"

definition deadline_of :: "nat set \<Rightarrow> cpudl \<Rightarrow> nat \<Rightarrow> int option" where
  "deadline_of possible cp c =
     (if c \<in> possible \<and> idx_at cp c \<noteq> IDX_INVALID then Some (dl_at cp (nat (idx_at cp c))) else None)"

section \<open>Writing a node\<close>

lemma place_SomeD:
  assumes "cpudl_place cp i c d = Some P"
  shows "i < nr_cpus cp" "c < nr_cpus cp" "nr_cpus P = nr_cpus cp" "cp_size P = cp_size cp" "free_cpus P = free_cpus cp"
    "dl_at P j = (if j = i then d else dl_at cp j)"
    "cpu_at P j = (if j = i then c else cpu_at cp j)"
    "idx_at P j = (if j = c then int i else idx_at cp j)"
  using assms by (auto simp: cpudl_place_def Let_def dl_at_def cpu_at_def idx_at_def nth_list_update split: if_splits)

lemma place_Some: "i < nr_cpus cp \<Longrightarrow> c < nr_cpus cp \<Longrightarrow> \<exists>P. cpudl_place cp i c d = Some P"
  by (simp add: cpudl_place_def Let_def)

lemma item_eqI: "ci_dl x = ci_dl y \<Longrightarrow> ci_cpu x = ci_cpu y \<Longrightarrow> ci_idx x = ci_idx y \<Longrightarrow> x = (y :: cpudl_item)"
  by simp

lemma place_same:
  assumes "i < nr_cpus cp" "cpu_at cp i < nr_cpus cp" "idx_at cp (cpu_at cp i) = int i"
  shows "cpudl_place cp i (cpu_at cp i) (dl_at cp i) = Some cp"
proof -
  have "(elements cp ! cpu_at cp i)\<lparr>ci_idx := int i\<rparr> = elements cp ! cpu_at cp i"
    by (rule item_eqI) (use assms in \<open>simp_all add: idx_at_def\<close>)
  moreover have "(elements cp ! i)\<lparr>ci_cpu := cpu_at cp i, ci_dl := dl_at cp i\<rparr> = elements cp ! i"
    by (rule item_eqI) (simp_all add: cpu_at_def dl_at_def)
  ultimately show ?thesis using assms by (simp add: cpudl_place_def Let_def)
qed

lemma places_inj:
  assumes "places_ok possible cp" "i < cp_size cp" "j < cp_size cp"
  shows "cpu_at cp i = cpu_at cp j \<longleftrightarrow> i = j"
proof -
  have "idx_at cp (cpu_at cp i) = int i" "idx_at cp (cpu_at cp j) = int j" using assms unfolding places_ok_def by blast+
  then show ?thesis by (metis of_nat_eq_iff)
qed

text \<open>Two nodes change places; the deadlines of the CPUs stay.\<close>

lemma places_swap:
  assumes ok: "places_ok possible P" and j: "j < cp_size P" "k < cp_size P" "j \<noteq> k" and s: "cp_size P' = cp_size P" "nr_cpus P' = nr_cpus P"
    and v: "\<And>i. dl_at P' i = (if i = k then dl_at P j else if i = j then dl_at P k else dl_at P i)"
    "\<And>i. cpu_at P' i = (if i = k then cpu_at P j else if i = j then cpu_at P k else cpu_at P i)"
    "\<And>i. idx_at P' i = (if i = cpu_at P j then int k else if i = cpu_at P k then int j else idx_at P i)"
  shows "places_ok possible P'" "deadline_of possible P' = deadline_of possible P"
proof -
  note inj = places_inj [OF ok]
  have o: "\<And>i. i < cp_size P \<Longrightarrow> cpu_at P i \<in> possible \<and> idx_at P (cpu_at P i) = int i"
    "\<And>c. c \<in> possible \<Longrightarrow> idx_at P c \<noteq> IDX_INVALID \<Longrightarrow> \<exists>i<cp_size P. idx_at P c = int i \<and> cpu_at P i = c"
    "possible \<subseteq> {..<nr_cpus P}" "cp_size P \<le> nr_cpus P" using ok unfolding places_ok_def by blast+
  have "cpu_at P' i \<in> possible \<and> idx_at P' (cpu_at P' i) = int i" if "i < cp_size P" for i
    using that o(1) j inj [of i] inj [OF j(1,2)] by (auto simp: v)
  moreover have "\<exists>i<cp_size P. idx_at P' c = int i \<and> cpu_at P' i = c" if c: "c \<in> possible" "idx_at P' c \<noteq> IDX_INVALID" for c
  proof (cases "c = cpu_at P j \<or> c = cpu_at P k")
    case True
    then show ?thesis using j inj [OF j(1,2)] by (auto simp: v)
  next
    case False
    with c have "idx_at P c \<noteq> IDX_INVALID" by (simp add: v)
    from o(2) [OF c(1) this] False show ?thesis by (auto simp: v)
  qed
  ultimately show "places_ok possible P'" using o(3,4) by (auto simp: places_ok_def s)
  show "deadline_of possible P' = deadline_of possible P"
  proof
    fix c
    show "deadline_of possible P' c = deadline_of possible P c"
    proof (cases "c = cpu_at P j \<or> c = cpu_at P k")
      case True
      then show ?thesis using j inj [OF j(1,2)] o(1) by (elim disjE) (simp_all add: deadline_of_def v IDX_INVALID_def)
    next
      case False
      then have "idx_at P c = int i \<Longrightarrow> cpu_at P i = c \<Longrightarrow> dl_at P' i = dl_at P i" for i by (auto simp: v)
      moreover from False have "idx_at P' c = idx_at P c" by (simp add: v)
      ultimately show ?thesis using o(2) [of c] by (cases "c \<in> possible \<and> idx_at P c \<noteq> IDX_INVALID") (auto simp: deadline_of_def)
    qed
  qed
qed

text \<open>
  One round of a sift loop: with the saved node put in the hole before and after the round, the round swaps two nodes.
\<close>

lemma place_pull:
  assumes P: "cpudl_place cp k c d = Some P" and ok: "places_ok possible P" and j: "j < cp_size P" "k < cp_size P" "j \<noteq> k"
  obtains Q P' where "cpudl_place cp k (cpu_at cp j) (dl_at cp j) = Some Q" "cpudl_place Q j c d = Some P'"
    "places_ok possible P'" "deadline_of possible P' = deadline_of possible P" "cp_size P' = cp_size P" "free_cpus P' = free_cpus P"
    "nr_cpus P' = nr_cpus P" "cp_size Q = cp_size cp"
    "\<And>i. dl_at P' i = (if i = k then dl_at P j else if i = j then dl_at P k else dl_at P i)"
proof -
  note p = place_SomeD [OF P]
  have b: "k < nr_cpus cp" "j < nr_cpus cp" "cpu_at cp j < nr_cpus cp" "c < nr_cpus cp"
    using ok j p by (auto simp: places_ok_def)
  obtain Q where Q: "cpudl_place cp k (cpu_at cp j) (dl_at cp j) = Some Q" using place_Some [OF b(1,3)] by blast
  note q = place_SomeD [OF Q]
  obtain P' where P': "cpudl_place Q j c d = Some P'" using place_Some [of j Q c d] q b by auto
  note p' = place_SomeD [OF P']
  have ne: "cpu_at cp j \<noteq> c"
  proof -
    have "idx_at P (cpu_at P j) = int j" "idx_at P (cpu_at P k) = int k" using ok j by (auto simp: places_ok_def)
    then show ?thesis using j(3) p by auto
  qed
  have v: "dl_at P' i = (if i = k then dl_at P j else if i = j then dl_at P k else dl_at P i)"
    "cpu_at P' i = (if i = k then cpu_at P j else if i = j then cpu_at P k else cpu_at P i)"
    "idx_at P' i = (if i = cpu_at P j then int k else if i = cpu_at P k then int j else idx_at P i)" for i
    using j ne by (auto simp: p p' q)
  have s: "cp_size P' = cp_size P" "nr_cpus P' = nr_cpus P" by (simp_all add: p p' q)
  show thesis
    using that [OF Q P' places_swap [OF ok j s v] s(1) _ s(2) q(4) v(1)] by (simp add: p p' q)
qed

section \<open>The sift loops\<close>

lemma before_off: "in_window w a \<Longrightarrow> in_window w b \<Longrightarrow> dl_time_before a b \<longleftrightarrow> clock_off w a < clock_off w b"
  by (simp add: dl_time_before_def s64_u64 window_diff [of w])

lemma parent_less: "0 < i \<Longrightarrow> parent i < i"
  by (simp add: parent_def)

lemma parent_child: "0 < i \<Longrightarrow> parent i = k \<longleftrightarrow> i = left_child k \<or> i = right_child k"
  by (auto simp: parent_def left_child_def right_child_def)

definition sift_result :: "nat set \<Rightarrow> int \<Rightarrow> cpudl \<Rightarrow> cpudl option \<Rightarrow> bool" where
  "sift_result possible w P res \<longleftrightarrow> (\<exists>cp. res = Some cp \<and> cpudl_ok possible w cp \<and> deadline_of possible cp = deadline_of possible P \<and>
     nr_cpus cp = nr_cpus P \<and> cp_size cp = cp_size P \<and> free_cpus cp = free_cpus P)"

lemma largest_child:
  assumes "k < cp_size cp" "\<And>i. i < cp_size cp \<Longrightarrow> i \<noteq> k \<Longrightarrow> in_window w (dl_at cp i)" "in_window w d" and n: "n = cpudl_largest cp k d"
  shows "n < cp_size cp" "n = k \<or> (0 < n \<and> parent n = k)" "n \<noteq> k \<longrightarrow> clock_off w d \<le> clock_off w (dl_at cp n)"
    "\<And>i. i < cp_size cp \<Longrightarrow> 0 < i \<Longrightarrow> parent i = k \<Longrightarrow> clock_off w (dl_at cp i) \<le> clock_off w (if n = k then d else dl_at cp n)"
proof -
  have c: "left_child k \<noteq> k" "right_child k \<noteq> k" "left_child k \<noteq> right_child k" "0 < left_child k" "0 < right_child k"
    by (simp_all add: left_child_def right_child_def)
  have b: "left_child k < cp_size cp \<Longrightarrow> dl_time_before d (dl_at cp (left_child k)) \<longleftrightarrow> clock_off w d < clock_off w (dl_at cp (left_child k))"
    "right_child k < cp_size cp \<Longrightarrow> dl_time_before d (dl_at cp (right_child k)) \<longleftrightarrow> clock_off w d < clock_off w (dl_at cp (right_child k))"
    "left_child k < cp_size cp \<Longrightarrow> right_child k < cp_size cp \<Longrightarrow> dl_time_before (dl_at cp (left_child k)) (dl_at cp (right_child k)) \<longleftrightarrow>
      clock_off w (dl_at cp (left_child k)) < clock_off w (dl_at cp (right_child k))"
    using assms(2,3) c by (simp_all add: before_off)
  have pc: "parent (left_child k) = k" "parent (right_child k) = k" using parent_child c by blast+
  show "n < cp_size cp" "n = k \<or> (0 < n \<and> parent n = k)" "n \<noteq> k \<longrightarrow> clock_off w d \<le> clock_off w (dl_at cp n)"
    using assms(1) b c pc unfolding n cpudl_largest_def Let_def by (auto split: if_splits)
  show "clock_off w (dl_at cp i) \<le> clock_off w (if n = k then d else dl_at cp n)" if "i < cp_size cp" "0 < i" "parent i = k" for i
  proof -
    have "i = left_child k \<or> i = right_child k" using that parent_child by blast
    then show ?thesis using that(1) b c unfolding n cpudl_largest_def Let_def by (auto split: if_splits)
  qed
qed

lemma heap_exceptD:
  assumes "heap_except w cp X" "i < cp_size cp"
  shows "in_window w (dl_at cp i)" "0 < i \<Longrightarrow> \<not> X i \<Longrightarrow> clock_off w (dl_at cp i) \<le> clock_off w (dl_at cp (parent i))"
  using assms by (auto simp: heap_except_def)

text \<open>A node moves down past its largest child.\<close>

lemma sift_down:
  assumes h: "heap_except w P (\<lambda>i. parent i = k)" "over_hole w P k" and k: "k < cp_size P"
    and n: "n < cp_size P" "0 < n" "parent n = k" "clock_off w (dl_at P k) \<le> clock_off w (dl_at P n)"
      "\<And>i. i < cp_size P \<Longrightarrow> 0 < i \<Longrightarrow> parent i = k \<Longrightarrow> clock_off w (dl_at P i) \<le> clock_off w (dl_at P n)"
    and s: "cp_size P' = cp_size P" "\<And>i. dl_at P' i = (if i = k then dl_at P n else if i = n then dl_at P k else dl_at P i)"
  shows "heap_except w P' (\<lambda>i. parent i = n)" "over_hole w P' n"
proof -
  have nk: "k < n" using parent_less [OF n(2)] n(3) by simp
  have "clock_off w (dl_at P' i) \<le> clock_off w (dl_at P' (parent i))" if i: "i < cp_size P" "0 < i" "parent i \<noteq> n" for i
  proof (cases "parent i = k")
    case True
    then show ?thesis using n(4,5) i parent_less [OF i(2)] nk by (auto simp: s)
  next
    case False
    with heap_exceptD(2) [OF h(1) i(1,2)] have "clock_off w (dl_at P i) \<le> clock_off w (dl_at P (parent i))" by blast
    moreover have "clock_off w (dl_at P n) \<le> clock_off w (dl_at P (parent k))" if "0 < k"
      using h(2) n(1-3) that by (auto simp: over_hole_def)
    ultimately show ?thesis using False i n(3) by (auto simp: s)
  qed
  moreover have "in_window w (dl_at P' i)" if "i < cp_size P" for i
    using heap_exceptD(1) [OF h(1)] that k n(1) by (simp add: s)
  ultimately show "heap_except w P' (\<lambda>i. parent i = n)" by (simp add: heap_except_def s)
  have "clock_off w (dl_at P i) \<le> clock_off w (dl_at P n)" if "i < cp_size P" "0 < i" "parent i = n" for i
    using heap_exceptD(2) [OF h(1) that(1,2)] that nk by auto
  then show "over_hole w P' n" using nk parent_less by (auto simp: over_hole_def s n(3))
qed

lemma down_loop_ok:
  assumes "cpudl_place cp k c d = Some P" "places_ok possible P" "k < cp_size P" "heap_except w P (\<lambda>i. parent i = k)" "over_hole w P k"
  shows "sift_result possible w P (cpudl_heapify_down_loop cp k c d)"
  using assms
proof (induction cp k c d arbitrary: P rule: cpudl_heapify_down_loop.induct)
  case (1 cp k c d)
  note p = place_SomeD [OF "1.prems"(1)] and win = heap_exceptD(1) [OF "1.prems"(4)]
  define n where "n = cpudl_largest cp k d"
  have w: "\<And>i. i < cp_size cp \<Longrightarrow> i \<noteq> k \<Longrightarrow> in_window w (dl_at cp i)" "in_window w d" "k < cp_size cp"
    using win p(4,6) "1.prems"(3) by (metis, metis, simp)
  note lc = largest_child [OF w(3,1,2) n_def]
  note step = cpudl_heapify_down_loop.simps [of cp k c d, folded n_def, unfolded Let_def]
  have hc: "clock_off w (dl_at P i) \<le> clock_off w (dl_at P n)" if i: "i < cp_size P" "0 < i" "parent i = k" for i
    using lc(4) [of i] i parent_less [OF i(2)] by (auto simp: p(4,6))
  show ?case
  proof (cases "n = k")
    case True
    have "heap_except w P (\<lambda>_. False)"
      unfolding heap_except_def using hc win heap_exceptD(2) [OF "1.prems"(4)] True by blast
    then show ?thesis using "1.prems" True by (simp add: step sift_result_def cpudl_ok_def)
  next
    case False
    have n: "n < cp_size P" "0 < n" "parent n = k" "clock_off w (dl_at P k) \<le> clock_off w (dl_at P n)"
      using lc(1-3) False by (auto simp: p(4,6))
    obtain Q P' where Q: "cpudl_place cp k (cpu_at cp n) (dl_at cp n) = Some Q" "cpudl_place Q n c d = Some P'"
      "places_ok possible P'" "deadline_of possible P' = deadline_of possible P" "cp_size P' = cp_size P" "free_cpus P' = free_cpus P"
      "nr_cpus P' = nr_cpus P" "cp_size Q = cp_size cp"
      "\<And>i. dl_at P' i = (if i = k then dl_at P n else if i = n then dl_at P k else dl_at P i)"
      by (rule place_pull [OF "1.prems"(1,2) n(1) "1.prems"(3) False]) (rule that; assumption)
    note sd = sift_down [OF "1.prems"(4,5,3) n hc Q(5,9)]
    have "n < cp_size P'" using n(1) Q(5) by simp
    from "1.IH" [OF n_def False Q(1,2,3) this sd] have "sift_result possible w P' (cpudl_heapify_down_loop Q n c d)" .
    then show ?thesis using False Q(1,4-7) by (simp add: step sift_result_def)
  qed
qed

text \<open>A node moves up past its parent.\<close>

lemma sift_up:
  assumes h: "heap_except w P (\<lambda>i. i = k)" "over_hole w P k" and k: "k < cp_size P" "0 < k"
    and n: "clock_off w (dl_at P (parent k)) \<le> clock_off w (dl_at P k)"
    and s: "cp_size P' = cp_size P" "\<And>i. dl_at P' i = (if i = k then dl_at P (parent k) else if i = parent k then dl_at P k else dl_at P i)"
  shows "heap_except w P' (\<lambda>i. i = parent k)" "over_hole w P' (parent k)"
proof -
  have pk: "parent k < k" using parent_less [OF k(2)] .
  have up: "clock_off w (dl_at P i) \<le> clock_off w (dl_at P (parent i))" if "i < cp_size P" "0 < i" "i \<noteq> k" for i
    using heap_exceptD(2) [OF h(1) that(1,2)] that(3) by blast
  have "clock_off w (dl_at P' i) \<le> clock_off w (dl_at P' (parent i))" if i: "i < cp_size P" "0 < i" "i \<noteq> parent k" for i
  proof -
    have p: "parent i < i" using parent_less [OF i(2)] .
    consider "i = k" | "i \<noteq> k" "parent i = k" | "i \<noteq> k" "parent i = parent k" | "i \<noteq> k" "parent i \<noteq> k" "parent i \<noteq> parent k" by blast
    then show ?thesis
    proof cases
      case 2
      then show ?thesis using h(2) i k pk by (auto simp: s over_hole_def)
    qed (use up [OF i(1,2)] n i p pk in \<open>auto simp: s\<close>)
  qed
  moreover have "in_window w (dl_at P' i)" if "i < cp_size P" for i
    using heap_exceptD(1) [OF h(1)] that k pk by (simp add: s)
  ultimately show "heap_except w P' (\<lambda>i. i = parent k)" by (simp add: heap_except_def s)
  have "clock_off w (dl_at P' i) \<le> clock_off w (dl_at P' (parent (parent k)))" if i: "i < cp_size P" "0 < i" "parent i = parent k" "0 < parent k" for i
  proof -
    have p: "parent i < i" "parent (parent k) < parent k" using parent_less [OF i(2)] parent_less [OF i(4)] by simp_all
    have "clock_off w (dl_at P (parent k)) \<le> clock_off w (dl_at P (parent (parent k)))" using up [of "parent k"] i k pk by simp
    then show ?thesis using up [OF i(1,2)] i p pk by (auto simp: s)
  qed
  then show "over_hole w P' (parent k)" by (simp add: over_hole_def s)
qed

lemma up_loop_ok:
  assumes "cpudl_place cp k c d = Some P" "places_ok possible P" "k < cp_size P" "0 < k" "heap_except w P (\<lambda>i. i = k)" "over_hole w P k"
  shows "sift_result possible w P (cpudl_heapify_up_loop cp k c d)"
  using assms
proof (induction cp k c d arbitrary: P rule: cpudl_heapify_up_loop.induct)
  case (1 cp k c d)
  note p = place_SomeD [OF "1.prems"(1)] and win = heap_exceptD(1) [OF "1.prems"(5)]
  define n where "n = parent k"
  have n: "n < k" "n < cp_size P" using parent_less [OF "1.prems"(4)] "1.prems"(3) by (simp_all add: n_def)
  have b: "dl_time_before d (dl_at cp n) \<longleftrightarrow> clock_off w (dl_at P k) < clock_off w (dl_at P n)"
    using before_off [OF win [OF "1.prems"(3)] win [OF n(2)]] n by (simp add: p(6))
  note step = cpudl_heapify_up_loop.simps [of cp k c d, folded n_def, unfolded Let_def b]
  show ?case
  proof (cases "clock_off w (dl_at P k) < clock_off w (dl_at P n)")
    case True
    then have "heap_except w P (\<lambda>_. False)"
      unfolding heap_except_def using win heap_exceptD(2) [OF "1.prems"(5)] n_def by (metis less_imp_le)
    then show ?thesis using "1.prems" True by (simp add: step sift_result_def cpudl_ok_def)
  next
    case False
    have "n \<noteq> k" using n(1) by simp
    obtain Q P' where Q: "cpudl_place cp k (cpu_at cp n) (dl_at cp n) = Some Q" "cpudl_place Q n c d = Some P'"
      "places_ok possible P'" "deadline_of possible P' = deadline_of possible P" "cp_size P' = cp_size P" "free_cpus P' = free_cpus P"
      "nr_cpus P' = nr_cpus P" "cp_size Q = cp_size cp"
      "\<And>i. dl_at P' i = (if i = k then dl_at P n else if i = n then dl_at P k else dl_at P i)"
      by (rule place_pull [OF "1.prems"(1,2) n(2) "1.prems"(3) \<open>n \<noteq> k\<close>]) (rule that; assumption)
    have "clock_off w (dl_at P n) \<le> clock_off w (dl_at P k)" using False by simp
    note su = sift_up [OF "1.prems"(5,6,3,4) this [unfolded n_def] Q(5) Q(9) [unfolded n_def], folded n_def]
    have n': "n < cp_size P'" using n(2) Q(5) by simp
    have "sift_result possible w P' (if n \<noteq> 0 then cpudl_heapify_up_loop Q n c d else cpudl_place Q n c d)"
    proof (cases "n = 0")
      case True
      then have "heap_except w P' (\<lambda>_. False)" using su(1) by (simp add: heap_except_def)
      then show ?thesis using True Q(2,3) by (simp add: sift_result_def cpudl_ok_def)
    next
      case False
      have nb: "\<not> dl_time_before d (dl_at cp n)" using \<open>\<not> clock_off w (dl_at P k) < clock_off w (dl_at P n)\<close> b by simp
      from "1.IH" [OF n_def nb Q(1) _ Q(2,3) n' _ su] False show ?thesis by simp
    qed
    then show ?thesis using False Q(1,4-7) by (simp add: step sift_result_def)
  qed
qed

lemma places_okD:
  assumes "places_ok possible cp"
  shows "possible \<subseteq> {..<nr_cpus cp}" "cp_size cp \<le> nr_cpus cp"
    "i < cp_size cp \<Longrightarrow> cpu_at cp i \<in> possible" "i < cp_size cp \<Longrightarrow> idx_at cp (cpu_at cp i) = int i"
  using assms unfolding places_ok_def by blast+

lemma heapify_ok:
  assumes ok: "places_ok possible cp" "k < cp_size cp" and h: "heap_except w cp (\<lambda>i. i = k \<or> parent i = k)" "over_hole w cp k"
  shows "sift_result possible w cp (cpudl_heapify cp k)"
proof -
  note win = heap_exceptD(1) [OF h(1)] and up = heap_exceptD(2) [OF h(1)]
  have b: "k < nr_cpus cp" "cpu_at cp k < nr_cpus cp" "idx_at cp (cpu_at cp k) = int k"
    using places_okD [OF ok(1)] ok(2) by auto
  note same = place_same [OF b]
  show ?thesis
  proof (cases "k > 0 \<and> dl_time_before (dl_at cp (parent k)) (dl_at cp k)")
    case True
    then have k: "0 < k" by simp
    have pk: "parent k < cp_size cp" using parent_less [OF k] ok(2) by simp
    from True before_off [OF win [OF pk] win [OF ok(2)]] have "clock_off w (dl_at cp (parent k)) < clock_off w (dl_at cp k)" by simp
    moreover have "clock_off w (dl_at cp i) \<le> clock_off w (dl_at cp (parent k))" if "i < cp_size cp" "0 < i" "parent i = k" for i
      using h(2) that k unfolding over_hole_def by blast
    ultimately have "clock_off w (dl_at cp i) \<le> clock_off w (dl_at cp (parent i))" if "i < cp_size cp" "0 < i" "i \<noteq> k" for i
      using up [OF that(1,2)] that by force
    then have "heap_except w cp (\<lambda>i. i = k)" using win unfolding heap_except_def by blast
    from up_loop_ok [OF same ok k this h(2)] show ?thesis using True k by (simp add: cpudl_heapify_def cpudl_heapify_up_def)
  next
    case False
    have "clock_off w (dl_at cp k) \<le> clock_off w (dl_at cp (parent k))" if k: "0 < k"
    proof -
      have pk: "parent k < cp_size cp" using parent_less [OF k] ok(2) by simp
      from False k before_off [OF win [OF pk] win [OF ok(2)]] show ?thesis by simp
    qed
    then have "clock_off w (dl_at cp i) \<le> clock_off w (dl_at cp (parent i))" if "i < cp_size cp" "0 < i" "parent i \<noteq> k" for i
      using up [OF that(1,2)] that by (cases "i = k") simp_all
    then have d: "heap_except w cp (\<lambda>i. parent i = k)" using win by (simp add: heap_except_def)
    show ?thesis
    proof (cases "left_child k \<ge> cp_size cp")
      case True
      have "parent i \<noteq> k" if "i < cp_size cp" "0 < i" for i
        using that True parent_child [of i k] by (auto simp: left_child_def right_child_def)
      then have "heap_except w cp (\<lambda>_. False)" using d unfolding heap_except_def by blast
      then show ?thesis using True False ok by (auto simp: cpudl_heapify_def cpudl_heapify_down_def sift_result_def cpudl_ok_def)
    next
      case left: False
      from down_loop_ok [OF same ok d h(2)] show ?thesis
        using False left by (auto simp: cpudl_heapify_def cpudl_heapify_down_def)
    qed
  qed
qed

section \<open>The operations\<close>

lemma set_idx_at:
  assumes "c < nr_cpus cp"
  shows "dl_at (set_idx cp c i) j = dl_at cp j" "cpu_at (set_idx cp c i) j = cpu_at cp j"
    "idx_at (set_idx cp c i) j = (if j = c then i else idx_at cp j)"
    "nr_cpus (set_idx cp c i) = nr_cpus cp" "cp_size (set_idx cp c i) = cp_size cp" "free_cpus (set_idx cp c i) = free_cpus cp"
  using assms by (auto simp: set_idx_def dl_at_def cpu_at_def idx_at_def nth_list_update)

lemma size_update_at [simp]:
  "dl_at (cp\<lparr>cp_size := n\<rparr>) j = dl_at cp j" "cpu_at (cp\<lparr>cp_size := n\<rparr>) j = cpu_at cp j" "idx_at (cp\<lparr>cp_size := n\<rparr>) j = idx_at cp j"
  by (simp_all add: dl_at_def cpu_at_def idx_at_def)

lemma free_update_at [simp]:
  "dl_at (cp\<lparr>free_cpus := m\<rparr>) j = dl_at cp j" "cpu_at (cp\<lparr>free_cpus := m\<rparr>) j = cpu_at cp j" "idx_at (cp\<lparr>free_cpus := m\<rparr>) j = idx_at cp j"
  by (simp_all add: dl_at_def cpu_at_def idx_at_def)

lemma free_update_ok [simp]:
  "cpudl_ok possible w (cp\<lparr>free_cpus := m\<rparr>) = cpudl_ok possible w cp" "deadline_of possible (cp\<lparr>free_cpus := m\<rparr>) = deadline_of possible cp"
  by (simp_all add: cpudl_ok_def places_ok_def heap_except_def deadline_of_def fun_eq_iff)

lemma cpudl_okD:
  assumes "cpudl_ok possible w cp"
  shows "places_ok possible cp" "possible \<subseteq> {..<nr_cpus cp}" "cp_size cp \<le> nr_cpus cp"
    "i < cp_size cp \<Longrightarrow> in_window w (dl_at cp i)"
    "i < cp_size cp \<Longrightarrow> 0 < i \<Longrightarrow> clock_off w (dl_at cp i) \<le> clock_off w (dl_at cp (parent i))"
    "i < cp_size cp \<Longrightarrow> cpu_at cp i \<in> possible" "i < cp_size cp \<Longrightarrow> idx_at cp (cpu_at cp i) = int i"
  using assms unfolding cpudl_ok_def places_ok_def heap_except_def by blast+

lemma place_of_cpu:
  assumes "places_ok possible cp" "c \<in> possible" "idx_at cp c \<noteq> IDX_INVALID"
  obtains k where "k < cp_size cp" "idx_at cp c = int k" "cpu_at cp k = c"
  using assms unfolding places_ok_def by blast

lemma room_for_cpu:
  assumes ok: "places_ok possible cp" and c: "c \<in> possible" "idx_at cp c = IDX_INVALID"
  shows "cp_size cp < nr_cpus cp"
proof -
  have sub: "possible \<subseteq> {..<nr_cpus cp}" using ok by (simp add: places_ok_def)
  have "inj_on (cpu_at cp) {..<cp_size cp}" using places_inj [OF ok] by (auto simp: inj_on_def)
  moreover have "cpu_at cp ` {..<cp_size cp} \<subseteq> {..<nr_cpus cp} - {c}"
  proof
    fix x assume "x \<in> cpu_at cp ` {..<cp_size cp}"
    then obtain i where i: "i < cp_size cp" "x = cpu_at cp i" by blast
    then have "x \<in> possible" "idx_at cp x = int i" using ok unfolding places_ok_def by blast+
    then show "x \<in> {..<nr_cpus cp} - {c}" using sub c(2) by (auto simp: IDX_INVALID_def)
  qed
  ultimately have "card {..<cp_size cp} \<le> card ({..<nr_cpus cp} - {c})" by (rule card_inj_on_le) simp
  moreover have "c \<in> {..<nr_cpus cp}" using sub c(1) by blast
  then have "card ({..<nr_cpus cp} - {c}) < card {..<nr_cpus cp}" by (intro psubset_card_mono) auto
  ultimately show ?thesis by simp
qed

definition op_result :: "nat set \<Rightarrow> int \<Rightarrow> cpudl \<Rightarrow> (nat \<Rightarrow> int option) \<Rightarrow> nat set \<Rightarrow> cpudl option \<Rightarrow> bool" where
  "op_result possible w cp m free res \<longleftrightarrow> (\<exists>cp'. res = Some cp' \<and> cpudl_ok possible w cp' \<and> deadline_of possible cp' = m \<and>
     nr_cpus cp' = nr_cpus cp \<and> free_cpus cp' = free)"

lemma over_hole_heap:
  assumes "cpudl_ok possible w cp" "k < cp_size cp"
  shows "over_hole w cp k"
proof -
  have "clock_off w (dl_at cp i) \<le> clock_off w (dl_at cp (parent k))" if "i < cp_size cp" "0 < i" "parent i = k" "0 < k" for i
    using cpudl_okD(5) [OF assms(1) that(1,2)] cpudl_okD(5) [OF assms that(4)] that(3) by simp
  then show ?thesis by (simp add: over_hole_def)
qed

lemma set_new_places:
  assumes ok: "cpudl_ok possible w cp" and c: "c \<in> possible" "idx_at cp c = IDX_INVALID" and n: "n = cp_size cp"
    and P: "cpudl_place (cp\<lparr>cp_size := cp_size cp + 1\<rparr>) n c d = Some P"
  shows "places_ok possible P" "deadline_of possible P = (deadline_of possible cp)(c := Some d)"
proof -
  note o = cpudl_okD [OF ok] and room = room_for_cpu [OF cpudl_okD(1) [OF ok] c] and n_def = n
  note p = place_SomeD [OF P, simplified]
  have ne: "cpu_at cp i \<noteq> c" if "i < n" for i
    using o(7) [of i] that c(2) by (auto simp: n_def IDX_INVALID_def)
  show "places_ok possible P"
    unfolding places_ok_def
  proof (intro conjI allI impI ballI)
    fix i assume "i < cp_size P"
    then have "i = n \<or> i < n" by (simp add: p n_def less_Suc_eq disj_commute)
    then show "cpu_at P i \<in> possible" "idx_at P (cpu_at P i) = int i" using o(6,7) [of i] ne c(1) by (auto simp: p n_def)
  next
    fix x assume x: "x \<in> possible" "idx_at P x \<noteq> IDX_INVALID"
    show "\<exists>i<cp_size P. idx_at P x = int i \<and> cpu_at P i = x"
    proof (cases "x = c")
      case False
      with x have "idx_at cp x \<noteq> IDX_INVALID" by (simp add: p)
      from place_of_cpu [OF o(1) x(1) this] obtain k where "k < cp_size cp" "idx_at cp x = int k" "cpu_at cp k = x" .
      then show ?thesis using False by (intro exI [of _ k]) (simp add: p n_def)
    qed (auto simp: p n_def)
  qed (use o(2) room in \<open>auto simp: p\<close>)
  show "deadline_of possible P = (deadline_of possible cp)(c := Some d)"
  proof
    fix x
    show "deadline_of possible P x = ((deadline_of possible cp)(c := Some d)) x"
    proof (cases "x = c \<or> x \<notin> possible \<or> idx_at cp x = IDX_INVALID")
      case False
      then obtain k where "k < cp_size cp" "idx_at cp x = int k" using place_of_cpu [OF o(1), of x] by blast
      then show ?thesis using False by (simp add: deadline_of_def p n_def)
    qed (auto simp: deadline_of_def p c(1) IDX_INVALID_def)
  qed
qed

lemma set_new_ok:
  assumes ok: "cpudl_ok possible w cp" and c: "c \<in> possible" "idx_at cp c = IDX_INVALID" and d: "in_window w d"
  shows "op_result possible w cp ((deadline_of possible cp)(c := Some d)) (free_cpus cp - {c}) (cpudl_set cp c d)"
proof -
  note o = cpudl_okD [OF ok] and room = room_for_cpu [OF cpudl_okD(1) [OF ok] c]
  define n where "n = cp_size cp"
  have cn: "c < nr_cpus cp" using o(2) c(1) by auto
  obtain P where P: "cpudl_place (cp\<lparr>cp_size := cp_size cp + 1\<rparr>) n c d = Some P"
    using place_Some [of n "cp\<lparr>cp_size := cp_size cp + 1\<rparr>" c d] room cn by (auto simp: n_def)
  note p = place_SomeD [OF P, simplified]
  note pl = set_new_places(1) [OF ok c n_def P] and dl = set_new_places(2) [OF ok c n_def P]
  have h: "heap_except w P (\<lambda>i. i = n)" "over_hole w P n"
  proof -
    have "in_window w (dl_at P i)" if "i < cp_size P" for i
      using that o(4) [of i] d by (auto simp: p n_def)
    moreover have "clock_off w (dl_at P i) \<le> clock_off w (dl_at P (parent i))" if "i < cp_size P" "0 < i" "i \<noteq> n" for i
      using that o(5) [of i] parent_less [of i] by (auto simp: p n_def)
    ultimately show "heap_except w P (\<lambda>i. i = n)" by (simp add: heap_except_def)
    have "parent i \<noteq> n" if "i < cp_size P" "0 < i" for i using parent_less [OF that(2)] that(1) by (simp add: p n_def)
    then show "over_hole w P n" by (simp add: over_hole_def)
  qed
  have "sift_result possible w P (cpudl_heapify_up P n)"
  proof (cases "n = 0")
    case True
    then have "heap_except w P (\<lambda>_. False)" using h(1) by (simp add: heap_except_def)
    then show ?thesis using True pl by (simp add: cpudl_heapify_up_def sift_result_def cpudl_ok_def)
  next
    case False
    have "n < nr_cpus P" "cpu_at P n < nr_cpus P" "idx_at P (cpu_at P n) = int n" using room cn by (simp_all add: p n_def)
    from up_loop_ok [OF place_same [OF this] pl _ _ h] False show ?thesis by (simp add: cpudl_heapify_up_def p n_def)
  qed
  then show ?thesis using P cn c(2) dl
    by (auto simp: cpudl_set_def op_result_def sift_result_def n_def p(3-5))
qed

lemma set_old_ok:
  assumes ok: "cpudl_ok possible w cp" and c: "c \<in> possible" "idx_at cp c \<noteq> IDX_INVALID" and d: "in_window w d"
  shows "op_result possible w cp ((deadline_of possible cp)(c := Some d)) (free_cpus cp) (cpudl_set cp c d)"
proof -
  note o = cpudl_okD [OF ok]
  obtain k where k: "k < cp_size cp" "idx_at cp c = int k" "cpu_at cp k = c" using place_of_cpu [OF o(1) c] .
  have cn: "c < nr_cpus cp" using o(2) c(1) by auto
  define P where "P = cp\<lparr>elements := (elements cp)[k := (elements cp ! k)\<lparr>ci_dl := d\<rparr>]\<rparr>"
  have p: "dl_at P i = (if i = k then d else dl_at cp i)" "cpu_at P i = cpu_at cp i" "idx_at P i = idx_at cp i"
    "cp_size P = cp_size cp" "nr_cpus P = nr_cpus cp" "free_cpus P = free_cpus cp" for i
    using k(1) o(3) by (auto simp: P_def dl_at_def cpu_at_def idx_at_def nth_list_update)
  have pl: "places_ok possible P" using o(1) by (simp add: places_ok_def p)
  have dl: "deadline_of possible P = (deadline_of possible cp)(c := Some d)"
  proof
    fix x
    show "deadline_of possible P x = ((deadline_of possible cp)(c := Some d)) x"
    proof (cases "x = c \<or> x \<notin> possible \<or> idx_at cp x = IDX_INVALID")
      case False
      then obtain j where "j < cp_size cp" "idx_at cp x = int j" "cpu_at cp j = x" using place_of_cpu [OF o(1), of x] by blast
      then show ?thesis using False k by (auto simp: deadline_of_def p)
    qed (use c k in \<open>auto simp: deadline_of_def p\<close>)
  qed
  have "heap_except w P (\<lambda>i. i = k \<or> parent i = k)"
    using o(4,5) d by (simp add: heap_except_def p)
  moreover have "over_hole w P k"
    unfolding over_hole_def
  proof (intro allI impI)
    fix i assume i: "i < cp_size P" "0 < i" "parent i = k" "0 < k"
    then have "i \<noteq> k" "parent k \<noteq> k" using parent_less [of i] parent_less [of k] by auto
    then show "clock_off w (dl_at P i) \<le> clock_off w (dl_at P (parent k))"
      using over_hole_heap [OF ok k(1)] i by (simp add: over_hole_def p)
  qed
  ultimately have "sift_result possible w P (cpudl_heapify P k)" using heapify_ok [OF pl] k(1) by (simp add: p)
  then show ?thesis using cn c(2) k(2) dl
    by (auto simp: cpudl_set_def op_result_def sift_result_def p P_def [symmetric] Let_def)
qed

text \<open>The last node takes the place of the one that leaves.\<close>

lemma clear_places:
  assumes ok: "cpudl_ok possible w cp" and c: "c \<in> possible" and k: "k < cp_size cp" "idx_at cp c = int k" "cpu_at cp k = c"
    and n: "n = cp_size cp - 1" and P: "cpudl_place cp k (cpu_at cp n) (dl_at cp n) = Some P"
    and Q: "Q = set_idx (P\<lparr>cp_size := cp_size P - 1\<rparr>) c IDX_INVALID"
  shows "places_ok possible Q" "deadline_of possible Q = (deadline_of possible cp)(c := None)"
    "cp_size Q = n" "nr_cpus Q = nr_cpus cp" "free_cpus Q = free_cpus cp"
    "dl_at Q i = (if i = k then dl_at cp n else dl_at cp i)"
proof -
  note o = cpudl_okD [OF ok] and p = place_SomeD [OF P]
  have cn: "c < nr_cpus (P\<lparr>cp_size := cp_size P - 1\<rparr>)" using o(2) c p(3) by auto
  have q: "dl_at Q j = (if j = k then dl_at cp n else dl_at cp j)" "cpu_at Q j = (if j = k then cpu_at cp n else cpu_at cp j)"
    "idx_at Q j = (if j = c then IDX_INVALID else if j = cpu_at cp n then int k else idx_at cp j)"
    "cp_size Q = n" "nr_cpus Q = nr_cpus cp" "free_cpus Q = free_cpus cp" for j
    using set_idx_at [OF cn, of IDX_INVALID] by (auto simp: Q p(3-8) n)
  show "cp_size Q = n" "nr_cpus Q = nr_cpus cp" "free_cpus Q = free_cpus cp"
    "dl_at Q i = (if i = k then dl_at cp n else dl_at cp i)" by (rule q)+
  have ns: "n < cp_size cp" "cp_size cp = Suc n" using k(1) n by simp_all
  have inj: "cpu_at cp i = cpu_at cp j \<longleftrightarrow> i = j" if "i \<le> n" "j \<le> n" for i j
    using places_inj [OF o(1)] that ns by simp
  have at: "\<exists>i\<le>n. i \<noteq> k \<and> idx_at cp x = int i \<and> cpu_at cp i = x" if x: "x \<in> possible" "idx_at cp x \<noteq> IDX_INVALID" "x \<noteq> c" for x
    using place_of_cpu [OF o(1) x(1,2)] x(3) k(3) ns by (metis less_Suc_eq_le)
  have "cpu_at Q i \<in> possible \<and> idx_at Q (cpu_at Q i) = int i" if "i < n" for i
    using that o(6,7) [of i] o(6) [OF ns(1)] inj [of i k] inj [of n k] inj [of i n] k ns by (auto simp: q)
  moreover have "\<exists>i<n. idx_at Q x = int i \<and> cpu_at Q i = x" if x: "x \<in> possible" "idx_at Q x \<noteq> IDX_INVALID" for x
  proof -
    from x have xc: "x \<noteq> c" by (auto simp: q)
    show ?thesis
    proof (cases "x = cpu_at cp n")
      case True
      then have "k \<noteq> n" using xc k(3) by auto
      then show ?thesis using True xc k(1) ns by (intro exI [of _ k]) (simp add: q)
    next
      case False
      with x xc at [of x] obtain i where i: "i \<le> n" "i \<noteq> k" "idx_at cp x = int i" "cpu_at cp i = x" by (auto simp: q)
      with False have "i < n" by (cases "i = n") auto
      then show ?thesis using i xc False by (intro exI [of _ i]) (simp add: q)
    qed
  qed
  ultimately show "places_ok possible Q" using o(2,3) ns by (simp add: places_ok_def q)
  show "deadline_of possible Q = (deadline_of possible cp)(c := None)"
  proof
    fix x
    consider "x = c" | "x \<noteq> c" "x = cpu_at cp n" | "x \<noteq> c" "x \<noteq> cpu_at cp n" by blast
    then show "deadline_of possible Q x = ((deadline_of possible cp)(c := None)) x"
    proof cases
      case 2
      then show ?thesis using o(7) [OF ns(1)] by (simp add: deadline_of_def q IDX_INVALID_def)
    next
      case 3
      then show ?thesis using at [of x] by (auto simp: deadline_of_def q)
    qed (simp add: deadline_of_def q)
  qed
qed

lemma clear_ok:
  assumes ok: "cpudl_ok possible w cp" and c: "c \<in> possible"
  shows "op_result possible w cp ((deadline_of possible cp)(c := None))
    (if deadline_of possible cp c = None then free_cpus cp else insert c (free_cpus cp)) (cpudl_clear cp c)"
proof (cases "idx_at cp c = IDX_INVALID")
  case True
  have "c < nr_cpus cp" "deadline_of possible cp c = None" using cpudl_okD(2) [OF ok] c True by (auto simp: deadline_of_def)
  then show ?thesis using ok True by (simp add: op_result_def cpudl_clear_def fun_upd_idem)
next
  case False
  note o = cpudl_okD [OF ok]
  obtain k where k: "k < cp_size cp" "idx_at cp c = int k" "cpu_at cp k = c" using place_of_cpu [OF o(1) c False] .
  define n where "n = cp_size cp - 1"
  have ns: "n < cp_size cp" "cp_size cp = Suc n" using k(1) n_def by simp_all
  have cn: "c < nr_cpus cp" "cpu_at cp n < nr_cpus cp" "k < nr_cpus cp" using o(2,3) c o(6) [OF ns(1)] k(1) by auto
  obtain P where P: "cpudl_place cp k (cpu_at cp n) (dl_at cp n) = Some P" using place_Some [OF cn(3,2)] by blast
  define Q where "Q = set_idx (P\<lparr>cp_size := cp_size P - 1\<rparr>) c IDX_INVALID"
  note q = clear_places [OF ok c k n_def P Q_def]
  have "sift_result possible w Q (cpudl_heapify Q k)"
  proof (cases "k = n")
    case True
    have h: "heap_except w Q (\<lambda>_. False)"
      using o(4,5) ns True parent_less by (auto simp: heap_except_def q(3,6))
    have "cpudl_heapify Q k = Some Q"
    proof -
      have "\<not> dl_time_before (dl_at Q (parent k)) (dl_at Q k)" if "0 < k"
        using before_off [OF o(4) o(4), of "parent k" k] o(5) [OF k(1) that] parent_less [OF that] k(1) True by (simp add: q(6))
      then show ?thesis using True by (auto simp: cpudl_heapify_def cpudl_heapify_down_def q(3) left_child_def)
    qed
    then show ?thesis using h q(1) by (simp add: sift_result_def cpudl_ok_def)
  next
    case False
    with k(1) ns have kn: "k < n" by simp
    have "heap_except w Q (\<lambda>i. i = k \<or> parent i = k)"
      using o(4,5) ns by (simp add: heap_except_def q(3,6))
    moreover have "over_hole w Q k"
      unfolding over_hole_def
    proof (intro allI impI)
      fix i assume i: "i < cp_size Q" "0 < i" "parent i = k" "0 < k"
      then have "i \<noteq> k" "parent k \<noteq> k" using parent_less [of i] parent_less [of k] by auto
      then show "clock_off w (dl_at Q i) \<le> clock_off w (dl_at Q (parent k))"
        using over_hole_heap [OF ok k(1)] i ns by (simp add: over_hole_def q(3,6))
    qed
    ultimately show ?thesis using heapify_ok [OF q(1)] kn by (simp add: q(3))
  qed
  moreover have "cpudl_clear cp c = map_option (\<lambda>cp. cp\<lparr>free_cpus := insert c (free_cpus cp)\<rparr>) (cpudl_heapify Q k)"
    using cn(1) False k(2) P by (simp add: cpudl_clear_def Let_def n_def Q_def)
  moreover have "deadline_of possible cp c \<noteq> None" using c False by (simp add: deadline_of_def)
  ultimately show ?thesis using q(2,4,5) by (auto simp: op_result_def sift_result_def)
qed

section \<open>Sequences of operations\<close>

datatype cpudl_op = Dl_Set nat int | Dl_Clear nat | Dl_Set_Free nat | Dl_Clear_Free nat

fun cpudl_exec :: "cpudl \<Rightarrow> cpudl_op \<Rightarrow> cpudl option" where
  "cpudl_exec cp (Dl_Set c d) = cpudl_set cp c d"
| "cpudl_exec cp (Dl_Clear c) = cpudl_clear cp c"
| "cpudl_exec cp (Dl_Set_Free c) = Some (cpudl_set_freecpu cp c)"
| "cpudl_exec cp (Dl_Clear_Free c) = Some (cpudl_clear_freecpu cp c)"

fun cpudl_spec :: "(nat \<Rightarrow> int option) \<times> nat set \<Rightarrow> cpudl_op \<Rightarrow> (nat \<Rightarrow> int option) \<times> nat set" where
  "cpudl_spec (m, free) (Dl_Set c d) = (m(c := Some d), if m c = None then free - {c} else free)"
| "cpudl_spec (m, free) (Dl_Clear c) = (m(c := None), if m c = None then free else insert c free)"
| "cpudl_spec (m, free) (Dl_Set_Free c) = (m, insert c free)"
| "cpudl_spec (m, free) (Dl_Clear_Free c) = (m, free - {c})"

fun cpudl_ready :: "nat set \<Rightarrow> int \<Rightarrow> cpudl_op \<Rightarrow> bool" where
  "cpudl_ready possible w (Dl_Set c d) \<longleftrightarrow> c \<in> possible \<and> in_window w d"
| "cpudl_ready possible w (Dl_Clear c) \<longleftrightarrow> c \<in> possible"
| "cpudl_ready possible w (Dl_Set_Free c) \<longleftrightarrow> c \<in> possible"
| "cpudl_ready possible w (Dl_Clear_Free c) \<longleftrightarrow> c \<in> possible"

definition cpudl_abs :: "nat set \<Rightarrow> cpudl \<Rightarrow> (nat \<Rightarrow> int option) \<times> nat set" where
  "cpudl_abs possible cp = (deadline_of possible cp, free_cpus cp)"

lemma cpudl_exec_ok:
  assumes "cpudl_ok possible w cp" "cpudl_ready possible w op"
  shows "\<exists>cp'. cpudl_exec cp op = Some cp' \<and> cpudl_ok possible w cp' \<and> cpudl_abs possible cp' = cpudl_spec (cpudl_abs possible cp) op"
proof (cases op)
  case (Dl_Set c d)
  then have c: "c \<in> possible" "in_window w d" using assms(2) by auto
  show ?thesis
  proof (cases "idx_at cp c = IDX_INVALID")
    case True
    then have "deadline_of possible cp c = None" by (simp add: deadline_of_def)
    with set_new_ok [OF assms(1) c(1) True c(2)] show ?thesis by (auto simp: Dl_Set cpudl_abs_def op_result_def)
  next
    case False
    then have "deadline_of possible cp c \<noteq> None" using c by (simp add: deadline_of_def)
    with set_old_ok [OF assms(1) c(1) False c(2)] show ?thesis by (auto simp: Dl_Set cpudl_abs_def op_result_def)
  qed
next
  case (Dl_Clear c)
  with clear_ok [OF assms(1), of c] assms(2) show ?thesis by (auto simp: cpudl_abs_def op_result_def)
qed (use assms in \<open>simp_all add: cpudl_abs_def cpudl_set_freecpu_def cpudl_clear_freecpu_def\<close>)

interpretation cpudl_ops: total_refinement cpudl_exec cpudl_spec "cpudl_ready possible w" "cpudl_ok possible w" "cpudl_abs possible"
  for possible w
  by unfold_locales (rule cpudl_exec_ok)

lemma init_at:
  assumes "cpudl_init mem n possible = Some cp" "i < n"
  shows "idx_at cp i = (if i \<in> possible then IDX_INVALID else 0)"
  using assms by (auto simp: cpudl_init_def idx_at_def split: if_splits)

lemma cpudl_init_ok:
  assumes "cpudl_init mem n possible = Some cp" "possible \<subseteq> {..<n}"
  shows "cpudl_ok possible w cp" "cpudl_abs possible cp = (\<lambda>_. None, {})"
proof -
  have s: "cp_size cp = 0" "nr_cpus cp = n" "free_cpus cp = {}" using assms(1) by (auto simp: cpudl_init_def split: if_splits)
  have "idx_at cp c = IDX_INVALID" if "c \<in> possible" for c using init_at [OF assms(1), of c] assms(2) that by auto
  then show "cpudl_ok possible w cp" "cpudl_abs possible cp = (\<lambda>_. None, {})"
    using s assms(2) by (auto simp: cpudl_ok_def places_ok_def heap_except_def cpudl_abs_def deadline_of_def fun_eq_iff)
qed

text \<open>
  C16: The heap with its back pointers implements a map from CPUs to deadlines.  After initialisation, any sequence of \<open>cpudl_set\<close>,
  \<open>cpudl_clear\<close> and the two operations on the mask of free CPUs stays within the array, keeps the heap order and the agreement of
  nodes and places, and computes the map and the mask of the specification; a CPU is taken from the mask when it enters the heap and
  put back when it leaves.
\<close>

theorem cpudl_refines_map:
  assumes "cpudl_init mem n possible = Some cp" "possible \<subseteq> {..<n}" "list_all (cpudl_ready possible w) ops"
  shows "\<exists>cp'. run cpudl_exec cp ops = Some cp' \<and> (deadline_of possible cp', free_cpus cp') = foldl cpudl_spec (\<lambda>_. None, {}) ops \<and>
    cpudl_ok possible w cp'"
  using cpudl_ops.run_ok [OF cpudl_init_ok(1) [OF assms(1,2)] assms(3)] cpudl_init_ok(2) [OF assms(1,2)]
  by (auto simp: cpudl_abs_def)

definition example_cpudl :: cpudl where
  "example_cpudl = the (cpudl_init (True, True) 4 {0, 1, 3})"

theorem cpudl_refines_map_witness:
  "\<exists>cp'. run cpudl_exec example_cpudl [Dl_Set 0 50, Dl_Set 3 90, Dl_Set 1 70, Dl_Clear 3] = Some cp' \<and>
     deadline_of {0, 1, 3} cp' 1 = Some 70 \<and> free_cpus cp' = {3} \<and> cpudl_ok {0, 1, 3} 0 cp'"
proof -
  have "cpudl_init (True, True) 4 {0, 1, 3} = Some example_cpudl" by (simp add: example_cpudl_def cpudl_init_def)
  moreover have "list_all (cpudl_ready {0, 1, 3} 0) [Dl_Set 0 50, Dl_Set 3 90, Dl_Set 1 70, Dl_Clear 3]"
    by (simp add: in_window_def is_u64_def clock_off_def s64_def)
  moreover have "{0, 1, 3} \<subseteq> {..<4 :: nat}" by simp
  ultimately obtain cp' where c: "run cpudl_exec example_cpudl [Dl_Set 0 50, Dl_Set 3 90, Dl_Set 1 70, Dl_Clear 3] = Some cp'"
    "(deadline_of {0, 1, 3} cp', free_cpus cp') = foldl cpudl_spec (\<lambda>_. None, {}) [Dl_Set 0 50, Dl_Set 3 90, Dl_Set 1 70, Dl_Clear 3]"
    "cpudl_ok {0, 1, 3} 0 cp'"
    using cpudl_refines_map [of "(True, True)" 4 "{0, 1, 3}" example_cpudl 0] by blast
  from c(2) have "deadline_of {0, 1, 3} cp' 1 = Some 70" "free_cpus cp' = {3}" by auto
  with c show ?thesis by blast
qed

section \<open>Finding a CPU\<close>

lemma heap_top:
  assumes "cpudl_ok possible w cp" "i < cp_size cp"
  shows "clock_off w (dl_at cp i) \<le> clock_off w (dl_at cp 0)"
  using assms(2)
proof (induction i rule: less_induct)
  case (less i)
  show ?case
  proof (cases "i = 0")
    case False
    then have "parent i < i" using parent_less by simp
    then show ?thesis using less cpudl_okD(5) [OF assms(1) less.prems] False by force
  qed simp
qed

lemma deadline_of_Some:
  assumes "cpudl_ok possible w cp"
  shows "deadline_of possible cp c = Some d \<longleftrightarrow> (\<exists>i<cp_size cp. cpu_at cp i = c \<and> dl_at cp i = d)"
proof
  assume d: "deadline_of possible cp c = Some d"
  then have c: "c \<in> possible" "idx_at cp c \<noteq> IDX_INVALID" by (auto simp: deadline_of_def split: if_splits)
  obtain k where "k < cp_size cp" "idx_at cp c = int k" "cpu_at cp k = c" using place_of_cpu [OF cpudl_okD(1) [OF assms] c] .
  then show "\<exists>i<cp_size cp. cpu_at cp i = c \<and> dl_at cp i = d" using d c by (auto simp: deadline_of_def)
next
  assume "\<exists>i<cp_size cp. cpu_at cp i = c \<and> dl_at cp i = d"
  then obtain i where "i < cp_size cp" "cpu_at cp i = c" "dl_at cp i = d" by blast
  then show "deadline_of possible cp c = Some d"
    using cpudl_okD(6,7) [OF assms, of i] by (auto simp: deadline_of_def IDX_INVALID_def)
qed

lemma maximum_ok:
  assumes ok: "cpudl_ok possible w cp" and ne: "deadline_of possible cp \<noteq> (\<lambda>_. None)"
  shows "deadline_of possible cp (cpudl_maximum cp) = Some (dl_at cp 0)"
    "deadline_of possible cp c = Some d \<Longrightarrow> clock_off w d \<le> clock_off w (dl_at cp 0)" "in_window w (dl_at cp 0)"
proof -
  obtain x y where "deadline_of possible cp x = Some y" using ne by (auto simp: fun_eq_iff)
  then have s: "0 < cp_size cp" by (auto simp: deadline_of_Some [OF ok])
  then show "deadline_of possible cp (cpudl_maximum cp) = Some (dl_at cp 0)" "in_window w (dl_at cp 0)"
    using cpudl_okD(4) [OF ok] by (auto simp: deadline_of_Some [OF ok] cpudl_maximum_def)
  show "deadline_of possible cp c = Some d \<Longrightarrow> clock_off w d \<le> clock_off w (dl_at cp 0)"
    using heap_top [OF ok] by (auto simp: deadline_of_Some [OF ok])
qed

lemma fit_loop_ok:
  assumes "\<forall>c\<in>set cpus. 0 < capacity_orig_of caps c" "fit_loop caps p cpus (m, mc, mx) = (m', mc', mx')"
    "case mx of None \<Rightarrow> mc = 0 | Some c \<Rightarrow> mc = capacity_orig_of caps c"
  shows "m' = m - {c \<in> set cpus. \<not> dl_task_fits_capacity caps p c} \<and> mc \<le> mc' \<and>
    (\<forall>c\<in>set cpus. \<not> dl_task_fits_capacity caps p c \<longrightarrow> capacity_orig_of caps c \<le> mc') \<and>
    (case mx' of None \<Rightarrow> mx = None \<and> (\<forall>c\<in>set cpus. dl_task_fits_capacity caps p c)
     | Some c \<Rightarrow> mc' = capacity_orig_of caps c \<and> (mx' = mx \<or> c \<in> set cpus \<and> \<not> dl_task_fits_capacity caps p c))"
  using assms
proof (induction cpus arbitrary: m mc mx)
  case (Cons cpu cpus)
  define s where "s = (if \<not> dl_task_fits_capacity caps p cpu then
      let cap = capacity_orig_of caps cpu
      in if cap > mc \<or> (cpu = dt_cpu p \<and> cap = mc) then (m - {cpu}, cap, Some cpu) else (m - {cpu}, mc, mx)
    else (m, mc, mx))"
  obtain m1 mc1 mx1 where s1: "s = (m1, mc1, mx1)" by (metis prod.exhaust)
  have f: "fit_loop caps p cpus (m1, mc1, mx1) = (m', mc', mx')" using Cons.prems(2) s1 by (simp add: s_def)
  have c: "case mx1 of None \<Rightarrow> mc1 = 0 | Some c \<Rightarrow> mc1 = capacity_orig_of caps c"
    using s1 Cons.prems(3) by (auto simp: s_def Let_def split: if_splits)
  have "mc \<le> mc1" "m1 = m - {c. c = cpu \<and> \<not> dl_task_fits_capacity caps p c}"
    "\<not> dl_task_fits_capacity caps p cpu \<longrightarrow> capacity_orig_of caps cpu \<le> mc1 \<and> mx1 \<noteq> None"
    "mx1 = mx \<or> mx1 = Some cpu \<and> \<not> dl_task_fits_capacity caps p cpu"
    using s1 Cons.prems(1,3) by (auto simp: s_def Let_def split: if_splits option.splits)
  with Cons.IH [OF _ f c] Cons.prems(1) show ?case by (auto split: option.splits)
qed (auto split: option.splits)


definition example_caps :: cpu_caps where
  "example_caps = \<lparr>asym_cpucap_active = True, arch_scale_cpu_capacity = \<lambda>_. 1024, capacity_orig_of = \<lambda>_. 1024\<rparr>"

definition example_dl_task :: dl_task where
  "example_dl_task = \<lparr>dt_deadline = 60, dt_density = 2 ^ 19, dt_cpus_mask = {1, 3}, dt_cpu = 1\<rparr>"


end
