(* ===== verification/Cpupri.thy ===== *)
theory Cpupri
  imports Main
begin

text \<open>
  The priorities of the CPUs (kernel/sched/cpupri.c), which the real-time class searches for CPUs that run something less important.

  \<open>cpupri_set\<close> writes memory that searches read without a lock, so it is a list of stores, in the order of the code; run without
  interruption they are the operation, and the concurrent development interleaves them.  A search reads a counter and twice a mask
  for every level; the memory it sees is a function of the number of the read, constant for a search that runs alone.  A read of a mask is taken to
  be one step; what matters of it is the bit of one CPU.  The counters are \<open>atomic_t\<close>; they stay below the number of CPUs and are not wrapped.
\<close>

definition CPUPRI_NR_PRIORITIES :: nat where
  "CPUPRI_NR_PRIORITIES = 101"

definition CPUPRI_INVALID :: int where
  "CPUPRI_INVALID = - 1"

record cpupri_vec =
  vec_count :: int
  vec_mask :: "nat set"

record cpupri =
  pri_to_cpu :: "cpupri_vec list"
  cpu_to_pri :: "int list"

text \<open>For a value that no case of the switch covers the result is not initialised, here \<open>None\<close>.\<close>

definition convert_prio :: "int \<Rightarrow> int option" where
  "convert_prio prio =
     (if prio = CPUPRI_INVALID then Some CPUPRI_INVALID
      else if 0 \<le> prio \<and> prio \<le> 98 then Some (100 - 1 - prio)
      else if prio = 100 - 1 then Some 0
      else if prio = 100 then Some 100
      else None)"

section \<open>Setting the priority of a CPU\<close>

datatype pri_store =
    Set_Mask nat nat
  | Inc_Count nat
  | Dec_Count nat
  | Clear_Mask nat nat
  | Set_Pri nat int

definition upd_vec :: "nat \<Rightarrow> (cpupri_vec \<Rightarrow> cpupri_vec) \<Rightarrow> cpupri \<Rightarrow> cpupri" where
  "upd_vec l f cp = cp\<lparr>pri_to_cpu := (pri_to_cpu cp)[l := f (pri_to_cpu cp ! l)]\<rparr>"

fun apply_store :: "pri_store \<Rightarrow> cpupri \<Rightarrow> cpupri" where
  "apply_store (Set_Mask l c) cp = upd_vec l (\<lambda>v. v\<lparr>vec_mask := insert c (vec_mask v)\<rparr>) cp"
| "apply_store (Inc_Count l) cp = upd_vec l (\<lambda>v. v\<lparr>vec_count := vec_count v + 1\<rparr>) cp"
| "apply_store (Dec_Count l) cp = upd_vec l (\<lambda>v. v\<lparr>vec_count := vec_count v - 1\<rparr>) cp"
| "apply_store (Clear_Mask l c) cp = upd_vec l (\<lambda>v. v\<lparr>vec_mask := vec_mask v - {c}\<rparr>) cp"
| "apply_store (Set_Pri c p) cp = cp\<lparr>cpu_to_pri := (cpu_to_pri cp)[c := p]\<rparr>"

definition cpupri_set_stores :: "nat \<Rightarrow> int \<Rightarrow> int \<Rightarrow> pri_store list" where
  "cpupri_set_stores cpu oldpri newpri =
     (if newpri = oldpri then []
      else (if newpri \<noteq> CPUPRI_INVALID then [Set_Mask (nat newpri) cpu, Inc_Count (nat newpri)] else []) @
           (if oldpri \<noteq> CPUPRI_INVALID then [Dec_Count (nat oldpri), Clear_Mask (nat oldpri) cpu] else []) @
           [Set_Pri cpu newpri])"

text \<open>\<open>None\<close>: \<open>BUG_ON\<close>, an unknown priority or a CPU outside the array.\<close>

definition cpupri_set :: "cpupri \<Rightarrow> nat \<Rightarrow> int \<Rightarrow> cpupri option" where
  "cpupri_set cp cpu newpri =
     (case convert_prio newpri of
        None \<Rightarrow> None
      | Some newpri \<Rightarrow>
          if cpu \<ge> length (cpu_to_pri cp) \<or> newpri \<ge> int CPUPRI_NR_PRIORITIES then None
          else Some (fold apply_store (cpupri_set_stores cpu (cpu_to_pri cp ! cpu) newpri) cp))"

text \<open>\<open>vec_ok\<close> and \<open>pri_ok\<close> say which allocations succeed; a failure is \<open>-ENOMEM\<close>, here \<open>None\<close>.\<close>

definition cpupri_init :: "(nat \<Rightarrow> bool) \<Rightarrow> bool \<Rightarrow> nat \<Rightarrow> nat set \<Rightarrow> cpupri option" where
  "cpupri_init vec_ok pri_ok nr_cpu_ids possible =
     (if \<not> list_all vec_ok [0..<CPUPRI_NR_PRIORITIES] then None
      else if \<not> pri_ok then None
      else Some \<lparr>pri_to_cpu = replicate CPUPRI_NR_PRIORITIES \<lparr>vec_count = 0, vec_mask = {}\<rparr>,
             cpu_to_pri = map (\<lambda>i. if i \<in> possible then CPUPRI_INVALID else 0) [0..<nr_cpu_ids]\<rparr>)"

section \<open>Searching\<close>

record rt_task =
  rt_prio :: int
  rt_cpus_mask :: "nat set"

text \<open>\<open>__cpupri_find\<close>, by the values its three reads give.  \<open>lowest_mask\<close> is \<open>None\<close> for a NULL pointer.\<close>

definition cpupri_find0 ::
    "int \<Rightarrow> nat set \<Rightarrow> nat set \<Rightarrow> nat set \<Rightarrow> rt_task \<Rightarrow> nat set option \<Rightarrow> bool \<times> nat set option" where
  "cpupri_find0 count mask1 mask2 active p lowest_mask =
     (if count = 0 then (False, lowest_mask)
      else if rt_cpus_mask p \<inter> mask1 = {} then (False, lowest_mask)
      else case lowest_mask of
             None \<Rightarrow> (True, None)
           | Some _ \<Rightarrow>
               let m = rt_cpus_mask p \<inter> mask2;
                   m = m \<inter> active
               in (m \<noteq> {}, Some m))"

definition level_count :: "cpupri \<Rightarrow> nat \<Rightarrow> int" where
  "level_count cp l = vec_count (pri_to_cpu cp ! l)"

definition level_mask :: "cpupri \<Rightarrow> nat \<Rightarrow> nat set" where
  "level_mask cp l = vec_mask (pri_to_cpu cp ! l)"

text \<open>The loop of \<open>cpupri_find_fitness\<close> over the levels.\<close>

primrec cpupri_levels ::
    "(nat \<Rightarrow> cpupri) \<Rightarrow> nat set \<Rightarrow> rt_task \<Rightarrow> (nat \<Rightarrow> bool) option \<Rightarrow> nat list \<Rightarrow> nat set option \<Rightarrow> bool \<times> nat set option" where
  "cpupri_levels mem active p fitness_fn [] lowest_mask = (False, lowest_mask)"
| "cpupri_levels mem active p fitness_fn (idx # idxs) lowest_mask =
     (let (found, lowest_mask) = cpupri_find0 (level_count (mem (3 * idx)) idx) (level_mask (mem (3 * idx + 1)) idx)
                                   (level_mask (mem (3 * idx + 2)) idx) active p lowest_mask
      in if \<not> found then cpupri_levels mem active p fitness_fn idxs lowest_mask
         else case lowest_mask of
                None \<Rightarrow> (True, lowest_mask)
              | Some m \<Rightarrow>
                  (case fitness_fn of
                     None \<Rightarrow> (True, lowest_mask)
                   | Some fits \<Rightarrow>
                       let m = {cpu \<in> m. fits cpu}
                       in if m = {} then cpupri_levels mem active p fitness_fn idxs (Some m) else (True, Some m)))"

definition task_levels :: "rt_task \<Rightarrow> nat list" where
  "task_levels p = (case convert_prio (rt_prio p) of None \<Rightarrow> [] | Some task_pri \<Rightarrow> [0..<nat task_pri])"

definition cpupri_find ::
    "(nat \<Rightarrow> cpupri) \<Rightarrow> nat set \<Rightarrow> rt_task \<Rightarrow> nat set option \<Rightarrow> bool \<times> nat set option" where
  "cpupri_find mem active p lowest_mask = cpupri_levels mem active p None (task_levels p) lowest_mask"

definition cpupri_find_fitness ::
    "(nat \<Rightarrow> cpupri) \<Rightarrow> nat set \<Rightarrow> rt_task \<Rightarrow> nat set option \<Rightarrow> (nat \<Rightarrow> bool) option \<Rightarrow> bool \<times> nat set option" where
  "cpupri_find_fitness mem active p lowest_mask fitness_fn =
     (let (found, lowest_mask) = cpupri_levels mem active p fitness_fn (task_levels p) lowest_mask
      in if found then (True, lowest_mask)
         else if fitness_fn \<noteq> None then cpupri_find (\<lambda>k. mem (3 * length (task_levels p) + k)) active p lowest_mask
         else (False, lowest_mask))"

end
