(* ===== verification/Cpupri_Props.thy ===== *)
theory Cpupri_Props
  imports Cpupri Simulation
begin

text \<open>
  The priorities of the CPUs when no update is under way: masks and counters agree with the priorities, \<open>cpupri_set\<close> is an update of
  a map, and a search returns the CPUs of the lowest priority.
\<close>

section \<open>The invariant of a state at rest\<close>

definition cpupri_ok :: "nat set \<Rightarrow> cpupri \<Rightarrow> bool" where
  "cpupri_ok possible cp \<longleftrightarrow> length (pri_to_cpu cp) = CPUPRI_NR_PRIORITIES \<and> possible \<subseteq> {..<length (cpu_to_pri cp)} \<and>
     (\<forall>c\<in>possible. - 1 \<le> cpu_to_pri cp ! c \<and> cpu_to_pri cp ! c \<le> 100) \<and>
     (\<forall>l<CPUPRI_NR_PRIORITIES. level_mask cp l = {c \<in> possible. cpu_to_pri cp ! c = int l} \<and>
        level_count cp l = int (card (level_mask cp l)))"

definition pri_of :: "nat set \<Rightarrow> cpupri \<Rightarrow> nat \<Rightarrow> int" where
  "pri_of possible cp c = (if c \<in> possible then cpu_to_pri cp ! c else CPUPRI_INVALID)"

lemma upd_vec_simps [simp]:
  "length (pri_to_cpu (upd_vec l f cp)) = length (pri_to_cpu cp)" "cpu_to_pri (upd_vec l f cp) = cpu_to_pri cp"
  by (simp_all add: upd_vec_def)

lemma level_upd_vec:
  assumes "l < length (pri_to_cpu cp)"
  shows "level_count (upd_vec l f cp) k = (if k = l then vec_count (f (pri_to_cpu cp ! l)) else level_count cp k)"
    "level_mask (upd_vec l f cp) k = (if k = l then vec_mask (f (pri_to_cpu cp ! l)) else level_mask cp k)"
  using assms by (auto simp: level_count_def level_mask_def upd_vec_def nth_list_update)

lemma level_pri_update [simp]:
  "level_count (cp\<lparr>cpu_to_pri := ps\<rparr>) k = level_count cp k" "level_mask (cp\<lparr>cpu_to_pri := ps\<rparr>) k = level_mask cp k"
  by (simp_all add: level_count_def level_mask_def)

text \<open>What a store does to the counters, the masks and the priorities.\<close>

fun store_level :: "pri_store \<Rightarrow> nat" where
  "store_level (Set_Mask l c) = l"
| "store_level (Inc_Count l) = l"
| "store_level (Dec_Count l) = l"
| "store_level (Clear_Mask l c) = l"
| "store_level (Set_Pri c p) = 0"

lemma apply_store_count:
  assumes "store_level s < length (pri_to_cpu cp)"
  shows "level_count (apply_store s cp) k =
    level_count cp k + of_bool (s = Inc_Count k) - of_bool (s = Dec_Count k)"
  using assms by (cases s) (auto simp: level_upd_vec level_count_def [symmetric])

lemma apply_store_mask:
  assumes "store_level s < length (pri_to_cpu cp)"
  shows "c \<in> level_mask (apply_store s cp) k \<longleftrightarrow> (c \<in> level_mask cp k \<or> s = Set_Mask k c) \<and> s \<noteq> Clear_Mask k c"
  using assms by (cases s) (auto simp: level_upd_vec level_mask_def [symmetric])

lemma apply_store_pri [simp]:
  "length (cpu_to_pri (apply_store s cp)) = length (cpu_to_pri cp)" "length (pri_to_cpu (apply_store s cp)) = length (pri_to_cpu cp)"
  by (cases s, auto)+

lemma convert_prio_range: "convert_prio p = Some q \<Longrightarrow> - 1 \<le> q \<and> q \<le> 100"
  by (auto simp: convert_prio_def CPUPRI_INVALID_def split: if_splits)

lemma set_stores_at:
  assumes q: "- 1 \<le> old" "old \<le> 100" "- 1 \<le> new" "new \<le> 100" "old \<noteq> new" and s: "length (pri_to_cpu cp) = CPUPRI_NR_PRIORITIES"
    and cp': "cp' = fold apply_store (cpupri_set_stores c old new) cp"
  shows "level_count cp' k = level_count cp k + of_bool (new = int k) - of_bool (old = int k)"
    "d \<in> level_mask cp' k \<longleftrightarrow> (d \<in> level_mask cp k \<or> d = c \<and> new = int k) \<and> \<not> (d = c \<and> old = int k)"
    "cpu_to_pri cp' = (cpu_to_pri cp)[c := new]" "length (pri_to_cpu cp') = CPUPRI_NR_PRIORITIES"
proof -
  have n: "nat new < CPUPRI_NR_PRIORITIES" "nat old < CPUPRI_NR_PRIORITIES" using q by (auto simp: CPUPRI_NR_PRIORITIES_def)
  note a = apply_store_count apply_store_mask
  show "level_count cp' k = level_count cp k + of_bool (new = int k) - of_bool (old = int k)"
    "d \<in> level_mask cp' k \<longleftrightarrow> (d \<in> level_mask cp k \<or> d = c \<and> new = int k) \<and> \<not> (d = c \<and> old = int k)"
    using q n s unfolding cp' cpupri_set_stores_def CPUPRI_INVALID_def
    by (auto simp: a simp del: apply_store.simps split: if_splits)
  show "cpu_to_pri cp' = (cpu_to_pri cp)[c := new]" "length (pri_to_cpu cp') = CPUPRI_NR_PRIORITIES"
    using q s unfolding cp' cpupri_set_stores_def CPUPRI_INVALID_def by auto
qed

lemma cpupri_set_ok:
  assumes ok: "cpupri_ok possible cp" and c: "c \<in> possible" and q: "convert_prio p = Some q"
  shows "\<exists>cp'. cpupri_set cp c p = Some cp' \<and> cpupri_ok possible cp' \<and> pri_of possible cp' = (pri_of possible cp)(c := q)"
proof -
  define old where "old = cpu_to_pri cp ! c"
  have r: "- 1 \<le> old" "old \<le> 100" "- 1 \<le> q" "q \<le> 100" "c < length (cpu_to_pri cp)" and s: "length (pri_to_cpu cp) = CPUPRI_NR_PRIORITIES"
    and fin: "finite possible"
    using ok c convert_prio_range [OF q] finite_subset [of possible] by (auto simp: cpupri_ok_def old_def)
  define cp' where "cp' = fold apply_store (cpupri_set_stores c old q) cp"
  have set: "cpupri_set cp c p = Some cp'" using r q by (simp add: cpupri_set_def cp'_def old_def CPUPRI_NR_PRIORITIES_def)
  show ?thesis
  proof (cases "old = q")
    case True
    then have "cp' = cp" by (simp add: cp'_def cpupri_set_stores_def)
    then show ?thesis using set ok True c by (auto simp: pri_of_def old_def)
  next
    case False
    note a = set_stores_at [OF r(1-4) False s cp'_def]
    have m: "level_mask cp' l = {d \<in> possible. cpu_to_pri cp' ! d = int l}"
      and n: "level_count cp' l = int (card (level_mask cp' l))" if l: "l < CPUPRI_NR_PRIORITIES" for l
    proof -
      have o: "level_mask cp l = {d \<in> possible. cpu_to_pri cp ! d = int l}" "level_count cp l = int (card (level_mask cp l))"
        using ok l by (auto simp: cpupri_ok_def)
      show m: "level_mask cp' l = {d \<in> possible. cpu_to_pri cp' ! d = int l}"
      proof (rule set_eqI)
        fix d
        have "c \<in> level_mask cp l \<longleftrightarrow> old = int l" using o(1) c by (simp add: old_def)
        then show "d \<in> level_mask cp' l \<longleftrightarrow> d \<in> {d \<in> possible. cpu_to_pri cp' ! d = int l}"
          using o(1) c r(5) False by (cases "d = c") (auto simp: a(2,3))
      qed
      have f: "finite (level_mask cp l)" using fin o(1) by simp
      have "level_mask cp' l = (if q = int l then insert c (level_mask cp l) else if old = int l then level_mask cp l - {c} else level_mask cp l)"
        using False by (auto simp: a(2))
      moreover have "c \<in> level_mask cp l \<longleftrightarrow> old = int l" using o(1) c by (auto simp: old_def)
      ultimately show "level_count cp' l = int (card (level_mask cp' l))"
        using a(1) [of l] o(2) f False card_Suc_Diff1 [OF f, of c] by (auto simp: card_insert_if)
    qed
    have "cpupri_ok possible cp'"
      using ok m n a(3,4) r c unfolding cpupri_ok_def by (auto simp: nth_list_update)
    moreover have "pri_of possible cp' = (pri_of possible cp)(c := q)"
      using a(3) r(5) c by (auto simp: pri_of_def fun_eq_iff)
    ultimately show ?thesis using set by blast
  qed
qed

section \<open>Searching a state at rest\<close>

text \<open>What a search looks for: the CPUs of a set that run at the lowest priority of all, if that is below the one of the task.\<close>

definition lowest_cpus :: "(nat \<Rightarrow> int) \<Rightarrow> nat set \<Rightarrow> int \<Rightarrow> nat set" where
  "lowest_cpus pri S task_pri =
     {c \<in> S. 0 \<le> pri c \<and> pri c < task_pri \<and> (\<forall>d\<in>S. 0 \<le> pri d \<longrightarrow> pri c \<le> pri d)}"

lemma level_at_rest:
  assumes "cpupri_ok possible cp" "l < CPUPRI_NR_PRIORITIES"
  shows "level_mask cp l = {c \<in> possible. pri_of possible cp c = int l}" "level_count cp l = 0 \<longleftrightarrow> level_mask cp l = {}"
proof -
  have "finite possible" using assms(1) finite_subset [of possible] by (auto simp: cpupri_ok_def)
  then show "level_mask cp l = {c \<in> possible. pri_of possible cp c = int l}" "level_count cp l = 0 \<longleftrightarrow> level_mask cp l = {}"
    using assms by (auto simp: cpupri_ok_def pri_of_def)
qed

definition level_cands :: "nat set \<Rightarrow> cpupri \<Rightarrow> nat set \<Rightarrow> nat \<Rightarrow> nat set" where
  "level_cands possible cp S l = {c \<in> S \<inter> possible. pri_of possible cp c = int l}"

lemma find0_at_rest:
  assumes "cpupri_ok possible cp" "l < CPUPRI_NR_PRIORITIES"
  shows "cpupri_find0 (level_count cp l) (level_mask cp l) (level_mask cp l) active p (Some m) =
      (level_cands possible cp (rt_cpus_mask p \<inter> active) l \<noteq> {},
       Some (if level_cands possible cp (rt_cpus_mask p) l = {} then m else level_cands possible cp (rt_cpus_mask p \<inter> active) l))"
    "cpupri_find0 (level_count cp l) (level_mask cp l) (level_mask cp l) active p None = (level_cands possible cp (rt_cpus_mask p) l \<noteq> {}, None)"
proof -
  have "rt_cpus_mask p \<inter> level_mask cp l = level_cands possible cp (rt_cpus_mask p) l"
    "rt_cpus_mask p \<inter> level_mask cp l \<inter> active = level_cands possible cp (rt_cpus_mask p \<inter> active) l"
    by (auto simp: level_at_rest(1) [OF assms] level_cands_def)
  moreover have "level_cands possible cp (rt_cpus_mask p) l = {} \<Longrightarrow> level_cands possible cp (rt_cpus_mask p \<inter> active) l = {}"
    by (auto simp: level_cands_def)
  moreover have "level_mask cp l = {} \<Longrightarrow> level_cands possible cp (rt_cpus_mask p) l = {}"
    by (auto simp: level_at_rest(1) [OF assms] level_cands_def)
  ultimately show "cpupri_find0 (level_count cp l) (level_mask cp l) (level_mask cp l) active p (Some m) =
      (level_cands possible cp (rt_cpus_mask p \<inter> active) l \<noteq> {},
       Some (if level_cands possible cp (rt_cpus_mask p) l = {} then m else level_cands possible cp (rt_cpus_mask p \<inter> active) l))"
    "cpupri_find0 (level_count cp l) (level_mask cp l) (level_mask cp l) active p None = (level_cands possible cp (rt_cpus_mask p) l \<noteq> {}, None)"
    by (simp_all add: cpupri_find0_def level_at_rest(2) [OF assms] Let_def)
qed

definition fit_set :: "(nat \<Rightarrow> bool) option \<Rightarrow> nat set" where
  "fit_set fn = (case fn of None \<Rightarrow> UNIV | Some fits \<Rightarrow> {c. fits c})"

lemma levels_at_rest:
  assumes ok: "cpupri_ok possible cp" and l: "\<forall>l\<in>set ls. l < CPUPRI_NR_PRIORITIES"
  shows "\<exists>m'. cpupri_levels (\<lambda>_. cp) active p fn ls (Some m) =
    (case find (\<lambda>l. level_cands possible cp (rt_cpus_mask p \<inter> active \<inter> fit_set fn) l \<noteq> {}) ls of
       None \<Rightarrow> (False, Some m')
     | Some l \<Rightarrow> (True, Some (level_cands possible cp (rt_cpus_mask p \<inter> active \<inter> fit_set fn) l)))"
  using l
proof (induction ls arbitrary: m)
  case (Cons l ls)
  then have l: "l < CPUPRI_NR_PRIORITIES" by simp
  let ?m = "if level_cands possible cp (rt_cpus_mask p) l = {} then m else level_cands possible cp (rt_cpus_mask p \<inter> active) l"
  have f: "level_cands possible cp (rt_cpus_mask p \<inter> active \<inter> fit_set (Some fits)) l = {c \<in> level_cands possible cp (rt_cpus_mask p \<inter> active) l. fits c}" for fits
    by (auto simp: fit_set_def level_cands_def)
  have e: "level_cands possible cp (rt_cpus_mask p \<inter> active) l \<noteq> {} \<Longrightarrow> level_cands possible cp (rt_cpus_mask p) l \<noteq> {}"
    "level_cands possible cp (rt_cpus_mask p \<inter> active) l = {} \<Longrightarrow> level_cands possible cp (rt_cpus_mask p \<inter> active \<inter> fit_set fn) l = {}"
    by (auto simp: level_cands_def)
  show ?case
  proof (cases "level_cands possible cp (rt_cpus_mask p \<inter> active) l = {}")
    case True
    then show ?thesis using Cons.IH [of ?m] Cons.prems e(2) by (simp add: find0_at_rest(1) [OF ok l])
  next
    case False
    show ?thesis
    proof (cases fn)
      case None
      then show ?thesis using False e(1) by (simp add: find0_at_rest(1) [OF ok l] fit_set_def)
    next
      case (Some fits)
      then show ?thesis using False Cons.IH [of "{}"] Cons.prems e(1)
        by (cases "level_cands possible cp (rt_cpus_mask p \<inter> active \<inter> fit_set (Some fits)) l = {}")
          (simp_all add: find0_at_rest(1) [OF ok l] Let_def f [symmetric])
    qed
  qed
qed simp

lemma levels_at_rest_null:
  assumes ok: "cpupri_ok possible cp" and l: "\<forall>l\<in>set ls. l < CPUPRI_NR_PRIORITIES"
  shows "cpupri_levels (\<lambda>_. cp) active p fn ls None = (\<exists>l\<in>set ls. level_cands possible cp (rt_cpus_mask p) l \<noteq> {}, None)"
  using l by (induction ls) (auto simp: find0_at_rest(2) [OF ok] split: option.splits)

text \<open>The first level with a candidate holds the lowest CPUs.\<close>

lemma find_level_None:
  assumes "find (\<lambda>l. level_cands possible cp S l \<noteq> {}) [0..<nat tp] = None"
  shows "lowest_cpus (pri_of possible cp) (S \<inter> possible) tp = {}"
proof -
  have "\<not> (0 \<le> pri_of possible cp c \<and> pri_of possible cp c < tp)" if "c \<in> S \<inter> possible" for c
  proof
    assume r: "0 \<le> pri_of possible cp c \<and> pri_of possible cp c < tp"
    then have "c \<in> level_cands possible cp S (nat (pri_of possible cp c))" "nat (pri_of possible cp c) \<in> set [0..<nat tp]"
      using that by (auto simp: level_cands_def)
    then show False using assms by (auto simp: find_None_iff)
  qed
  then show ?thesis by (auto simp: lowest_cpus_def)
qed

lemma find_level_Some:
  assumes "find (\<lambda>l. level_cands possible cp S l \<noteq> {}) [0..<nat tp] = Some l"
  shows "lowest_cpus (pri_of possible cp) (S \<inter> possible) tp = level_cands possible cp S l" "level_cands possible cp S l \<noteq> {}"
proof -
  have i: "l < nat tp" "level_cands possible cp S l \<noteq> {}" "\<forall>j<l. level_cands possible cp S j = {}"
    using assms unfolding find_Some_iff by force+
  have below: "int l \<le> pri_of possible cp d" if "d \<in> S \<inter> possible" "0 \<le> pri_of possible cp d" for d
  proof (rule ccontr)
    assume "\<not> int l \<le> pri_of possible cp d"
    then have "nat (pri_of possible cp d) < l" "d \<in> level_cands possible cp S (nat (pri_of possible cp d))"
      using that by (auto simp: level_cands_def)
    then show False using i(3) by blast
  qed
  show "level_cands possible cp S l \<noteq> {}" by (rule i(2))
  then obtain d where d: "d \<in> level_cands possible cp S l" by blast
  show "lowest_cpus (pri_of possible cp) (S \<inter> possible) tp = level_cands possible cp S l"
  proof (intro set_eqI iffI)
    fix c assume "c \<in> lowest_cpus (pri_of possible cp) (S \<inter> possible) tp"
    then show "c \<in> level_cands possible cp S l" using d below [of c] by (force simp: lowest_cpus_def level_cands_def)
  next
    fix c assume "c \<in> level_cands possible cp S l"
    then show "c \<in> lowest_cpus (pri_of possible cp) (S \<inter> possible) tp"
      using below i by (auto simp: lowest_cpus_def level_cands_def)
  qed
qed

lemma levels_lowest:
  assumes ok: "cpupri_ok possible cp" and tp: "convert_prio (rt_prio p) = Some tp"
    and best: "best = lowest_cpus (pri_of possible cp) (rt_cpus_mask p \<inter> active \<inter> fit_set fn \<inter> possible) tp"
  shows "\<exists>m'. cpupri_levels (\<lambda>_. cp) active p fn (task_levels p) (Some m) = (best \<noteq> {}, Some (if best = {} then m' else best))"
proof -
  let ?f = "find (\<lambda>l. level_cands possible cp (rt_cpus_mask p \<inter> active \<inter> fit_set fn) l \<noteq> {}) [0..<nat tp]"
  have t: "task_levels p = [0..<nat tp]" "\<forall>l\<in>set [0..<nat tp]. l < CPUPRI_NR_PRIORITIES"
    using convert_prio_range [OF tp] tp by (auto simp: task_levels_def CPUPRI_NR_PRIORITIES_def)
  from levels_at_rest [OF ok t(2), of active p fn m] show ?thesis
    using find_level_None [of possible cp "rt_cpus_mask p \<inter> active \<inter> fit_set fn" tp]
      find_level_Some [of possible cp "rt_cpus_mask p \<inter> active \<inter> fit_set fn" tp]
    by (cases ?f) (auto simp: t(1) best)
qed

lemma levels_null:
  assumes ok: "cpupri_ok possible cp" and tp: "convert_prio (rt_prio p) = Some tp"
  shows "cpupri_levels (\<lambda>_. cp) active p fn (task_levels p) None =
    (lowest_cpus (pri_of possible cp) (rt_cpus_mask p \<inter> possible) tp \<noteq> {}, None)"
proof -
  let ?f = "find (\<lambda>l. level_cands possible cp (rt_cpus_mask p) l \<noteq> {}) [0..<nat tp]"
  have t: "task_levels p = [0..<nat tp]" "\<forall>l\<in>set [0..<nat tp]. l < CPUPRI_NR_PRIORITIES"
    using convert_prio_range [OF tp] tp by (auto simp: task_levels_def CPUPRI_NR_PRIORITIES_def)
  have "(\<exists>l\<in>set [0..<nat tp]. level_cands possible cp (rt_cpus_mask p) l \<noteq> {}) \<longleftrightarrow> ?f \<noteq> None"
    by (auto simp: find_None_iff)
  also have "\<dots> \<longleftrightarrow> lowest_cpus (pri_of possible cp) (rt_cpus_mask p \<inter> possible) tp \<noteq> {}"
    using find_level_None [of possible cp "rt_cpus_mask p" tp] find_level_Some [of possible cp "rt_cpus_mask p" tp] by (cases ?f) auto
  finally show ?thesis by (simp only: levels_at_rest_null [OF ok t(2)] t(1))
qed

section \<open>Sequences of operations\<close>

fun cpupri_exec :: "cpupri \<Rightarrow> nat \<times> int \<Rightarrow> cpupri option" where
  "cpupri_exec cp (c, p) = cpupri_set cp c p"

fun cpupri_spec :: "(nat \<Rightarrow> int) \<Rightarrow> nat \<times> int \<Rightarrow> nat \<Rightarrow> int" where
  "cpupri_spec pri (c, p) = pri(c := the (convert_prio p))"

fun cpupri_ready :: "nat set \<Rightarrow> nat \<times> int \<Rightarrow> bool" where
  "cpupri_ready possible (c, p) \<longleftrightarrow> c \<in> possible \<and> convert_prio p \<noteq> None"

interpretation cpupri_ops: total_refinement cpupri_exec cpupri_spec "cpupri_ready possible" "cpupri_ok possible" "pri_of possible" for possible
proof
  fix cp op assume "cpupri_ok possible cp" "cpupri_ready possible op"
  then show "\<exists>cp'. cpupri_exec cp op = Some cp' \<and> cpupri_ok possible cp' \<and> pri_of possible cp' = cpupri_spec (pri_of possible cp) op"
    using cpupri_set_ok [of possible cp "fst op" "snd op"] by (cases op) auto
qed

lemma cpupri_init_ok:
  assumes "cpupri_init vec_ok pri_ok n possible = Some cp" "possible \<subseteq> {..<n}"
  shows "cpupri_ok possible cp" "pri_of possible cp = (\<lambda>_. CPUPRI_INVALID)"
proof -
  have "cpu_to_pri cp ! c = CPUPRI_INVALID" if "c \<in> possible" for c
    using assms that by (auto simp: cpupri_init_def split: if_splits)
  then show "cpupri_ok possible cp" "pri_of possible cp = (\<lambda>_. CPUPRI_INVALID)"
    using assms by (auto simp: cpupri_ok_def cpupri_init_def level_mask_def level_count_def CPUPRI_INVALID_def pri_of_def split: if_splits)
qed

text \<open>
  C18: After initialisation and any sequence of \<open>cpupri_set\<close>, a search that runs alone returns the CPUs at the lowest priority.  The
  candidates are the active CPUs the task may run on; \<open>cpupri_find\<close> finds if one of them runs below the priority of the task, and
  returns all that run at the lowest priority among them.  \<open>cpupri_find_fitness\<close> does so for the candidates that fit, and only if none of
  those runs below the task for all candidates.  Without a mask to fill, the search asks for any possible CPU the task may run on.
\<close>

theorem cpupri_find_lowest:
  assumes "cpupri_init vec_ok pri_ok n possible = Some cp0" "possible \<subseteq> {..<n}" "list_all (cpupri_ready possible) ops"
    and tp: "convert_prio (rt_prio p) = Some tp"
  shows "\<exists>cp. run cpupri_exec cp0 ops = Some cp \<and>
    (let pri = foldl cpupri_spec (\<lambda>_. CPUPRI_INVALID) ops; cand = rt_cpus_mask p \<inter> active \<inter> possible;
         low = lowest_cpus pri cand tp; fit = lowest_cpus pri {c \<in> cand. fits c} tp;
         best = (if fit \<noteq> {} then fit else low);
         r = cpupri_find (\<lambda>_. cp) active p (Some m); r' = cpupri_find_fitness (\<lambda>_. cp) active p (Some m) (Some fits) in
     (fst r \<longleftrightarrow> low \<noteq> {}) \<and> (fst r \<longrightarrow> snd r = Some low) \<and> (fst r' \<longleftrightarrow> best \<noteq> {}) \<and> (fst r' \<longrightarrow> snd r' = Some best) \<and>
     cpupri_find (\<lambda>_. cp) active p None = (lowest_cpus pri (rt_cpus_mask p \<inter> possible) tp \<noteq> {}, None))"
proof -
  from cpupri_ops.run_ok [OF cpupri_init_ok(1) [OF assms(1,2)] assms(3)] cpupri_init_ok(2) [OF assms(1,2)]
  obtain cp where cp: "run cpupri_exec cp0 ops = Some cp" "cpupri_ok possible cp" "pri_of possible cp = foldl cpupri_spec (\<lambda>_. CPUPRI_INVALID) ops"
    by auto
  have s: "rt_cpus_mask p \<inter> active \<inter> fit_set (Some fits) \<inter> possible = {c \<in> rt_cpus_mask p \<inter> active \<inter> possible. fits c}"
    "rt_cpus_mask p \<inter> active \<inter> fit_set None \<inter> possible = rt_cpus_mask p \<inter> active \<inter> possible"
    by (auto simp: fit_set_def)
  note l = levels_lowest [OF cp(2) tp refl, of active None, unfolded s cp(3)]
  from levels_lowest [OF cp(2) tp refl, of active "Some fits" m, unfolded s cp(3)] obtain m1 where
    f: "cpupri_levels (\<lambda>_. cp) active p (Some fits) (task_levels p) (Some m) =
      (lowest_cpus (foldl cpupri_spec (\<lambda>_. CPUPRI_INVALID) ops) {c \<in> rt_cpus_mask p \<inter> active \<inter> possible. fits c} tp \<noteq> {},
       Some (if lowest_cpus (foldl cpupri_spec (\<lambda>_. CPUPRI_INVALID) ops) {c \<in> rt_cpus_mask p \<inter> active \<inter> possible. fits c} tp = {} then m1
         else lowest_cpus (foldl cpupri_spec (\<lambda>_. CPUPRI_INVALID) ops) {c \<in> rt_cpus_mask p \<inter> active \<inter> possible. fits c} tp))" by blast
  show ?thesis
    using cp(1) l [of m] l [of m1] f levels_null [OF cp(2) tp, of active None, unfolded cp(3)]
    by (auto simp: Let_def cpupri_find_def cpupri_find_fitness_def split: prod.splits if_splits)
qed

definition example_pri :: cpupri where
  "example_pri = the (cpupri_init (\<lambda>_. True) True 3 {0, 1, 2})"

lemma example_pri_init: "cpupri_init (\<lambda>_. True) True 3 {0, 1, 2} = Some example_pri"
  by (simp add: example_pri_def cpupri_init_def list_all_iff)

definition example_rt_task :: rt_task where
  "example_rt_task = \<lparr>rt_prio = 10, rt_cpus_mask = {1, 2}\<rparr>"

theorem cpupri_find_lowest_witness:
  "\<exists>cp. run cpupri_exec example_pri [(0, 99), (1, 50), (2, 98)] = Some cp \<and>
     cpupri_find (\<lambda>_. cp) {0, 1, 2} example_rt_task (Some {}) = (True, Some {2}) \<and>
     cpupri_find_fitness (\<lambda>_. cp) {0, 1, 2} example_rt_task (Some {}) (Some (\<lambda>c. c = 1)) = (True, Some {1})"
proof -
  have tp: "convert_prio (rt_prio example_rt_task) = Some 89" by (simp add: example_rt_task_def convert_prio_def CPUPRI_INVALID_def)
  have ready: "list_all (cpupri_ready {0, 1, 2}) [(0, 99), (1, 50), (2, 98)]" by (simp add: convert_prio_def CPUPRI_INVALID_def)
  have sub: "{0, 1, 2} \<subseteq> {..<3 :: nat}" by simp
  have pri: "foldl cpupri_spec (\<lambda>_. CPUPRI_INVALID) [(0, 99), (1, 50), (2, 98)] = (\<lambda>_. - 1)(0 := 0, 1 := 49, 2 := 1)"
    by (simp add: convert_prio_def CPUPRI_INVALID_def)
  have cand: "rt_cpus_mask example_rt_task \<inter> {0, 1, 2} \<inter> {0, 1, 2} = {1, 2}" "{c \<in> {1, 2}. c = 1} = {1 :: nat}"
    by (auto simp: example_rt_task_def)
  have low: "lowest_cpus ((\<lambda>_. - 1)(0 := 0, 1 := 49, 2 := 1)) {1, 2} 89 = {2}" "lowest_cpus ((\<lambda>_. - 1)(0 := 0, 1 := 49, 2 := 1)) {1} 89 = {1}"
    by (auto simp: lowest_cpus_def)
  from cpupri_find_lowest [OF example_pri_init sub ready tp, of "{0, 1, 2}" "\<lambda>c. c = 1" "{}"] show ?thesis
    unfolding pri Let_def cand low by (simp add: prod_eq_iff) blast
qed

end
