(* ===== verification/Cpupri_Conc.thy ===== *)
theory Cpupri_Conc
  imports Cpupri_Props "HOL-Library.Sublist"
begin

text \<open>
  Updates of several CPUs and a search at the same time: the stores of \<open>cpupri_set\<close> as steps, an invariant of all interleavings, and
  what the order of the stores is for.
\<close>

section \<open>Interleaved operations\<close>

text \<open>
  Every CPU may be inside a \<open>cpupri_set\<close> of its own (the caller holds the lock of the runqueue); the state holds the stores it has still to do.
\<close>

type_synonym pri_sys = "cpupri \<times> (nat \<Rightarrow> pri_store list)"

datatype pri_label = Start nat int | Store nat | Pause

inductive pri_step :: "nat set \<Rightarrow> pri_sys \<Rightarrow> pri_label \<Rightarrow> pri_sys \<Rightarrow> bool" for possible where
  pri_start: "c \<in> possible \<Longrightarrow> pend c = [] \<Longrightarrow> convert_prio p = Some q \<Longrightarrow>
    pri_step possible (cp, pend) (Start c p) (cp, pend(c := cpupri_set_stores c (cpu_to_pri cp ! c) q))"
| pri_write: "c \<in> possible \<Longrightarrow> pend c = s # ss \<Longrightarrow> pri_step possible (cp, pend) (Store c) (apply_store s cp, pend(c := ss))"
| pri_pause: "pri_step possible s Pause s"

text \<open>
  What a CPU with priority \<open>q\<close> and stores \<open>r\<close> to do contributes to the counter of a level, and whether its bit is in the mask.
\<close>

definition target_pri :: "pri_store list \<Rightarrow> int \<Rightarrow> int" where
  "target_pri r q = (if r = [] then q else case last r of Set_Pri c p \<Rightarrow> p | _ \<Rightarrow> q)"

definition counted :: "nat \<Rightarrow> pri_store list \<Rightarrow> int \<Rightarrow> int" where
  "counted l r q = of_bool (target_pri r q = int l) - int (count_list r (Inc_Count l)) + int (count_list r (Dec_Count l))"

definition masked :: "nat \<Rightarrow> nat \<Rightarrow> pri_store list \<Rightarrow> int \<Rightarrow> bool" where
  "masked l c r q \<longleftrightarrow> target_pri r q = int l \<and> Set_Mask l c \<notin> set r \<or> Clear_Mask l c \<in> set r"

definition pri_range :: "int \<Rightarrow> bool" where
  "pri_range q \<longleftrightarrow> - 1 \<le> q \<and> q \<le> 100"

definition in_set :: "nat \<Rightarrow> pri_store list \<Rightarrow> int \<Rightarrow> int \<Rightarrow> bool" where
  "in_set c r q new \<longleftrightarrow> pri_range q \<and> pri_range new \<and> (r = [] \<or> q \<noteq> new \<and> suffix r (cpupri_set_stores c q new))"

lemmas local_defs = counted_def masked_def target_pri_def cpupri_set_stores_def CPUPRI_INVALID_def

lemma pri_levels:
  "pri_range q \<Longrightarrow> q \<noteq> - 1 \<Longrightarrow> q = int l \<longleftrightarrow> nat q = l" "pri_range q \<Longrightarrow> q \<noteq> - 1 \<Longrightarrow> nat q < CPUPRI_NR_PRIORITIES"
  by (auto simp: pri_range_def CPUPRI_NR_PRIORITIES_def)

lemma start_local:
  assumes "pri_range q" "pri_range new"
  shows "counted l (cpupri_set_stores c q new) q = counted l [] q" "masked l c (cpupri_set_stores c q new) q = masked l c [] q"
    "in_set c (cpupri_set_stores c q new) q new"
  using assms pri_levels(1) [of q l] pri_levels(1) [of new l]
  by (auto simp: local_defs in_set_def)

lemma suffix_stores:
  assumes "suffix r (cpupri_set_stores c q new)" "q \<noteq> new" "r \<noteq> []"
  shows "r = cpupri_set_stores c q new \<or>
    new \<noteq> - 1 \<and> r = Inc_Count (nat new) # (if q \<noteq> - 1 then [Dec_Count (nat q), Clear_Mask (nat q) c] else []) @ [Set_Pri c new] \<or>
    q \<noteq> - 1 \<and> r = [Dec_Count (nat q), Clear_Mask (nat q) c, Set_Pri c new] \<or>
    q \<noteq> - 1 \<and> r = [Clear_Mask (nat q) c, Set_Pri c new] \<or> r = [Set_Pri c new]"
  using assms by (auto simp: cpupri_set_stores_def CPUPRI_INVALID_def suffix_Cons split: if_splits)

lemma counted_local:
  assumes "in_set c r q new"
  shows "0 \<le> counted l r q" "1 \<le> counted l r q \<Longrightarrow> masked l c r q"
proof -
  have "0 \<le> counted l r q \<and> (1 \<le> counted l r q \<longrightarrow> masked l c r q)"
  proof (cases "r = []")
    case False
    then have s: "suffix r (cpupri_set_stores c q new)" "q \<noteq> new" and p: "pri_range q" "pri_range new" using assms by (auto simp: in_set_def)
    from suffix_stores [OF s False] pri_levels(1) [OF p(1), of l] pri_levels(1) [OF p(2), of l] s(2) show ?thesis
      by (auto simp: local_defs split: if_splits)
  qed (auto simp: local_defs)
  then show "0 \<le> counted l r q" "1 \<le> counted l r q \<Longrightarrow> masked l c r q" by auto
qed

text \<open>A store moves a CPU by what it writes.\<close>

lemma store_local:
  assumes i: "in_set c (s # ss) q new" and q': "q' = (case s of Set_Pri d p \<Rightarrow> p | _ \<Rightarrow> q)"
  shows "counted l ss q' = counted l (s # ss) q + of_bool (s = Inc_Count l) - of_bool (s = Dec_Count l)"
    "masked l c ss q' \<longleftrightarrow> (masked l c (s # ss) q \<or> s = Set_Mask l c) \<and> s \<noteq> Clear_Mask l c"
    "in_set c ss q' (if ss = [] then q' else new)" "store_level s < CPUPRI_NR_PRIORITIES"
    "d \<noteq> c \<Longrightarrow> s \<noteq> Set_Mask l d \<and> s \<noteq> Clear_Mask l d" "\<And>d p. s = Set_Pri d p \<Longrightarrow> d = c \<and> p = new \<and> ss = []"
proof -
  have s: "suffix (s # ss) (cpupri_set_stores c q new)" "q \<noteq> new" and p: "pri_range q" "pri_range new" using i by (auto simp: in_set_def)
  note sf = suffix_stores [OF s list.distinct(2)]
  note lv = pri_levels(1) [OF p(1), of l] pri_levels(1) [OF p(2), of l] pri_levels(2) [OF p(1)] pri_levels(2) [OF p(2)]
  show "counted l ss q' = counted l (s # ss) q + of_bool (s = Inc_Count l) - of_bool (s = Dec_Count l)"
    "masked l c ss q' \<longleftrightarrow> (masked l c (s # ss) q \<or> s = Set_Mask l c) \<and> s \<noteq> Clear_Mask l c"
    using sf lv s(2) q' by (auto simp: local_defs split: if_splits)
  show "store_level s < CPUPRI_NR_PRIORITIES" "d \<noteq> c \<Longrightarrow> s \<noteq> Set_Mask l d \<and> s \<noteq> Clear_Mask l d"
    using sf lv by (auto simp: local_defs CPUPRI_NR_PRIORITIES_def split: if_splits)
  show sp: "\<And>d p. s = Set_Pri d p \<Longrightarrow> d = c \<and> p = new \<and> ss = []"
    using sf by (auto simp: local_defs split: if_splits)
  show "in_set c ss q' (if ss = [] then q' else new)"
    using sp p s suffix_ConsD [OF s(1)] q' by (cases s) (auto simp: in_set_def)
qed

definition conc_ok :: "nat set \<Rightarrow> pri_sys \<Rightarrow> bool" where
  "conc_ok possible s \<longleftrightarrow> (case s of (cp, pend) \<Rightarrow>
     length (pri_to_cpu cp) = CPUPRI_NR_PRIORITIES \<and> possible \<subseteq> {..<length (cpu_to_pri cp)} \<and>
     (\<forall>c\<in>possible. \<exists>new. in_set c (pend c) (cpu_to_pri cp ! c) new) \<and>
     (\<forall>c\<in>possible. \<forall>l<CPUPRI_NR_PRIORITIES. c \<in> level_mask cp l \<longleftrightarrow> masked l c (pend c) (cpu_to_pri cp ! c)) \<and>
     (\<forall>l<CPUPRI_NR_PRIORITIES. level_count cp l = (\<Sum>c\<in>possible. counted l (pend c) (cpu_to_pri cp ! c))))"

lemma apply_store_pri_at:
  assumes "in_set c (s # ss) (cpu_to_pri cp ! c) new" "c < length (cpu_to_pri cp)"
  shows "cpu_to_pri (apply_store s cp) ! d = (if d = c then case s of Set_Pri e p \<Rightarrow> p | _ \<Rightarrow> cpu_to_pri cp ! c else cpu_to_pri cp ! d)"
  using store_local(6) [OF assms(1) refl] assms(2) by (cases s) (auto simp: nth_list_update)

lemma conc_step:
  assumes "pri_step possible s l s'" "conc_ok possible s"
  shows "conc_ok possible s'"
  using assms
proof cases
  case (pri_start c pend p q cp)
  have o: "possible \<subseteq> {..<length (cpu_to_pri cp)}" "pri_range (cpu_to_pri cp ! c)" "pri_range q"
    using assms(2) pri_start convert_prio_range [of p q] by (auto simp: conc_ok_def in_set_def pri_range_def)
  note sl = start_local [OF o(2,3), where c = c]
  have "counted l ((pend(c := cpupri_set_stores c (cpu_to_pri cp ! c) q)) d) (cpu_to_pri cp ! d) = counted l (pend d) (cpu_to_pri cp ! d)" for l d
    using sl(1) pri_start(5) by simp
  then show ?thesis using assms(2) pri_start sl by (auto simp: conc_ok_def)
next
  case (pri_write c pend st ss cp)
  have o: "length (pri_to_cpu cp) = CPUPRI_NR_PRIORITIES" "possible \<subseteq> {..<length (cpu_to_pri cp)}"
    "\<And>d. d \<in> possible \<Longrightarrow> \<exists>new. in_set d (pend d) (cpu_to_pri cp ! d) new"
    "\<And>d l. d \<in> possible \<Longrightarrow> l < CPUPRI_NR_PRIORITIES \<Longrightarrow> d \<in> level_mask cp l \<longleftrightarrow> masked l d (pend d) (cpu_to_pri cp ! d)"
    "\<And>l. l < CPUPRI_NR_PRIORITIES \<Longrightarrow> level_count cp l = (\<Sum>c\<in>possible. counted l (pend c) (cpu_to_pri cp ! c))"
    using assms(2) pri_write(1) by (auto simp: conc_ok_def)
  from o(3) [OF pri_write(4)] pri_write(5) obtain new where i: "in_set c (st # ss) (cpu_to_pri cp ! c) new" by auto
  define q' where "q' = (case st of Set_Pri d p \<Rightarrow> p | _ \<Rightarrow> cpu_to_pri cp ! c)"
  note sl = store_local [OF i q'_def] and fin = finite_subset [OF o(2) finite_lessThan]
  have c: "c < length (cpu_to_pri cp)" using o(2) pri_write(4) by auto
  note at = apply_store_pri_at [OF i c, folded q'_def]
  have lv: "store_level st < length (pri_to_cpu cp)" using sl(4) o(1) by simp
  let ?p = "pend(c := ss)" and ?cp = "apply_store st cp"
  have "(\<Sum>d\<in>possible. counted l (?p d) (cpu_to_pri ?cp ! d)) =
      (\<Sum>d\<in>possible. counted l (pend d) (cpu_to_pri cp ! d) + (if d = c then of_bool (st = Inc_Count l) - of_bool (st = Dec_Count l) else 0))" for l
    by (rule sum.cong) (simp_all add: at sl(1) pri_write(5))
  then have "(\<Sum>d\<in>possible. counted l (?p d) (cpu_to_pri ?cp ! d)) = level_count ?cp l" if "l < CPUPRI_NR_PRIORITIES" for l
    using o(5) [OF that] fin pri_write(4) by (simp add: sum.distrib sum.delta apply_store_count [OF lv])
  moreover have "d \<in> level_mask ?cp l \<longleftrightarrow> masked l d (?p d) (cpu_to_pri ?cp ! d)" if "d \<in> possible" "l < CPUPRI_NR_PRIORITIES" for d l
    using o(4) [OF that] sl(2,5) pri_write(5) by (cases "d = c") (simp_all add: apply_store_mask [OF lv] at)
  moreover have "\<exists>new. in_set d (?p d) (cpu_to_pri ?cp ! d) new" if "d \<in> possible" for d
    using o(3) [OF that] sl(3) by (cases "d = c") (auto simp: at)
  ultimately show ?thesis using o(1,2) pri_write(2,3) by (simp add: conc_ok_def)
qed simp

lemma conc_init:
  assumes "cpupri_ok possible cp"
  shows "conc_ok possible (cp, \<lambda>_. [])"
proof -
  have fin: "finite possible" using assms finite_subset [of possible] by (auto simp: cpupri_ok_def)
  have "level_count cp l = (\<Sum>c\<in>possible. counted l [] (cpu_to_pri cp ! c))" if "l < CPUPRI_NR_PRIORITIES" for l
  proof -
    have "(\<Sum>c\<in>possible. counted l [] (cpu_to_pri cp ! c)) = (\<Sum>c\<in>possible. if cpu_to_pri cp ! c = int l then 1 else 0)"
      by (rule sum.cong) (auto simp: counted_def target_pri_def)
    also have "\<dots> = int (card {c \<in> possible. cpu_to_pri cp ! c = int l})" using fin by (simp add: sum.If_cases Int_def)
    finally show ?thesis using assms that by (simp add: cpupri_ok_def)
  qed
  then show ?thesis using assms by (auto simp: conc_ok_def cpupri_ok_def in_set_def pri_range_def masked_def target_pri_def)
qed

text \<open>A CPU that contributes to a level is seen there.\<close>

lemma conc_seen:
  assumes ok: "conc_ok possible (cp, pend)" and c: "c \<in> possible" "1 \<le> counted l (pend c) (cpu_to_pri cp ! c)" and l: "l < CPUPRI_NR_PRIORITIES"
  shows "level_count cp l \<noteq> 0" "c \<in> level_mask cp l"
proof -
  have fin: "finite possible" using ok finite_subset [of possible] by (auto simp: conc_ok_def)
  have i: "\<And>d. d \<in> possible \<Longrightarrow> \<exists>new. in_set d (pend d) (cpu_to_pri cp ! d) new" using ok by (auto simp: conc_ok_def)
  have "counted l (pend c) (cpu_to_pri cp ! c) \<le> (\<Sum>c\<in>possible. counted l (pend c) (cpu_to_pri cp ! c))"
    using i counted_local(1) by (intro member_le_sum [OF c(1) _ fin]) blast
  then show "level_count cp l \<noteq> 0" using c(2) ok l by (auto simp: conc_ok_def)
  show "c \<in> level_mask cp l" using i [OF c(1)] counted_local(2) c ok l by (fastforce simp: conc_ok_def)
qed

text \<open>The places of a CPU that is raised from one priority to another, at most once.\<close>

definition raising :: "nat \<Rightarrow> int \<Rightarrow> int \<Rightarrow> pri_sys \<Rightarrow> bool" where
  "raising c a b s \<longleftrightarrow> (case s of (cp, pend) \<Rightarrow>
     cpu_to_pri cp ! c = a \<and> suffix (pend c) (cpupri_set_stores c a b) \<or> cpu_to_pri cp ! c = b \<and> pend c = [])"

definition arrived :: "nat \<Rightarrow> int \<Rightarrow> pri_sys \<Rightarrow> bool" where
  "arrived c b s \<longleftrightarrow> (case s of (cp, pend) \<Rightarrow> 1 \<le> counted (nat b) (pend c) (cpu_to_pri cp ! c))"

lemma raising_step:
  assumes st: "pri_step possible s l s'" and ok: "conc_ok possible s" and c: "c \<in> possible" and ab: "0 \<le> a" "a < b" "b \<le> 100"
    and r: "raising c a b s" and l: "\<And>p. l = Start c p \<Longrightarrow> convert_prio p = Some b"
  shows "raising c a b s'" "arrived c b s \<Longrightarrow> arrived c b s'"
proof -
  have "raising c a b s' \<and> (arrived c b s \<longrightarrow> arrived c b s')"
    using st
  proof cases
    case (pri_start d pend p q cp)
    show ?thesis
    proof (cases "d = c")
      case True
      then have "q = b" using l pri_start by simp
      then show ?thesis using r pri_start True ab
        by (auto simp: raising_def arrived_def local_defs)
    qed (use r pri_start in \<open>auto simp: raising_def arrived_def\<close>)
  next
    case (pri_write d pend st ss cp)
    have "\<exists>new. in_set d (pend d) (cpu_to_pri cp ! d) new" and dl: "d < length (cpu_to_pri cp)"
      using ok pri_write(1,4) by (auto simp: conc_ok_def)
    then obtain new where i: "in_set d (st # ss) (cpu_to_pri cp ! d) new" using pri_write(5) by auto
    show ?thesis
    proof (cases "d = c")
      case True
      have s: "cpu_to_pri cp ! c = a" "suffix (st # ss) (cpupri_set_stores c a b)" "a \<noteq> b" using r pri_write True ab by (auto simp: raising_def)
      then have i': "in_set c (st # ss) (cpu_to_pri cp ! c) b" using ab by (auto simp: in_set_def pri_range_def)
      note at = apply_store_pri_at [OF i' dl [unfolded True], of c] and sl = store_local [OF i' refl]
      have "raising c a b s'"
        using sl(6) s suffix_ConsD [OF s(2)] pri_write True at by (cases st) (auto simp: raising_def)
      moreover have "st = Dec_Count (nat b) \<longrightarrow> False"
        using suffix_stores [OF s(2,3) list.distinct(2)] ab by (auto simp: local_defs)
      ultimately show ?thesis using sl(1) [of "nat b"] pri_write True at by (auto simp: arrived_def)
    qed (use r pri_write apply_store_pri_at [OF i dl] in \<open>auto simp: raising_def arrived_def\<close>)
  qed (use r in simp)
  then show "raising c a b s'" "arrived c b s \<Longrightarrow> arrived c b s'" by auto
qed

lemma raising_left:
  assumes "raising c a b (cp, pend)" "0 \<le> a" "a < b" "b \<le> 100" "\<not> arrived c b (cp, pend)"
  shows "1 \<le> counted (nat a) (pend c) (cpu_to_pri cp ! c)"
proof -
  have s: "cpu_to_pri cp ! c = a" "suffix (pend c) (cpupri_set_stores c a b)" "a \<noteq> b"
    using assms by (auto simp: raising_def arrived_def counted_def target_pri_def)
  show ?thesis
  proof (cases "pend c = []")
    case False
    from suffix_stores [OF s(2,3) False] assms s show ?thesis by (auto simp: arrived_def local_defs)
  qed (use s assms in \<open>auto simp: local_defs\<close>)
qed

section \<open>A search during an update\<close>

definition sees :: "(nat \<Rightarrow> cpupri) \<Rightarrow> nat \<Rightarrow> nat \<Rightarrow> bool" where
  "sees mem c l \<longleftrightarrow> level_count (mem (3 * l)) l \<noteq> 0 \<and> c \<in> level_mask (mem (3 * l + 1)) l \<and> c \<in> level_mask (mem (3 * l + 2)) l"

lemma levels_sees:
  assumes "l \<in> set ls" "sees mem c l" "c \<in> rt_cpus_mask p" "c \<in> active"
  shows "fst (cpupri_levels mem active p None ls lm)"
  using assms(1)
proof (induction ls arbitrary: lm)
  case (Cons i ls)
  have "fst (cpupri_find0 (level_count (mem (3 * l)) l) (level_mask (mem (3 * l + 1)) l) (level_mask (mem (3 * l + 2)) l) active p lm)"
    using assms(2-4) by (auto simp: sees_def cpupri_find0_def Let_def split: option.splits)
  then show ?case using Cons by (auto split: prod.splits option.splits)
qed simp

lemma levels_result:
  assumes "cpupri_levels mem active p None ls (Some m0) = (True, lm)"
  shows "\<exists>m. lm = Some m \<and> m \<noteq> {} \<and> m \<subseteq> rt_cpus_mask p \<inter> active"
  using assms
  by (induction ls arbitrary: m0) (auto simp: cpupri_find0_def Let_def split: if_splits)

lemma conc_path:
  assumes "conc_ok possible (\<sigma> 0)" "\<And>n. pri_step possible (\<sigma> n) (l n) (\<sigma> (Suc n))"
  shows "conc_ok possible (\<sigma> n)"
  by (induction n) (auto intro: assms(1) conc_step [OF assms(2)])

lemma raising_path:
  assumes path: "\<And>n. conc_ok possible (\<sigma> n)" "\<And>n. pri_step possible (\<sigma> n) (l n) (\<sigma> (Suc n))" and c: "c \<in> possible"
    and ab: "0 \<le> a" "a < b" "b \<le> 100" and r: "raising c a b (\<sigma> n0)" and l: "\<forall>n p. n0 \<le> n \<longrightarrow> l n = Start c p \<longrightarrow> convert_prio p = Some b"
  shows "n0 \<le> n \<Longrightarrow> raising c a b (\<sigma> n)" "n0 \<le> n \<Longrightarrow> arrived c b (\<sigma> n) \<Longrightarrow> n \<le> m \<Longrightarrow> arrived c b (\<sigma> m)"
proof -
  show r: "raising c a b (\<sigma> n)" if "n0 \<le> n" for n
    using that by (induction n rule: dec_induct) (use l in \<open>auto intro: r raising_step(1) [OF path(2,1) c ab]\<close>)
  show "arrived c b (\<sigma> m)" if "n0 \<le> n" "arrived c b (\<sigma> n)" "n \<le> m"
    using that(3)
  proof (induction m rule: dec_induct)
    case (step k)
    then have "n0 \<le> k" using that(1) by simp
    with l have "\<And>p. l k = Start c p \<Longrightarrow> convert_prio p = Some b" by blast
    from raising_step(2) [OF path(2,1) c ab r [OF \<open>n0 \<le> k\<close>] this step.IH] show ?case .
  qed (rule that(2))
qed

lemma seen_or_arrived:
  assumes ok: "conc_ok possible s" and c: "c \<in> possible" and ab: "0 \<le> a" "a < b" "b \<le> 100" and r: "raising c a b s"
  shows "\<not> arrived c b s \<Longrightarrow> level_count (fst s) (nat a) \<noteq> 0 \<and> c \<in> level_mask (fst s) (nat a)"
    "arrived c b s \<Longrightarrow> level_count (fst s) (nat b) \<noteq> 0 \<and> c \<in> level_mask (fst s) (nat b)"
proof -
  obtain cp pend where s: "s = (cp, pend)" by (cases s)
  have n: "nat a < CPUPRI_NR_PRIORITIES" "nat b < CPUPRI_NR_PRIORITIES" using ab by (auto simp: CPUPRI_NR_PRIORITIES_def)
  show "\<not> arrived c b s \<Longrightarrow> level_count (fst s) (nat a) \<noteq> 0 \<and> c \<in> level_mask (fst s) (nat a)"
    using conc_seen [OF ok [unfolded s] c _ n(1)] raising_left [OF r [unfolded s] ab] by (simp add: s)
  show "arrived c b s \<Longrightarrow> level_count (fst s) (nat b) \<noteq> 0 \<and> c \<in> level_mask (fst s) (nat b)"
    using conc_seen [OF ok [unfolded s] c _ n(2)] by (simp add: s arrived_def)
qed

text \<open>
  C17: A search is not blind to a CPU whose priority rises while it looks.  Any number of CPUs may be inside \<open>cpupri_set\<close>, their stores
  interleaved with each other and with the reads of the search.  If an active CPU the task may run on has, when the search begins, a
  priority below the one of the task, and is at most raised during the search, to another priority below the one of the task, then the
  search finds: it sees the CPU at the old level or at the new one, unless it stops before, with a mask of active CPUs the task may run on.
\<close>

theorem cpupri_find_concurrent:
  assumes init: "cpupri_init vec_ok pri_ok n possible = Some cp0" "possible \<subseteq> {..<n}" "\<sigma> 0 = (cp0, \<lambda>_. [])"
    and path: "\<And>k. pri_step possible (\<sigma> k) (l k) (\<sigma> (Suc k))" and t: "mono t"
    and c: "c \<in> possible" "c \<in> rt_cpus_mask p" "c \<in> active"
    and old: "cpu_to_pri (fst (\<sigma> (t 0))) ! c = a" "snd (\<sigma> (t 0)) c = []" "0 \<le> a"
    and new: "\<forall>k q. t 0 \<le> k \<longrightarrow> l k = Start c q \<longrightarrow> convert_prio q = Some b" and b: "a < b" "convert_prio (rt_prio p) = Some tp" "b < tp"
  shows "\<exists>m. cpupri_find (\<lambda>k. fst (\<sigma> (t k))) active p (Some m0) = (True, Some m) \<and> m \<noteq> {} \<and> m \<subseteq> rt_cpus_mask p \<inter> active"
proof -
  let ?mem = "\<lambda>k. fst (\<sigma> (t k))"
  have tp: "b \<le> 100" "nat a \<in> set (task_levels p)" "nat b \<in> set (task_levels p)"
    using convert_prio_range [OF b(2)] b old(3) by (auto simp: task_levels_def)
  note ab = old(3) b(1) tp(1)
  have ok: "conc_ok possible (\<sigma> k)" for k
    using conc_path [where \<sigma> = \<sigma> and l = l, OF _ path] conc_init [OF cpupri_init_ok(1) [OF init(1,2)]] init(3) by simp
  have r0: "raising c a b (\<sigma> (t 0))" using old by (auto simp: raising_def split: prod.splits)
  note rp = raising_path [where \<sigma> = \<sigma> and l = l, OF ok path c(1) ab r0 new]
  have tk: "t 0 \<le> t k" "k \<le> k' \<Longrightarrow> t k \<le> t k'" for k k' using t by (auto simp: mono_def)
  note so = seen_or_arrived [OF ok c(1) ab rp(1) [OF tk(1)]]
  have "sees ?mem c (nat a) \<or> sees ?mem c (nat b)"
  proof (cases "arrived c b (\<sigma> (t (3 * nat b)))")
    case True
    have "arrived c b (\<sigma> (t (3 * nat b + j)))" for j
      using rp(2) [OF tk(1) True, of "t (3 * nat b + j)"] tk(2) [of "3 * nat b" "3 * nat b + j"] by simp
    from so(2) [OF this [of 0]] so(2) [OF this [of 1]] so(2) [OF this [of 2]] show ?thesis by (simp add: sees_def)
  next
    case False
    have "\<not> arrived c b (\<sigma> (t k))" if "k \<le> 3 * nat b" for k using False rp(2) [OF tk(1) _ tk(2) [OF that]] by blast
    from so(1) [OF this [of "3 * nat a"]] so(1) [OF this [of "3 * nat a + 1"]] so(1) [OF this [of "3 * nat a + 2"]] show ?thesis
      using ab by (simp add: sees_def)
  qed
  then have "fst (cpupri_find ?mem active p (Some m0))" unfolding cpupri_find_def using levels_sees [OF _ _ c(2,3)] tp(2,3) by blast
  then obtain lm where "cpupri_find ?mem active p (Some m0) = (True, lm)" by (metis (full_types) prod.collapse)
  then show ?thesis using levels_result [of ?mem active p "task_levels p" m0 lm] by (simp add: cpupri_find_def)
qed
text \<open>A CPU is set to the priority of normal tasks and then raised, while a search is between its reads.\<close>

definition example_labels :: "pri_label list" where
  "example_labels = [Start 0 99, Store 0, Store 0, Store 0, Start 0 89, Store 0, Store 0, Store 0, Store 0, Store 0]"

fun pri_next :: "pri_sys \<Rightarrow> pri_label \<Rightarrow> pri_sys" where
  "pri_next (cp, pend) (Start c p) = (cp, pend(c := cpupri_set_stores c (cpu_to_pri cp ! c) (the (convert_prio p))))"
| "pri_next (cp, pend) (Store c) = (case pend c of [] \<Rightarrow> (cp, pend) | s # ss \<Rightarrow> (apply_store s cp, pend(c := ss)))"
| "pri_next s Pause = s"

definition example_path :: "nat \<Rightarrow> pri_sys" where
  "example_path k = foldl pri_next (example_pri, \<lambda>_. []) (take k example_labels)"

definition example_label :: "nat \<Rightarrow> pri_label" where
  "example_label k = (if k < length example_labels then example_labels ! k else Pause)"

definition example_time :: "nat \<Rightarrow> nat" where
  "example_time k = (if k = 0 then 4 else 8 + k)"

fun can_step :: "pri_sys \<Rightarrow> pri_label \<Rightarrow> bool" where
  "can_step (cp, pend) (Start c p) \<longleftrightarrow> c \<in> {0, 1, 2} \<and> pend c = [] \<and> convert_prio p \<noteq> None"
| "can_step (cp, pend) (Store c) \<longleftrightarrow> c \<in> {0, 1, 2} \<and> pend c \<noteq> []"
| "can_step s Pause \<longleftrightarrow> True"

lemma can_step_next: "can_step s l \<Longrightarrow> pri_step {0, 1, 2} s l (pri_next s l)"
  by (cases "(s, l)" rule: can_step.cases) (auto simp: neq_Nil_conv intro: pri_step.intros)

lemma example_pri_at [simp]: "cpu_to_pri example_pri ! 0 = CPUPRI_INVALID" "length (cpu_to_pri example_pri) = 3"
  by (simp_all add: example_pri_def cpupri_init_def list_all_iff)

lemma example_can_step: "can_step (example_path k) (example_label k)"
proof (cases "k < 10")
  case True
  then have "k \<in> set [0, 1, 2, 3, 4, 5, 6, 7, 8, 9]" by auto
  then show ?thesis
    by (auto simp: example_path_def example_label_def example_labels_def convert_prio_def cpupri_set_stores_def CPUPRI_INVALID_def)
qed (simp add: example_label_def example_labels_def)

lemma example_pri_step: "pri_step {0, 1, 2} (example_path k) (example_label k) (example_path (Suc k))"
proof -
  have "example_path (Suc k) = pri_next (example_path k) (example_label k)"
    by (cases "k < length example_labels") (simp_all add: example_path_def example_label_def take_Suc_conv_app_nth)
  then show ?thesis using can_step_next [OF example_can_step] by simp
qed

theorem cpupri_find_concurrent_witness:
  "\<exists>m. cpupri_find (\<lambda>k. fst (example_path (example_time k))) {0, 1, 2} (example_rt_task\<lparr>rt_cpus_mask := {0}\<rparr>) (Some {}) = (True, Some m) \<and>
     m \<noteq> {} \<and> m \<subseteq> {0}"
proof -
  let ?p = "example_rt_task\<lparr>rt_cpus_mask := {0}\<rparr>"
  have sub: "{0, 1, 2} \<subseteq> {..<3 :: nat}" by simp
  have e0: "example_path 0 = (example_pri, \<lambda>_. [])" by (simp add: example_path_def)
  have t: "mono example_time" by (auto simp: mono_def example_time_def)
  have e4: "cpu_to_pri (fst (example_path (example_time 0))) ! 0 = 0" "snd (example_path (example_time 0)) 0 = []"
    by (simp_all add: example_time_def example_path_def example_labels_def convert_prio_def cpupri_set_stores_def CPUPRI_INVALID_def)
  have new: "\<forall>k q. example_time 0 \<le> k \<longrightarrow> example_label k = Start 0 q \<longrightarrow> convert_prio q = Some 10"
  proof (intro allI impI)
    fix k q assume k: "example_time 0 \<le> k" "example_label k = Start 0 q"
    then have "k \<in> set [4, 5, 6, 7, 8, 9]" by (auto simp: example_time_def example_label_def example_labels_def split: if_splits)
    then show "convert_prio q = Some 10" using k(2) by (auto simp: example_label_def example_labels_def convert_prio_def CPUPRI_INVALID_def)
  qed
  have c: "0 \<in> {0, 1, 2 :: nat}" "0 \<in> rt_cpus_mask ?p" by simp_all
  have tp: "convert_prio (rt_prio ?p) = Some 89" by (simp add: example_rt_task_def convert_prio_def CPUPRI_INVALID_def)
  have l: "(0 :: int) \<le> 0" "(0 :: int) < 10" "(10 :: int) < 89" by simp_all
  from cpupri_find_concurrent [OF example_pri_init sub e0 example_pri_step t c c(1) e4 l(1) new l(2) tp l(3), of "{}"]
  show ?thesis by auto
qed

end
