(* ===== verification/Loadavg.thy ===== *)
theory Loadavg
  imports Sched_Prelude
begin

text \<open>
  The global load average (kernel/sched/loadavg.c): every CPU folds the change of its number of active tasks into a global counter, at its
  tick or when it stops ticking, and every five seconds the counter is averaged.

  One operation runs at a time; the counters are atomic, so operations of different CPUs do not disturb each other's additions.
  \<open>hz\<close> is the configured tick rate.
\<close>

section \<open>Fixed-point arithmetic\<close>

definition FSHIFT :: nat where
  "FSHIFT = 11"

definition FIXED_1 :: int where
  "FIXED_1 = shl 1 FSHIFT"

definition LOAD_FREQ :: "int \<Rightarrow> int" where
  "LOAD_FREQ hz = 5 * hz + 1"

definition EXP_1 :: int where
  "EXP_1 = 1884"

definition EXP_5 :: int where
  "EXP_5 = 2014"

definition EXP_15 :: int where
  "EXP_15 = 2037"

definition calc_load :: "int \<Rightarrow> int \<Rightarrow> int \<Rightarrow> int" where
  "calc_load load e active =
     (let newload = u64 (load * e + active * (FIXED_1 - e));
          newload = (if active \<ge> load then u64 (newload + (FIXED_1 - 1)) else newload)
      in newload div FIXED_1)"

text \<open>The loop of \<open>fixed_power_int\<close>, entered with \<open>n\<close> not zero.\<close>

function fixed_power_loop :: "int \<Rightarrow> nat \<Rightarrow> nat \<Rightarrow> int \<Rightarrow> int" where
  "fixed_power_loop x frac_bits n result =
     (let result = (if n mod 2 = 1 then shr (u64 (u64 (result * x) + shl 1 (frac_bits - 1))) frac_bits else result);
          n = n div 2
      in if n = 0 then result
         else fixed_power_loop (shr (u64 (u64 (x * x) + shl 1 (frac_bits - 1))) frac_bits) frac_bits n result)"
  by pat_completeness auto
termination
  by (relation "measure (\<lambda>(x, frac_bits, n, result). n)") auto

declare fixed_power_loop.simps [simp del]

definition fixed_power_int :: "int \<Rightarrow> nat \<Rightarrow> nat \<Rightarrow> int" where
  "fixed_power_int x frac_bits n =
     (let result = shl 1 frac_bits in if n \<noteq> 0 then fixed_power_loop x frac_bits n result else result)"

definition calc_load_n :: "int \<Rightarrow> int \<Rightarrow> int \<Rightarrow> int \<Rightarrow> int" where
  "calc_load_n load e active n = calc_load load (fixed_power_int e FSHIFT (nat (u32 n))) active"

section \<open>State\<close>

record load_rq =
  lrq_nr_running :: int           \<comment> \<open>\<open>unsigned int\<close>\<close>
  lrq_nr_uninterruptible :: int   \<comment> \<open>\<open>unsigned int\<close>\<close>
  lrq_active :: int               \<comment> \<open>\<open>long calc_load_active\<close>\<close>
  lrq_update :: int               \<comment> \<open>\<open>unsigned long calc_load_update\<close>\<close>

record load_sys =
  jiffies :: int
  calc_load_tasks :: int
  calc_load_update :: int
  avenrun :: "int \<times> int \<times> int"
  calc_load_nohz :: "int \<times> int"
  calc_load_idx :: int
  load_rqs :: "nat \<Rightarrow> load_rq"

definition time_before :: "int \<Rightarrow> int \<Rightarrow> bool" where
  "time_before a b \<longleftrightarrow> s64 (u64 (a - b)) < 0"

definition get_avenrun :: "int \<times> int \<times> int \<Rightarrow> int \<Rightarrow> nat \<Rightarrow> int \<times> int \<times> int" where
  "get_avenrun avg offset shift = (case avg of (a, b, c) \<Rightarrow>
     (u64 (shl (u64 (a + offset)) shift), u64 (shl (u64 (b + offset)) shift), u64 (shl (u64 (c + offset)) shift)))"

definition upd_rq :: "nat \<Rightarrow> load_rq \<Rightarrow> load_sys \<Rightarrow> load_sys" where
  "upd_rq c rq ls = ls\<lparr>load_rqs := (load_rqs ls)(c := rq)\<rparr>"

section \<open>Folding\<close>

definition calc_load_fold_active :: "load_rq \<Rightarrow> int \<Rightarrow> int \<times> load_rq" where
  "calc_load_fold_active rq adjust =
     (let nr_active = s64 (lrq_nr_running rq - adjust);
          nr_active = s64 (nr_active + s32 (lrq_nr_uninterruptible rq))
      in if nr_active \<noteq> lrq_active rq then (s64 (nr_active - lrq_active rq), rq\<lparr>lrq_active := nr_active\<rparr>) else (0, rq))"

definition add_tasks :: "int \<Rightarrow> load_sys \<Rightarrow> load_sys" where
  "add_tasks delta ls = (if delta \<noteq> 0 then ls\<lparr>calc_load_tasks := s64 (calc_load_tasks ls + delta)\<rparr> else ls)"

definition calc_load_write_idx :: "load_sys \<Rightarrow> int" where
  "calc_load_write_idx ls =
     (let idx = calc_load_idx ls;
          idx = (if \<not> time_before (jiffies ls) (calc_load_update ls) then s32 (idx + 1) else idx)
      in idx mod 2)"

definition calc_load_read_idx :: "load_sys \<Rightarrow> int" where
  "calc_load_read_idx ls = calc_load_idx ls mod 2"

definition add_nohz :: "int \<Rightarrow> int \<Rightarrow> int \<times> int \<Rightarrow> int \<times> int" where
  "add_nohz idx delta p = (case p of (a, b) \<Rightarrow> if idx = 0 then (s64 (a + delta), b) else (a, s64 (b + delta)))"

definition calc_load_nohz_fold :: "nat \<Rightarrow> load_sys \<Rightarrow> load_sys" where
  "calc_load_nohz_fold c ls =
     (let (delta, rq) = calc_load_fold_active (load_rqs ls c) 0;
          ls = upd_rq c rq ls
      in if delta \<noteq> 0 then ls\<lparr>calc_load_nohz := add_nohz (calc_load_write_idx ls) delta (calc_load_nohz ls)\<rparr> else ls)"

definition calc_load_nohz_start :: "nat \<Rightarrow> load_sys \<Rightarrow> load_sys" where
  "calc_load_nohz_start this_cpu ls = calc_load_nohz_fold this_cpu ls"

definition calc_load_nohz_remote :: "nat \<Rightarrow> load_sys \<Rightarrow> load_sys" where
  "calc_load_nohz_remote c ls = calc_load_nohz_fold c ls"

definition calc_load_nohz_stop :: "int \<Rightarrow> nat \<Rightarrow> load_sys \<Rightarrow> load_sys" where
  "calc_load_nohz_stop hz this_cpu ls =
     (let rq = (load_rqs ls this_cpu)\<lparr>lrq_update := calc_load_update ls\<rparr>
      in if time_before (jiffies ls) (lrq_update rq) then upd_rq this_cpu rq ls
         else if time_before (jiffies ls) (u64 (lrq_update rq + 10))
         then upd_rq this_cpu (rq\<lparr>lrq_update := u64 (lrq_update rq + LOAD_FREQ hz)\<rparr>) ls
         else upd_rq this_cpu rq ls)"

definition calc_load_nohz_read :: "load_sys \<Rightarrow> int \<times> load_sys" where
  "calc_load_nohz_read ls =
     (case calc_load_nohz ls of (a, b) \<Rightarrow>
        if calc_load_read_idx ls = 0
        then (if a \<noteq> 0 then (a, ls\<lparr>calc_load_nohz := (0, b)\<rparr>) else (0, ls))
        else (if b \<noteq> 0 then (b, ls\<lparr>calc_load_nohz := (a, 0)\<rparr>) else (0, ls)))"

section \<open>Averaging\<close>

definition active_load :: "load_sys \<Rightarrow> int" where
  "active_load ls = (let active = calc_load_tasks ls in if active > 0 then s64 (active * FIXED_1) else 0)"

text \<open>\<open>active\<close> is passed on as an \<open>unsigned long\<close>.\<close>

definition calc_global_nohz :: "int \<Rightarrow> load_sys \<Rightarrow> load_sys" where
  "calc_global_nohz hz ls =
     (let sample_window = calc_load_update ls;
          ls = (if \<not> time_before (jiffies ls) (u64 (sample_window + 10)) then
                  let delta = s64 (jiffies ls - sample_window - 10);
                      n = s64 (1 + c_div delta (LOAD_FREQ hz));
                      active = u64 (active_load ls);
                      (a, b, c) = avenrun ls
                  in ls\<lparr>avenrun := (calc_load_n a EXP_1 active n, calc_load_n b EXP_5 active n, calc_load_n c EXP_15 active n),
                        calc_load_update := u64 (sample_window + n * LOAD_FREQ hz)\<rparr>
                else ls)
      in ls\<lparr>calc_load_idx := s32 (calc_load_idx ls + 1)\<rparr>)"

definition calc_global_load :: "int \<Rightarrow> load_sys \<Rightarrow> load_sys" where
  "calc_global_load hz ls =
     (let sample_window = calc_load_update ls in
      if time_before (jiffies ls) (u64 (sample_window + 10)) then ls
      else
        let (delta, ls) = calc_load_nohz_read ls;
            ls = add_tasks delta ls;
            active = u64 (active_load ls);
            (a, b, c) = avenrun ls;
            ls = ls\<lparr>avenrun := (calc_load a EXP_1 active, calc_load b EXP_5 active, calc_load c EXP_15 active),
                    calc_load_update := u64 (sample_window + LOAD_FREQ hz)\<rparr>
        in calc_global_nohz hz ls)"

definition calc_global_load_tick :: "int \<Rightarrow> nat \<Rightarrow> load_sys \<Rightarrow> load_sys" where
  "calc_global_load_tick hz c ls =
     (if time_before (jiffies ls) (lrq_update (load_rqs ls c)) then ls
      else
        let (delta, rq) = calc_load_fold_active (load_rqs ls c) 0;
            ls = add_tasks delta (upd_rq c rq ls)
        in upd_rq c (rq\<lparr>lrq_update := u64 (lrq_update rq + LOAD_FREQ hz)\<rparr>) ls)"

text \<open>kernel/sched/core.c, for a CPU that goes offline.\<close>

definition calc_load_migrate :: "nat \<Rightarrow> load_sys \<Rightarrow> load_sys" where
  "calc_load_migrate c ls =
     (let (delta, rq) = calc_load_fold_active (load_rqs ls c) 1
      in add_tasks delta (upd_rq c rq ls))"

end
