(* ===== verification/Loadavg_Props.thy ===== *)
theory Loadavg_Props
  imports Loadavg
begin

text \<open>
  The global load average: an update moves an average towards the active load and reaches it, and the distributed count of active tasks
  is exact.
\<close>

section \<open>One step of the average\<close>

lemma FIXED_1_eq [simp]: "FIXED_1 = 2048"
  by (simp add: FIXED_1_def FSHIFT_def shl_def)

text \<open>
  For a weight below one and values that leave room for the multiplication, a step stays between the old average and the active load, and
  moves by at least one unit towards it.
\<close>

lemma calc_load_exact:
  assumes "0 \<le> load" "load < 2 ^ 52" "0 \<le> active" "active < 2 ^ 52" "0 \<le> e" "e \<le> 2048"
  shows "calc_load load e active = (load * e + active * (2048 - e) + (if active \<ge> load then 2047 else 0)) div 2048"
    "0 \<le> load * e + active * (2048 - e)"
proof -
  have "load * e \<le> load * 2048" "active * (2048 - e) \<le> active * 2048" using assms by (auto intro: mult_left_mono)
  then have "load * e + active * (2048 - e) \<le> 18446744073709547520" using assms(2,4) by simp
  moreover show n: "0 \<le> load * e + active * (2048 - e)" using assms by simp
  ultimately have "u64 (load * e + active * (2048 - e)) = load * e + active * (2048 - e)"
    "u64 (load * e + active * (2048 - e) + 2047) = load * e + active * (2048 - e) + 2047"
    by (intro u64_id; simp)+
  then show "calc_load load e active = (load * e + active * (2048 - e) + (if active \<ge> load then 2047 else 0)) div 2048"
    by (simp add: calc_load_def Let_def)
qed

lemma calc_load_up:
  assumes "0 \<le> load" "load \<le> active" "active < 2 ^ 52" "0 \<le> e" "e \<le> 2048"
  shows "load \<le> calc_load load e active" "calc_load load e active \<le> active" "load < active \<Longrightarrow> e < 2048 \<Longrightarrow> load < calc_load load e active"
proof -
  define d where "d = active - load"
  have c: "calc_load load e active = (load * 2048 + (d * (2048 - e) + 2047)) div 2048"
    using calc_load_exact(1) [of load active e] assms by (simp add: d_def algebra_simps)
  have s: "\<dots> = load + (d * (2048 - e) + 2047) div 2048" by simp
  have "0 \<le> d * (2048 - e)" using assms by (simp add: d_def)
  then show "load \<le> calc_load load e active" by (simp add: c)
  have "d * (2048 - e) \<le> d * 2048" using assms by (intro mult_left_mono) (auto simp: d_def)
  then have "(d * (2048 - e) + 2047) div 2048 < d + 1" by (intro int_div_less) auto
  then show "calc_load load e active \<le> active" by (simp add: c d_def)
  show "load < calc_load load e active" if "load < active" "e < 2048"
  proof -
    have "1 * 1 \<le> d * (2048 - e)" using that by (intro mult_mono) (auto simp: d_def)
    then have "1 \<le> (d * (2048 - e) + 2047) div 2048" by linarith
    then show ?thesis by (simp add: c)
  qed
qed

lemma calc_load_down:
  assumes "0 \<le> active" "active < load" "load < 2 ^ 52" "0 \<le> e" "e \<le> 2048"
  shows "active \<le> calc_load load e active" "calc_load load e active \<le> load" "e < 2048 \<Longrightarrow> calc_load load e active < load"
proof -
  define d where "d = load - active"
  have c: "calc_load load e active = (active * 2048 + d * e) div 2048"
    using calc_load_exact(1) [of load active e] assms by (simp add: d_def algebra_simps)
  have "0 \<le> d * e" using assms by (simp add: d_def)
  then show "active \<le> calc_load load e active" by (simp add: c)
  have "d * e \<le> d * 2048" using assms by (intro mult_left_mono) (auto simp: d_def)
  then have "d * e div 2048 < d + 1" by (intro int_div_less) auto
  then show "calc_load load e active \<le> load" by (simp add: c d_def)
  show "calc_load load e active < load" if "e < 2048"
  proof -
    have "d * e < d * 2048" using that assms by (intro mult_strict_left_mono) (auto simp: d_def)
    then have "d * e div 2048 < d" by (rule int_div_less [rotated]) simp
    then show ?thesis by (simp add: c d_def)
  qed
qed

lemma calc_load_bound:
  assumes "0 \<le> load" "load \<le> M" "0 \<le> active" "active \<le> M" "M < 2 ^ 52" "0 \<le> e" "e \<le> 2048"
  shows "0 \<le> calc_load load e active" "calc_load load e active \<le> M"
proof -
  have "0 \<le> calc_load load e active \<and> calc_load load e active \<le> M"
  proof (cases "load \<le> active")
    case True
    from calc_load_up(1,2) [OF assms(1) this _ assms(6,7)] assms show ?thesis by linarith
  next
    case False
    then have "active < load" by simp
    from calc_load_down(1,2) [OF assms(3) this _ assms(6,7)] assms show ?thesis by linarith
  qed
  then show "0 \<le> calc_load load e active" "calc_load load e active \<le> M" by simp_all
qed

lemma fixed_power_loop_bound:
  "0 \<le> x \<Longrightarrow> x \<le> 2048 \<Longrightarrow> 0 \<le> r \<Longrightarrow> r \<le> 2048 \<Longrightarrow> 0 \<le> fixed_power_loop x 11 n r \<and> fixed_power_loop x 11 n r \<le> 2048"
proof (induction x "11 :: nat" n r rule: fixed_power_loop.induct)
  case (1 x n r)
  have m: "0 \<le> shr (u64 (u64 (a * b) + shl 1 (11 - 1))) 11 \<and> shr (u64 (u64 (a * b) + shl 1 (11 - 1))) 11 \<le> 2048"
    if "0 \<le> a" "a \<le> 2048" "0 \<le> b" "b \<le> 2048" for a b :: int
  proof -
    have p: "0 \<le> a * b" "a * b \<le> 2048 * 2048" using that mult_mono [of a 2048 b 2048] by auto
    then have "u64 (a * b) = a * b" "u64 (a * b + 1024) = a * b + 1024" by (intro u64_id; simp)+
    moreover have "(a * b + 1024) div 2048 < 2049" "0 \<le> (a * b + 1024) div 2048" using p by (auto intro: int_div_less)
    ultimately show ?thesis by (simp add: shr_def shl_def)
  qed
  define r' where "r' = (if n mod 2 = 1 then shr (u64 (u64 (r * x) + shl 1 (11 - 1))) 11 else r)"
  define x' where "x' = shr (u64 (u64 (x * x) + shl 1 (11 - 1))) 11"
  have step: "fixed_power_loop x 11 n r = (if n div 2 = 0 then r' else fixed_power_loop x' 11 (n div 2) r')"
    by (simp only: fixed_power_loop.simps [of x 11 n r] Let_def r'_def x'_def)
  have b: "0 \<le> r'" "r' \<le> 2048" "0 \<le> x'" "x' \<le> 2048"
    using m [OF "1.prems"(3,4,1,2)] m [OF "1.prems"(1,2,1,2)] "1.prems"(3,4) by (simp_all add: r'_def x'_def)
  show ?case
  proof (cases "n div 2 = 0")
    case False
    from "1.hyps" [OF r'_def refl False, folded x'_def, OF b(3,4,1,2)] show ?thesis unfolding step using False by simp
  qed (unfold step, use b in simp)
qed

lemma fixed_power_bound:
  assumes "0 \<le> x" "x \<le> 2048"
  shows "0 \<le> fixed_power_int x FSHIFT n" "fixed_power_int x FSHIFT n \<le> 2048"
  using fixed_power_loop_bound [OF assms, of 2048 n] by (auto simp: fixed_power_int_def FSHIFT_def shl_def Let_def)

lemma calc_load_step:
  assumes "0 \<le> load" "load < 2 ^ 52" "0 \<le> active" "active < 2 ^ 52" "0 \<le> e" "e < 2048"
  shows "0 \<le> calc_load load e active" "calc_load load e active < 2 ^ 52"
    "nat \<bar>calc_load load e active - active\<bar> \<le> nat \<bar>load - active\<bar> - 1"
proof -
  have e: "e \<le> 2048" using assms(6) by simp
  have "0 \<le> calc_load load e active \<and> calc_load load e active < 2 ^ 52 \<and> nat \<bar>calc_load load e active - active\<bar> \<le> nat \<bar>load - active\<bar> - 1"
  proof (cases "load \<le> active")
    case True
    note u = calc_load_up [OF assms(1) True assms(4,5) e]
    show ?thesis
    proof (cases "load = active")
      case False
      with True u(3) assms(6) have "load < calc_load load e active" by simp
      with u(2) assms False True show ?thesis by linarith
    qed (use u assms in auto)
  next
    case False
    then have l: "active < load" by simp
    from calc_load_down [OF assms(3) l assms(2,5) e] assms l show ?thesis by linarith
  qed
  then show "0 \<le> calc_load load e active" "calc_load load e active < 2 ^ 52"
    "nat \<bar>calc_load load e active - active\<bar> \<le> nat \<bar>load - active\<bar> - 1" by simp_all
qed

text \<open>
  C21: The load average reaches the load.  While the number of active tasks does not change, every update of an average moves it towards the
  active load by at least one unit of the fixed-point representation and never past it, so that it gets there exactly, after at most as many updates as
  the distance, and stays.  In particular the average of an idle system becomes zero: the rounding does not leave a residue in either direction.
\<close>

theorem calc_load_converges:
  assumes "0 \<le> load" "load < 2 ^ 52" "0 \<le> active" "active < 2 ^ 52" "0 \<le> e" "e < FIXED_1" "nat \<bar>load - active\<bar> \<le> n"
  shows "((\<lambda>l. calc_load l e active) ^^ n) load = active"
proof -
  let ?f = "\<lambda>l. calc_load l e active"
  have e: "e < 2048" using assms(6) by simp
  have "0 \<le> (?f ^^ n) load \<and> (?f ^^ n) load < 2 ^ 52 \<and> nat \<bar>(?f ^^ n) load - active\<bar> \<le> nat \<bar>load - active\<bar> - n" for n
  proof (induction n)
    case (Suc n)
    then have x: "0 \<le> (?f ^^ n) load" "(?f ^^ n) load < 2 ^ 52" and d: "nat \<bar>(?f ^^ n) load - active\<bar> \<le> nat \<bar>load - active\<bar> - n" by auto
    note s = calc_load_step [OF x assms(3-5) e]
    from s(3) d have "nat \<bar>calc_load ((?f ^^ n) load) e active - active\<bar> \<le> nat \<bar>load - active\<bar> - Suc n" by linarith
    with s(1,2) show ?case by simp
  qed (use assms in simp)
  from this [of n] assms(7) show ?thesis by simp
qed

theorem calc_load_converges_witness:
  "((\<lambda>l. calc_load l EXP_15 0) ^^ 4096) 4096 = 0"
  by (rule calc_load_converges) (simp_all add: EXP_15_def)

section \<open>Conservation\<close>

datatype load_op =
    Tick nat
  | Nohz_Start nat
  | Nohz_Remote nat
  | Nohz_Stop nat
  | Migrate nat
  | Global_Load
  | Jiffies int
  | Rq_Change nat int int

fun load_exec :: "int \<Rightarrow> load_sys \<Rightarrow> load_op \<Rightarrow> load_sys" where
  "load_exec hz ls (Tick c) = calc_global_load_tick hz c ls"
| "load_exec hz ls (Nohz_Start c) = calc_load_nohz_start c ls"
| "load_exec hz ls (Nohz_Remote c) = calc_load_nohz_remote c ls"
| "load_exec hz ls (Nohz_Stop c) = calc_load_nohz_stop hz c ls"
| "load_exec hz ls (Migrate c) = calc_load_migrate c ls"
| "load_exec hz ls Global_Load = calc_global_load hz ls"
| "load_exec hz ls (Jiffies j) = ls\<lparr>jiffies := u64 j\<rparr>"
| "load_exec hz ls (Rq_Change c r u) = upd_rq c ((load_rqs ls c)\<lparr>lrq_nr_running := u32 r, lrq_nr_uninterruptible := u32 u\<rparr>) ls"

fun load_op_cpu :: "load_op \<Rightarrow> nat option" where
  "load_op_cpu (Tick c) = Some c"
| "load_op_cpu (Nohz_Start c) = Some c"
| "load_op_cpu (Nohz_Remote c) = Some c"
| "load_op_cpu (Nohz_Stop c) = Some c"
| "load_op_cpu (Migrate c) = Some c"
| "load_op_cpu (Rq_Change c r u) = Some c"
| "load_op_cpu _ = None"

definition folded :: "load_sys \<Rightarrow> int" where
  "folded ls = calc_load_tasks ls + fst (calc_load_nohz ls) + snd (calc_load_nohz ls)"

definition sampled :: "nat \<Rightarrow> load_sys \<Rightarrow> int" where
  "sampled N ls = (\<Sum>c<N. lrq_active (load_rqs ls c))"

lemma u64_s64_add: "u64 (s64 x + y) = u64 (x + y)" "u64 (y + s64 x) = u64 (y + x)" "u64 (s64 x - y) = u64 (x - y)"
  by (metis u64_absorb(1) u64_s64, metis u64_absorb(2) u64_s64, metis u64_absorb(3) u64_s64)

lemma sampled_upd [simp]:
  "c < N \<Longrightarrow> sampled N (upd_rq c rq ls) = sampled N ls + (lrq_active rq - lrq_active (load_rqs ls c))"
  by (simp add: sampled_def upd_rq_def sum.If_cases [symmetric] sum.remove [of "{..<N}" c])

lemma upd_rq_simps [simp]:
  "folded (upd_rq c rq ls) = folded ls" "calc_load_nohz (upd_rq c rq ls) = calc_load_nohz ls" "calc_load_tasks (upd_rq c rq ls) = calc_load_tasks ls"
  "load_rqs (upd_rq c rq ls) c = rq"
  by (simp_all add: folded_def upd_rq_def)

lemma fold_active_delta:
  assumes "calc_load_fold_active rq adjust = (delta, rq')"
  shows "u64 (s + (lrq_active rq' - lrq_active rq)) = u64 (s + delta)" "lrq_update rq' = lrq_update rq"
  using assms by (auto simp: calc_load_fold_active_def Let_def u64_s64_add split: if_splits)

lemma folded_add_tasks: "u64 (folded (add_tasks d ls)) = u64 (folded ls + d)" "sampled N (add_tasks d ls) = sampled N ls"
  "load_rqs (add_tasks d ls) = load_rqs ls"
proof -
  have "u64 (s64 (t + d) + (a + b)) = u64 (t + a + b + d)" for t a b
    using u64_s64_add(1) [of "t + d" "a + b"] by (simp add: algebra_simps)
  then show "u64 (folded (add_tasks d ls)) = u64 (folded ls + d)" by (simp add: folded_def add_tasks_def add.assoc)
qed (simp_all add: add_tasks_def sampled_def)

text \<open>What an operation adds to the counters it adds to the samples.\<close>

definition conserves :: "nat \<Rightarrow> load_sys \<Rightarrow> load_sys \<Rightarrow> bool" where
  "conserves N ls ls' \<longleftrightarrow> u64 (folded ls' - sampled N ls') = u64 (folded ls - sampled N ls)"

lemma conserves_delta:
  assumes "u64 (folded ls') = u64 (folded ls + d)" "u64 (sampled N ls') = u64 (sampled N ls + d)"
  shows "conserves N ls ls'"
proof -
  have "u64 (folded ls' - sampled N ls') = u64 ((folded ls + d) - (sampled N ls + d))" using assms by (rule u64_cong_diff)
  then show ?thesis by (simp add: conserves_def)
qed

lemma fold_tasks_conserves:
  assumes "calc_load_fold_active (load_rqs ls c) adjust = (d, rq)" "c < N"
  shows "conserves N ls (add_tasks d (upd_rq c rq ls))"
  using fold_active_delta(1) [OF assms(1), of "sampled N ls"] assms(2)
  by (intro conserves_delta [of _ _ d]) (simp_all add: folded_add_tasks)

lemma tick_conserves: "c < N \<Longrightarrow> conserves N ls (calc_global_load_tick hz c ls)"
proof -
  assume c: "c < N"
  obtain d rq where f: "calc_load_fold_active (load_rqs ls c) 0 = (d, rq)" by fastforce
  from fold_tasks_conserves [OF f c] show ?thesis
    using f c by (simp add: calc_global_load_tick_def conserves_def folded_add_tasks)
qed

lemma migrate_conserves: "c < N \<Longrightarrow> conserves N ls (calc_load_migrate c ls)"
  using fold_tasks_conserves [of ls c 1] by (auto simp: calc_load_migrate_def split: prod.splits)

lemma nohz_fold_conserves: "c < N \<Longrightarrow> conserves N ls (calc_load_nohz_fold c ls)"
proof -
  assume c: "c < N"
  obtain d rq where f: "calc_load_fold_active (load_rqs ls c) 0 = (d, rq)" by fastforce
  obtain a b where ab: "calc_load_nohz ls = (a, b)" by fastforce
  have s: "u64 (sampled N (upd_rq c rq ls)) = u64 (sampled N ls + d)" using fold_active_delta(1) [OF f, of "sampled N ls"] c by simp
  have n: "u64 (t + s64 (a + d) + b) = u64 (t + a + b + d)" "u64 (t + a + s64 (b + d)) = u64 (t + a + b + d)" for t
    using u64_s64_add(2) [of "t + b" "a + d"] u64_s64_add(2) [of "t + a" "b + d"] by (simp_all add: algebra_simps)
  show ?thesis
  proof (cases "d = 0")
    case True
    then show ?thesis using f s by (intro conserves_delta [of _ _ d]) (simp_all add: calc_load_nohz_fold_def)
  next
    case False
    then show ?thesis using f s n ab
      by (intro conserves_delta [of _ _ d]) (simp_all add: calc_load_nohz_fold_def Let_def folded_def add_nohz_def sampled_def)
  qed
qed

lemma nohz_stop_conserves: "c < N \<Longrightarrow> conserves N ls (calc_load_nohz_stop hz c ls)"
  by (simp add: calc_load_nohz_stop_def Let_def conserves_def)

lemma global_nohz_conserves: "conserves N ls (calc_global_nohz hz ls)"
  by (simp add: calc_global_nohz_def Let_def conserves_def folded_def sampled_def split: prod.splits)

lemma nohz_read_folds:
  assumes "calc_load_nohz_read ls = (d, ls')"
  shows "u64 (folded (add_tasks d ls')) = u64 (folded ls)" "load_rqs (add_tasks d ls') = load_rqs ls"
proof -
  have "u64 (folded (add_tasks d ls')) = u64 (folded ls' + d)" by (rule folded_add_tasks)
  moreover have "folded ls' + d = folded ls" "load_rqs ls' = load_rqs ls"
    using assms by (auto simp: calc_load_nohz_read_def folded_def split: prod.splits if_splits)
  ultimately show "u64 (folded (add_tasks d ls')) = u64 (folded ls)" "load_rqs (add_tasks d ls') = load_rqs ls"
    by (simp_all add: folded_add_tasks)
qed

lemma global_load_conserves: "conserves N ls (calc_global_load hz ls)"
proof (cases "time_before (jiffies ls) (u64 (calc_load_update ls + 10))")
  case False
  obtain d ls1 where r: "calc_load_nohz_read ls = (d, ls1)" by fastforce
  obtain a b c where av: "avenrun (add_tasks d ls1) = (a, b, c)" using prod_cases3 by blast
  define ls2 where "ls2 = (add_tasks d ls1)\<lparr>avenrun := (calc_load a EXP_1 (u64 (active_load (add_tasks d ls1))),
      calc_load b EXP_5 (u64 (active_load (add_tasks d ls1))), calc_load c EXP_15 (u64 (active_load (add_tasks d ls1)))),
    calc_load_update := u64 (calc_load_update ls + LOAD_FREQ hz)\<rparr>"
  have "folded ls2 = folded (add_tasks d ls1)" "sampled N ls2 = sampled N ls"
    using nohz_read_folds(2) [OF r] by (simp_all add: ls2_def folded_def sampled_def)
  with nohz_read_folds(1) [OF r] have "conserves N ls ls2" by (intro conserves_delta [of _ _ 0]) simp_all
  moreover have "calc_global_load hz ls = calc_global_nohz hz ls2"
    using False r av by (simp add: calc_global_load_def Let_def ls2_def)
  ultimately show ?thesis using global_nohz_conserves [of N ls2 hz] by (simp add: conserves_def)
qed (simp add: calc_global_load_def conserves_def)

lemma change_conserves:
  "conserves N ls (ls\<lparr>jiffies := j\<rparr>)"
  "c < N \<Longrightarrow> conserves N ls (upd_rq c ((load_rqs ls c)\<lparr>lrq_nr_running := r, lrq_nr_uninterruptible := u\<rparr>) ls)"
  by (simp add: conserves_def folded_def sampled_def, simp add: conserves_def)

lemma load_exec_conserves:
  assumes "pred_option (\<lambda>c. c < N) (load_op_cpu op)"
  shows "conserves N ls (load_exec hz ls op)"
  using assms tick_conserves nohz_fold_conserves nohz_stop_conserves migrate_conserves global_load_conserves change_conserves
  by (cases op) (simp_all add: calc_load_nohz_start_def calc_load_nohz_remote_def)

text \<open>
  C20: No active task is lost or counted twice.  In any interleaving of ticks, CPUs that stop and restart their tick, remote folds, CPUs that
  go away and updates of the averages, with the clock and the runqueues changing in between in any way, the global count together with the
  two pending counts of tickless CPUs is the sum of what the CPUs have last reported; what a CPU has last reported at a tick in its window is
  the number of its running and uninterruptible tasks.
\<close>

theorem calc_load_conserved:
  assumes "\<forall>c<N. lrq_active (load_rqs ls c) = 0" "calc_load_tasks ls = 0" "calc_load_nohz ls = (0, 0)"
    and ops: "list_all (\<lambda>op. pred_option (\<lambda>c. c < N) (load_op_cpu op)) ops" and ls': "ls' = foldl (load_exec hz) ls ops"
  shows "u64 (calc_load_tasks ls' + fst (calc_load_nohz ls') + snd (calc_load_nohz ls')) = u64 (\<Sum>c<N. lrq_active (load_rqs ls' c)) \<and>
    (\<forall>c<N. \<not> time_before (jiffies ls') (lrq_update (load_rqs ls' c)) \<longrightarrow>
       lrq_active (load_rqs (calc_global_load_tick hz c ls') c) = s64 (lrq_nr_running (load_rqs ls' c) + s32 (lrq_nr_uninterruptible (load_rqs ls' c))))"
proof -
  have "u64 (folded (foldl (load_exec hz) ls ops) - sampled N (foldl (load_exec hz) ls ops)) = u64 (folded ls - sampled N ls)"
    using ops
  proof (induction ops arbitrary: ls)
    case (Cons op ops)
    then show ?case using load_exec_conserves [of N op ls hz] Cons.IH [of "load_exec hz ls op"] by (simp add: conserves_def)
  qed simp
  moreover have "folded ls - sampled N ls = 0" using assms(1-3) by (simp add: folded_def sampled_def)
  ultimately have "u64 (folded ls' - sampled N ls') = u64 0" using ls' by simp
  then have "u64 (folded ls' - sampled N ls' + sampled N ls') = u64 (0 + sampled N ls')" by (rule u64_cong_add) simp
  then have "u64 (folded ls') = u64 (sampled N ls')" by simp
  moreover have "lrq_active (load_rqs (calc_global_load_tick hz c ls') c) = s64 (lrq_nr_running (load_rqs ls' c) + s32 (lrq_nr_uninterruptible (load_rqs ls' c)))"
    if "\<not> time_before (jiffies ls') (lrq_update (load_rqs ls' c))" for c
    using that by (auto simp: calc_global_load_tick_def calc_load_fold_active_def Let_def s64_absorb)
  ultimately show ?thesis by (simp add: folded_def sampled_def)
qed

definition example_load :: load_sys where
  "example_load = \<lparr>jiffies = 0, calc_load_tasks = 0, calc_load_update = 100, avenrun = (0, 0, 0), calc_load_nohz = (0, 0), calc_load_idx = 0,
     load_rqs = \<lambda>_. \<lparr>lrq_nr_running = 0, lrq_nr_uninterruptible = 0, lrq_active = 0, lrq_update = 100\<rparr>\<rparr>"

definition example_load_ops :: "load_op list" where
  "example_load_ops = [Rq_Change 0 3 0, Rq_Change 1 2 (- 1), Jiffies 100, Tick 0, Nohz_Start 1, Jiffies 111, Global_Load, Rq_Change 0 1 0]"

theorem calc_load_conserved_witness:
  "let ls' = foldl (load_exec 250) example_load example_load_ops in
     u64 (calc_load_tasks ls' + fst (calc_load_nohz ls') + snd (calc_load_nohz ls')) = u64 (\<Sum>c<2. lrq_active (load_rqs ls' c))"
proof -
  have "list_all (\<lambda>op. pred_option (\<lambda>c. c < 2) (load_op_cpu op)) example_load_ops" by (simp add: example_load_ops_def)
  from calc_load_conserved [OF _ _ _ this refl, of example_load 250] show ?thesis by (simp add: example_load_def Let_def)
qed

end
