(* ===== verification/Spec2Isabelle.thy ===== *)
theory Spec2Isabelle
  imports Bandwidth_Props Fair_Props Cpudl_Props Cpupri_Conc Loadavg_Props
begin

text \<open>
  A verification development of the Linux 6.6 scheduler as this repository keeps it (src/linux-6.6-scheduler-study/kernel/sched, with the
  library code it calls from src/linux-6.6).  File names below are those of kernel/sched unless a path is given.

  \<^bold>\<open>The program.\<close>  The fair class runs the entities (tasks and task groups) of a runqueue \<open>cfs_rq\<close> by the EEVDF algorithm: an entity has a
  virtual runtime and a virtual deadline, the runqueue keeps those that wait in a red-black tree ordered by virtual runtime and augmented with the
  earliest deadline, and picks the eligible one with the earliest deadline.  Run time is scaled by the weight of an entity, load is tracked as
  geometric series (PELT) and propagated through groups, and a group may be limited to a quota of CPU time per period (bandwidth control).
  Around it, the deadline class finds CPUs by a heap of deadlines, the real-time class by a table of priorities, and the global load average counts
  active tasks across CPUs.

  \<^bold>\<open>Conventions\<close> (\<open>Sched_Prelude\<close>, \<open>Simulation\<close>).  A C integer is an \<open>int\<close>; \<open>u32\<close>, \<open>u64\<close>, \<open>s32\<close>, \<open>s64\<close> stand where the C truncates.
  Clocks wrap: \<open>in_window\<close> says that the values in play lie within \<open>2 ^ 62\<close> of each other, \<open>clock_off\<close> is the order the code then sees.
  A NULL dereference, a failed allocation or an access outside an array is \<open>None\<close>.  Pointers to entities are their identifiers.  The
  current entity is \<open>cfs_curr\<close> and not in the tree.  Locks are left out, each operation running alone, except in \<open>Cpupri_Conc\<close>.  Sequences of operations
  are \<open>steps\<close> of a relation or a \<open>run\<close> of functions; the locales \<open>simulation\<close> and \<open>total_refinement\<close> lift a simulation by single operations to
  sequences and are interpreted on the fair runqueue, the deadline heap and the priorities.

  \<^bold>\<open>Trees\<close> (lib/rbtree.c, include/linux/rbtree_augmented.h).  \<open>Rbtree\<close>: insertion and removal with their rebalancing loops over a zipper,
  the augmentation callbacks and the cached leftmost node, as the code has them.  \<open>Rbtree_Timeline\<close> and \<open>Rbtree_Update\<close>: balance, order and augmentation in the
  locales \<open>rb_augmented\<close> and \<open>rb_ordered\<close>, for insertion, removal and a change of a node in place.

  \<^bold>\<open>Types and weights.\<close>  \<open>Sched_Types\<close> has the records of entities and runqueues and interprets the tree locale on the timeline;
  \<open>Load_Weight\<close> the nice tables and \<open>__calc_delta\<close> (exactness of the reciprocal multiplication, the tables, \<open>fls\<close>).

  \<^bold>\<open>PELT\<close> (pelt.c, pelt.h).  \<open>Pelt\<close>: decay, accumulation and averages, the signals of the runqueue and its scaled clock; accuracy of the
  decay, bounds of the sums along all updates, alignment of signals that share a clock.

  \<^bold>\<open>EEVDF\<close> (fair.c).  \<open>Eevdf\<close>: average virtual runtime, eligibility, the pick, lag, placement, deadlines, \<open>__enqueue_entity\<close> and
  \<open>__dequeue_entity\<close>.  \<open>Eevdf_Pick\<close>, \<open>Eevdf_Props\<close>: the descent of the augmented tree finds the earliest eligible deadline and never fails while an
  entity competes, the sums are exact, the average is the weighted one, placement keeps the lag, \<open>min_vruntime\<close> is monotone.

  \<^bold>\<open>Load of entities and groups\<close> (fair.c).  \<open>Fair_Load\<close>, \<open>Fair_Load_Props\<close>: attach and detach, propagation through group entities, group
  shares, estimated utilization.

  \<^bold>\<open>Bandwidth control\<close> (fair.c, core.c).  \<open>Bandwidth\<close>, \<open>Bandwidth_Props\<close>: slices of runtime, throttling and its nesting, the period and
  slack timers, the check of quotas; executed time is limited by the quotas granted, the timer callback terminates, throttle counts are those of the ancestors.

  \<^bold>\<open>Entities of a runqueue\<close> (fair.c).  \<open>Fair\<close>: \<open>update_curr\<close>, \<open>reweight_entity\<close>, \<open>enqueue_entity\<close>, \<open>dequeue_entity\<close>,
  \<open>set_next_entity\<close>, \<open>put_prev_entity\<close>, \<open>pick_next_entity\<close> and \<open>entity_tick\<close> on one level, composed of the components above.  \<open>Fair_Frame\<close>,
  \<open>Fair_Inv\<close>, \<open>Fair_Ops\<close>, \<open>Fair_Switch\<close>: what each part leaves alone, the invariant \<open>level_ok\<close>, and that every operation keeps it.  \<open>Fair_Props\<close>:
  sequences of operations refine a set of runnable entities with a current one, counters are exact, slices are protected, run time is charged once.

  \<^bold>\<open>Deadline heap\<close> (cpudeadline.c).  \<open>Cpudl\<close>, \<open>Cpudl_Props\<close>: the array heap with back pointers refines a map from CPUs to deadlines, and
  \<open>cpudl_find\<close> returns what it promises.

  \<^bold>\<open>CPU priorities\<close> (cpupri.c).  \<open>Cpupri\<close>, \<open>Cpupri_Props\<close>: a search returns the CPUs of the lowest priority.  \<open>Cpupri_Conc\<close>: the stores of
  updates interleaved with each other and with the reads of a search, under sequentially consistent memory; a CPU whose priority rises is not missed.

  \<^bold>\<open>Load average\<close> (loadavg.c).  \<open>Loadavg\<close>, \<open>Loadavg_Props\<close>: the distributed count of active tasks is exact, and an average reaches a
  constant load.

  \<^bold>\<open>Fuel and hypotheses.\<close>  Loops are structural or have a termination proof; none runs on fuel.  Hypotheses of a window bound how far clocks and
  deadlines may be apart, hypotheses of range bound weights and loads; every theorem with hypotheses is followed by an instance where they hold.
  Architecture code (\<open>arch_scale_cpu_capacity\<close>, \<open>arch_scale_freq_capacity\<close>), masks of possible and active CPUs, the tick rate and scheduler features are
  arguments or fields of records.

  \<^bold>\<open>Not modelled.\<close>  The task level of the fair class (walks up the group hierarchy, wakeup placement, load and NUMA balancing); the
  real-time and deadline classes beyond the structures above; context switch, wakeup, affinity, clamps and system calls of core.c; domains and
  topology; the frequency governor; pressure stall information; clocks and CPU time; wait queues; statistics, debugging and tracing.  They are locking, interrupts,
  per-task lists, hardware and files, for which the model has no state.  The msm-4.19 tree and the rest of the Linux 6.6 tree are kept for comparison.
\<close>

end
